(* ===== verification/Prelude.thy ===== *)
theory Prelude
  imports
    Complex_Main
    "HOL-Library.Word"
    "HOL-Library.Finite_Map"
    "HOL-Library.Multiset"
    "HOL-Library.Char_ord"
    "HOL-Library.List_Lexorder"
begin

text \<open>
  Shared vocabulary of the development. The names of the program's basic types, the model of
  Go's maps and sets (\<open>fmap\<close> and \<open>fset\<close>: finite by construction, iterated in key order, which
  is the order every caller in the source restores by sorting), the model of Go's stable sort,
  and the order-theoretic interface (\<open>weak_order\<close>, \<open>keyed_order\<close>) that the election ranking and
  the timer queue both provide. The named collections gather the facts that component proofs
  pass to the simplifier.
\<close>

named_theorems swarm_simps \<open>unfolding rules of small source helpers\<close>
named_theorems frame_simps \<open>fields a step leaves unchanged\<close>

section \<open>Basic types\<close>

text \<open>Go strings are byte strings compared bytewise; \<open>string\<close> with the lexicographic order is that.\<close>

type_synonym NodeID = string
type_synonym NodeAddress = string
type_synonym byte = "8 word"
type_synonym uint64 = "64 word"
type_synonym duration = int \<comment> \<open>time.Duration and time.Time, in nanoseconds\<close>

section \<open>Stable sorting\<close>

text \<open>
  \<open>sort.SliceStable\<close> and \<open>slices.SortFunc\<close> on a strict weak order: insertion sort, which keeps
  incomparable elements in their input order.
\<close>

fun insert_by :: "('a \<Rightarrow> 'a \<Rightarrow> bool) \<Rightarrow> 'a \<Rightarrow> 'a list \<Rightarrow> 'a list" where
  "insert_by lt x [] = [x]"
| "insert_by lt x (y # ys) = (if lt y x then y # insert_by lt x ys else x # y # ys)"

definition sort_by :: "('a \<Rightarrow> 'a \<Rightarrow> bool) \<Rightarrow> 'a list \<Rightarrow> 'a list" where
  "sort_by lt xs = foldr (insert_by lt) xs []"

lemma mset_insert_by [simp]: "mset (insert_by lt x ys) = add_mset x (mset ys)"
  by (induction ys) auto

lemma sort_by_Nil [simp]: "sort_by lt [] = []"
  and sort_by_Cons: "sort_by lt (x # xs) = insert_by lt x (sort_by lt xs)"
  by (simp_all add: sort_by_def)

lemma mset_sort_by [simp]: "mset (sort_by lt xs) = mset xs"
  by (induction xs) (auto simp: sort_by_Cons)

lemma set_sort_by [simp]: "set (sort_by lt xs) = set xs"
  using mset_sort_by by (metis set_mset_mset)

lemma length_sort_by [simp]: "length (sort_by lt xs) = length xs"
  using mset_sort_by by (metis size_mset)

lemma distinct_map_sort_by [simp]: "distinct (map f (sort_by lt xs)) = distinct (map f xs)"
  by (metis mset_map mset_sort_by mset_eq_imp_distinct_iff)

lemma sort_by_Nil_iff [simp]: "sort_by lt xs = [] \<longleftrightarrow> xs = []"
  by (metis length_0_conv length_sort_by)

locale weak_order =
  fixes lt :: "'a \<Rightarrow> 'a \<Rightarrow> bool"
  assumes asym: "lt a b \<Longrightarrow> \<not> lt b a"
    and neg_trans: "lt a c \<Longrightarrow> lt a b \<or> lt b c"
begin

lemma irrefl: "\<not> lt a a"
  using asym by blast

lemma trans: "lt a b \<Longrightarrow> lt b c \<Longrightarrow> lt a c"
  using asym neg_trans by blast

lemma not_less_trans: "\<not> lt b a \<Longrightarrow> \<not> lt c b \<Longrightarrow> \<not> lt c a"
  using neg_trans by blast

definition ordered :: "'a list \<Rightarrow> bool" where
  "ordered xs \<longleftrightarrow> sorted_wrt (\<lambda>a b. \<not> lt b a) xs"

lemma set_insert_by: "set (insert_by lt x ys) = insert x (set ys)"
  by (induction ys) auto

lemma ordered_insert_by: "ordered ys \<Longrightarrow> ordered (insert_by lt x ys)"
proof (induction ys)
  case Nil
  then show ?case by (simp add: ordered_def)
next
  case (Cons y ys)
  then have IH: "ordered (insert_by lt x ys)" by (simp add: ordered_def)
  show ?case
  proof (cases "lt y x")
    case True
    with Cons.prems IH show ?thesis
      by (auto simp: ordered_def set_insert_by dest: asym)
  next
    case False
    with Cons.prems show ?thesis
      by (auto simp: ordered_def) (meson not_less_trans)
  qed
qed

lemma ordered_sort_by: "ordered (sort_by lt xs)"
  by (induction xs) (auto simp: sort_by_Cons ordered_insert_by, simp add: ordered_def)

lemma ordered_nth:
  assumes "ordered xs" "i < j" "j < length xs"
  shows "\<not> lt (xs ! j) (xs ! i)"
  using assms by (simp add: ordered_def sorted_wrt_iff_nth_less)

lemma ordered_take_drop:
  assumes "ordered xs" "a \<in> set (take n xs)" "b \<in> set (drop n xs)"
  shows "\<not> lt b a"
proof -
  from assms(1) have "ordered (take n xs @ drop n xs)" by simp
  with assms(2,3) show ?thesis unfolding ordered_def sorted_wrt_append by blast
qed

lemma ordered_filter: "ordered xs \<Longrightarrow> ordered (filter P xs)"
  by (auto simp: ordered_def intro: sorted_wrt_filter)

end

locale keyed_order = weak_order lt for lt :: "'a \<Rightarrow> 'a \<Rightarrow> bool" +
  fixes key :: "'a \<Rightarrow> 'k"
  assumes total_on_keys: "key a \<noteq> key b \<Longrightarrow> lt a b \<or> lt b a"
begin

lemma ordered_unique:
  assumes "ordered xs" "ordered ys" "mset xs = mset ys" "distinct (map key xs)"
  shows "xs = ys"
  using assms
proof (induction xs arbitrary: ys)
  case Nil
  then show ?case by simp
next
  case (Cons x xs)
  then obtain y ys' where ys: "ys = y # ys'" by (cases ys) auto
  have dk: "distinct (map key ys)"
    using Cons.prems(3,4) by (metis mset_map mset_eq_imp_distinct_iff)
  have sets: "set (x # xs) = set ys"
    using Cons.prems(3) by (metis set_mset_mset)
  have "x = y"
  proof (rule ccontr)
    assume ne: "x \<noteq> y"
    then have "y \<in> set xs" "x \<in> set ys'" using sets ys by auto
    then have "\<not> lt y x" "\<not> lt x y" "key x \<noteq> key y"
      using Cons.prems(1,2,4) ys by (auto simp: ordered_def)
    then show False using total_on_keys by blast
  qed
  moreover have "xs = ys'"
    using Cons.prems ys \<open>x = y\<close> by (intro Cons.IH) (auto simp: ordered_def)
  ultimately show ?case using ys by simp
qed

lemma sort_by_perm:
  assumes "mset xs = mset ys" "distinct (map key xs)"
  shows "sort_by lt xs = sort_by lt ys"
  using assms by (intro ordered_unique) (simp_all add: ordered_sort_by)

end

section \<open>Go maps and sets\<close>

text \<open>Keys of a map in increasing order: the \<open>for id := range m\<close> loops of the source whose
  result is sorted, or does not depend on the order, range over these.\<close>

definition fm_keys :: "('k::linorder, 'v) fmap \<Rightarrow> 'k list" where
  "fm_keys m = sorted_list_of_fset (fmdom m)"

definition fm_vals :: "('k::linorder, 'v) fmap \<Rightarrow> 'v list" where
  "fm_vals m = map (\<lambda>k. the (fmlookup m k)) (fm_keys m)"

lemma set_fm_keys [simp]: "set (fm_keys m) = fset (fmdom m)"
  by (simp add: fm_keys_def)

lemma sorted_fm_keys [simp]: "sorted (fm_keys m)"
  and distinct_fm_keys [simp]: "distinct (fm_keys m)"
  by (simp_all add: fm_keys_def sorted_list_of_fset.rep_eq)

lemma fm_keys_sorted_wrt: "sorted_wrt (<) (fm_keys m)"
  by (simp add: strict_sorted_iff)

lemma set_fm_vals: "set (fm_vals m) = {v. \<exists>k. fmlookup m k = Some v}"
  by (force simp: fm_vals_def fmlookup_dom_iff)

lemma map_fm_vals: "(\<And>k v. fmlookup m k = Some v \<Longrightarrow> f v = k) \<Longrightarrow> map f (fm_vals m) = fm_keys m"
  unfolding fm_vals_def map_map
  by (rule map_idI) (auto simp: fmlookup_dom_iff)

text \<open>\<open>m[k]\<close> with the zero value for a missing key.\<close>

definition fm_get :: "'v \<Rightarrow> ('k, 'v) fmap \<Rightarrow> 'k \<Rightarrow> 'v" where
  "fm_get d m k = (case fmlookup m k of None \<Rightarrow> d | Some v \<Rightarrow> v)"

lemma fm_get_upd [simp]: "fm_get d (fmupd k v m) j = (if j = k then v else fm_get d m j)"
  by (simp add: fm_get_def)

section \<open>Lists\<close>

text \<open>\<open>slices.IndexFunc\<close>, with \<open>None\<close> for -1.\<close>

fun index_func :: "('a \<Rightarrow> bool) \<Rightarrow> 'a list \<Rightarrow> nat option" where
  "index_func P [] = None"
| "index_func P (x # xs) = (if P x then Some 0 else map_option Suc (index_func P xs))"

lemma index_func_Some:
  "index_func P xs = Some i \<Longrightarrow> i < length xs \<and> P (xs ! i) \<and> (\<forall>j<i. \<not> P (xs ! j))"
proof (induction xs arbitrary: i)
  case Nil
  then show ?case by simp
next
  case (Cons x xs)
  show ?case
  proof (cases "P x")
    case True
    with Cons.prems show ?thesis by simp
  next
    case False
    with Cons.prems obtain j where "index_func P xs = Some j" "i = Suc j" by auto
    with Cons.IH[of j] False show ?thesis by (auto simp: less_Suc_eq_0_disj)
  qed
qed

lemma index_func_None [simp]: "index_func P xs = None \<longleftrightarrow> (\<forall>x\<in>set xs. \<not> P x)"
  by (induction xs) auto

text \<open>\<open>slices.Delete(xs, i, i+1)\<close>.\<close>

definition delete_at :: "nat \<Rightarrow> 'a list \<Rightarrow> 'a list" where
  "delete_at i xs = take i xs @ drop (Suc i) xs"

lemma length_delete_at: "i < length xs \<Longrightarrow> Suc (length (delete_at i xs)) = length xs"
  by (simp add: delete_at_def)

lemma set_delete_at_subset: "set (delete_at i xs) \<subseteq> set xs"
  by (auto simp: delete_at_def dest: in_set_takeD in_set_dropD)

lemma distinct_map_delete_at: "distinct (map f xs) \<Longrightarrow> distinct (map f (delete_at i xs))"
proof -
  assume d: "distinct (map f xs)"
  have "map f xs = map f (take i xs) @ map f (drop i xs)"
    by (metis append_take_drop_id map_append)
  with d have d': "distinct (map f (take i xs) @ map f (drop i xs))" by simp
  have "set (map f (drop (Suc i) xs)) \<subseteq> set (map f (drop i xs))"
    using set_drop_subset_set_drop[of i "Suc i" xs] by auto
  moreover have "distinct (map f (drop (Suc i) xs))"
    using d by (metis distinct_drop drop_map)
  ultimately show ?thesis using d' by (auto simp: delete_at_def)
qed

end
