(* ===== verification/Float64.thy ===== *)
theory Float64
  imports Prelude "HOL-Library.Log_Nat"
begin

text \<open>
  IEEE-754 binary64 (Go's \<open>float64\<close>) as the source uses it: finite values are the rationals they
  denote, every arithmetic result is rounded to nearest, ties to even, with gradual underflow
  and overflow to infinity. The two zeros are identified: nothing modelled divides by a
  computed zero or reads a sign bit. Comparisons with a NaN are false. Products and sums are
  rounded separately (no fused multiply-add), as Go compiles them on amd64.
\<close>

datatype f64 = NaN | Inf (neg: bool) | Fin (val: rat)

section \<open>Rounding\<close>

text \<open>Floor of the binary logarithm of a non-zero rational.\<close>

definition ilog2 :: "rat \<Rightarrow> int" where
  "ilog2 x =
     (let (p, q) = quotient_of \<bar>x\<bar>;
          k = bitlen p - bitlen q
      in if 2 powi k \<le> \<bar>x\<bar> then k else k - 1)"

definition round_half_even :: "rat \<Rightarrow> int" where
  "round_half_even x =
     (let f = \<lfloor>x\<rfloor>; r = x - of_int f
      in if r < 1 / 2 then f else if 1 / 2 < r then f + 1 else if even f then f else f + 1)"

text \<open>Exponent of the last place of a 53-bit significand, with the subnormal floor.\<close>

definition ulp_exp :: "rat \<Rightarrow> int" where
  "ulp_exp x = max (ilog2 x - 52) (-1074)"

definition f64_round :: "rat \<Rightarrow> rat" where
  "f64_round x =
     (if x = 0 then 0
      else of_int (round_half_even (x / 2 powi ulp_exp x)) * 2 powi ulp_exp x)"

text \<open>Results of magnitude at least \<open>2 ^ 1024\<close> (\<open>overflows_iff\<close> below) become infinite.\<close>

definition overflows :: "rat \<Rightarrow> bool" where
  "overflows r \<longleftrightarrow> r \<noteq> 0 \<and> 1024 \<le> ilog2 r"

definition f64_of_rat :: "rat \<Rightarrow> f64" where
  "f64_of_rat x = (let r = f64_round x in if overflows r then Inf (r < 0) else Fin r)"

definition f64_of_int :: "int \<Rightarrow> f64" where
  "f64_of_int n = f64_of_rat (of_int n)"

section \<open>Arithmetic and comparison\<close>

instantiation f64 :: "{plus, minus, times, uminus, inverse, ord}"
begin

fun uminus_f64 :: "f64 \<Rightarrow> f64" where
  "- NaN = NaN"
| "- Inf s = Inf (\<not> s)"
| "- Fin x = Fin (- x)"

fun plus_f64 :: "f64 \<Rightarrow> f64 \<Rightarrow> f64" where
  "Fin x + Fin y = f64_of_rat (x + y)"
| "NaN + b = NaN"
| "a + NaN = NaN"
| "Inf s + Inf t = (if s = t then Inf s else NaN)"
| "Inf s + Fin y = Inf s"
| "Fin x + Inf t = Inf t"

definition minus_f64 :: "f64 \<Rightarrow> f64 \<Rightarrow> f64" where
  "(a :: f64) - b = a + (- b)"

fun times_f64 :: "f64 \<Rightarrow> f64 \<Rightarrow> f64" where
  "Fin x * Fin y = f64_of_rat (x * y)"
| "NaN * b = NaN"
| "a * NaN = NaN"
| "Inf s * Inf t = Inf (s \<noteq> t)"
| "Inf s * Fin y = (if y = 0 then NaN else Inf (s \<noteq> (y < 0)))"
| "Fin x * Inf t = (if x = 0 then NaN else Inf ((x < 0) \<noteq> t))"

fun divide_f64 :: "f64 \<Rightarrow> f64 \<Rightarrow> f64" where
  "divide_f64 (Fin x) (Fin y) =
     (if y = 0 then (if x = 0 then NaN else Inf (x < 0)) else f64_of_rat (x / y))"
| "divide_f64 NaN b = NaN"
| "divide_f64 a NaN = NaN"
| "divide_f64 (Inf s) (Inf t) = NaN"
| "divide_f64 (Inf s) (Fin y) = Inf (s \<noteq> (y < 0))"
| "divide_f64 (Fin x) (Inf t) = Fin 0"

definition inverse_f64 :: "f64 \<Rightarrow> f64" where
  "inverse (a :: f64) = Fin 1 div a"

fun less_f64 :: "f64 \<Rightarrow> f64 \<Rightarrow> bool" where
  "Fin x < Fin y \<longleftrightarrow> x < y"
| "NaN < b \<longleftrightarrow> False"
| "a < NaN \<longleftrightarrow> False"
| "Inf s < Inf t \<longleftrightarrow> s \<and> \<not> t"
| "Inf s < Fin y \<longleftrightarrow> s"
| "Fin x < Inf t \<longleftrightarrow> \<not> t"

fun less_eq_f64 :: "f64 \<Rightarrow> f64 \<Rightarrow> bool" where
  "Fin x \<le> Fin y \<longleftrightarrow> x \<le> y"
| "NaN \<le> b \<longleftrightarrow> False"
| "a \<le> NaN \<longleftrightarrow> False"
| "Inf s \<le> Inf t \<longleftrightarrow> s \<or> \<not> t"
| "Inf s \<le> Fin y \<longleftrightarrow> s"
| "Fin x \<le> Inf t \<longleftrightarrow> \<not> t"

instance ..

end

text \<open>Go's \<open>==\<close> on floats.\<close>

definition feq :: "f64 \<Rightarrow> f64 \<Rightarrow> bool" where
  "feq a b \<longleftrightarrow> a \<noteq> NaN \<and> a = b"

text \<open>Go's built-in \<open>min\<close> and \<open>max\<close>, which propagate NaN.\<close>

definition fmin :: "f64 \<Rightarrow> f64 \<Rightarrow> f64" where
  "fmin a b = (if a = NaN \<or> b = NaN then NaN else if b < a then b else a)"

definition fmax :: "f64 \<Rightarrow> f64 \<Rightarrow> f64" where
  "fmax a b = (if a = NaN \<or> b = NaN then NaN else if a < b then b else a)"

text \<open>\<open>math.Ceil\<close> followed by conversion to \<open>int\<close>, on the finite values the source converts.\<close>

definition ceil_int :: "f64 \<Rightarrow> int" where
  "ceil_int a = (case a of Fin x \<Rightarrow> \<lceil>x\<rceil> | _ \<Rightarrow> 0)"

section \<open>Facts about rounding\<close>

lemma ilog2_bounds:
  assumes "x \<noteq> 0"
  shows "2 powi ilog2 x \<le> \<bar>x\<bar>" and "\<bar>x\<bar> < 2 powi (ilog2 x + 1)"
proof -
  obtain p q where pq: "quotient_of \<bar>x\<bar> = (p, q)" by (cases "quotient_of \<bar>x\<bar>")
  then have q: "0 < q" and x: "\<bar>x\<bar> = of_int p / of_int q"
    by (simp_all add: quotient_of_denom_pos quotient_of_div)
  have p: "0 < p" using assms x q by (metis abs_le_zero_iff divide_nonpos_pos not_le of_int_0_less_iff of_int_le_0_iff)
  define P Q where "P = floorlog 2 (nat p)" and "Q = floorlog 2 (nat q)"
  have fl: "(2::rat) ^ (floorlog 2 n - 1) \<le> of_nat n \<and> (of_nat n :: rat) < 2 ^ floorlog 2 n \<and> 0 < floorlog 2 n"
    if "0 < n" for n
  proof -
    have "2 ^ (floorlog 2 n - 1) \<le> n \<and> n < 2 ^ floorlog 2 n"
      using floorlog_bounds[of n 2] that by simp
    moreover have "0 < floorlog 2 n" using that by (simp add: floorlog_def)
    ultimately show ?thesis
      by (metis of_nat_le_iff of_nat_less_iff of_nat_numeral of_nat_power)
  qed
  have fp: "(2::rat) powi (int P - 1) \<le> of_int p" "(of_int p :: rat) < 2 powi int P"
    using fl[of "nat p"] p by (auto simp: P_def power_int_def nat_diff_distrib)
  have fq: "(2::rat) powi (int Q - 1) \<le> of_int q" "(of_int q :: rat) < 2 powi int Q"
    using fl[of "nat q"] q by (auto simp: Q_def power_int_def nat_diff_distrib)
  define k where "k = int P - int Q"
  have hi: "\<bar>x\<bar> < 2 powi (k + 1)"
  proof -
    have "of_int p < (2::rat) powi (k + 1) * 2 powi (int Q - 1)"
      using fp(2) by (simp add: k_def flip: power_int_add)
    also have "\<dots> \<le> 2 powi (k + 1) * of_int q"
      using fq(1) by (intro mult_left_mono) auto
    finally show ?thesis using q by (simp add: x divide_simps)
  qed
  have lo: "2 powi (k - 1) \<le> \<bar>x\<bar>"
  proof -
    have "(2::rat) powi (k - 1) * of_int q \<le> 2 powi (k - 1) * 2 powi int Q"
      using fq(2) by (intro mult_left_mono) auto
    also have "\<dots> = 2 powi (int P - 1)"
      by (simp add: k_def del: power_int_of_nat flip: power_int_add)
    also have "\<dots> \<le> of_int p" by (rule fp)
    finally show ?thesis using q by (simp add: x divide_simps)
  qed
  have e: "ilog2 x = (if 2 powi k \<le> \<bar>x\<bar> then k else k - 1)"
    by (simp add: ilog2_def pq k_def P_def Q_def bitlen_def)
  show "2 powi ilog2 x \<le> \<bar>x\<bar>" using lo by (auto simp: e)
  show "\<bar>x\<bar> < 2 powi (ilog2 x + 1)" using hi by (auto simp: e)
qed

lemma powi_less_cancel: "(2::rat) powi a < 2 powi b \<Longrightarrow> a < b"
  by (metis linorder_not_less one_le_numeral power_int_increasing)

lemma ilog2_mono: "0 < x \<Longrightarrow> x \<le> y \<Longrightarrow> ilog2 x \<le> ilog2 y"
  using ilog2_bounds[of x] ilog2_bounds[of y] powi_less_cancel[of "ilog2 x" "ilog2 y + 1"] by simp

lemma ilog2_minus [simp]: "ilog2 (- x) = ilog2 x"
  by (simp add: ilog2_def)

lemma ulp_exp_minus [simp]: "ulp_exp (- x) = ulp_exp x"
  by (simp add: ulp_exp_def)

lemma round_half_even_int [simp]: "round_half_even (of_int n) = n"
  by (simp add: round_half_even_def)

lemma round_half_even_bounds: "\<lfloor>x\<rfloor> \<le> round_half_even x \<and> round_half_even x \<le> \<lfloor>x\<rfloor> + 1"
  by (simp add: round_half_even_def Let_def)

lemma round_half_even_mono: "x \<le> y \<Longrightarrow> round_half_even x \<le> round_half_even y"
proof -
  assume le: "x \<le> y"
  then have "\<lfloor>x\<rfloor> \<le> \<lfloor>y\<rfloor>" by (rule floor_mono)
  then consider "\<lfloor>x\<rfloor> < \<lfloor>y\<rfloor>" | "\<lfloor>x\<rfloor> = \<lfloor>y\<rfloor>" by linarith
  then show ?thesis
  proof cases
    case 1
    then show ?thesis using round_half_even_bounds[of x] round_half_even_bounds[of y] by linarith
  next
    case 2
    then show ?thesis using le by (simp add: round_half_even_def Let_def)
  qed
qed

lemma round_half_even_minus: "round_half_even (- x) = - round_half_even x"
proof (cases "x \<in> \<int>")
  case True
  then obtain n where "x = of_int n" by (auto elim: Ints_cases)
  moreover have "round_half_even (- of_int n) = - n"
    using round_half_even_int[of "- n"] by simp
  ultimately show ?thesis by simp
next
  case False
  then have f: "\<lfloor>- x\<rfloor> = - \<lfloor>x\<rfloor> - 1"
    by (simp add: floor_minus ceiling_altdef) (metis Ints_of_int)
  show ?thesis
    unfolding round_half_even_def Let_def f by (auto split: if_splits)
qed

lemma f64_round_0 [simp]: "f64_round 0 = 0"
  by (simp add: f64_round_def)

lemma f64_round_minus: "f64_round (- x) = - f64_round x"
  by (simp add: f64_round_def round_half_even_minus)

text \<open>A power of two on the grid of \<open>x\<close> bounds the rounding of \<open>x\<close> on either side.\<close>

lemma powi_on_grid: "e \<le> b \<Longrightarrow> (2::rat) powi b / 2 powi e = of_int (2 ^ nat (b - e))"
proof -
  assume "e \<le> b"
  then have "(2::rat) powi b = 2 powi (b - e) * 2 powi e" by (simp flip: power_int_add)
  with \<open>e \<le> b\<close> show ?thesis by (simp add: power_int_def)
qed

lemma f64_round_le_powi:
  assumes "0 < x" "ulp_exp x \<le> b" "x \<le> 2 powi b"
  shows "f64_round x \<le> 2 powi b"
proof -
  let ?e = "ulp_exp x"
  have "x / 2 powi ?e \<le> of_int (2 ^ nat (b - ?e))"
    using assms unfolding powi_on_grid[OF assms(2), symmetric] by (intro divide_right_mono) auto
  then have "round_half_even (x / 2 powi ?e) \<le> 2 ^ nat (b - ?e)"
    using round_half_even_mono round_half_even_int by metis
  then have "of_int (round_half_even (x / 2 powi ?e)) \<le> (2::rat) powi b / 2 powi ?e"
    unfolding powi_on_grid[OF assms(2)] by (simp only: of_int_le_iff)
  then show ?thesis using assms(1) by (simp add: f64_round_def field_simps)
qed

lemma f64_round_ge_powi:
  assumes "0 < x" "ulp_exp x \<le> b" "2 powi b \<le> x"
  shows "2 powi b \<le> f64_round x"
proof -
  let ?e = "ulp_exp x"
  have "of_int (2 ^ nat (b - ?e)) \<le> x / 2 powi ?e"
    using assms unfolding powi_on_grid[OF assms(2), symmetric] by (intro divide_right_mono) auto
  then have "2 ^ nat (b - ?e) \<le> round_half_even (x / 2 powi ?e)"
    using round_half_even_mono round_half_even_int by metis
  then have "(2::rat) powi b / 2 powi ?e \<le> of_int (round_half_even (x / 2 powi ?e))"
    unfolding powi_on_grid[OF assms(2)] by (simp only: of_int_le_iff)
  then show ?thesis using assms(1) by (simp add: f64_round_def field_simps)
qed

lemma f64_round_nonneg: "0 \<le> x \<Longrightarrow> 0 \<le> f64_round x"
proof -
  assume "0 \<le> x"
  then have "0 \<le> x / 2 powi ulp_exp x" by simp
  then have "0 \<le> round_half_even (x / 2 powi ulp_exp x)"
    using round_half_even_mono[of 0] round_half_even_int[of 0] by simp
  then show ?thesis by (simp add: f64_round_def)
qed

lemma f64_round_mono_pos:
  assumes "0 < x" "x \<le> y"
  shows "f64_round x \<le> f64_round y"
proof -
  have y: "0 < y" using assms by simp
  have lm: "ilog2 x \<le> ilog2 y" using assms by (rule ilog2_mono)
  show ?thesis
  proof (cases "ulp_exp x = ulp_exp y")
    case True
    have "round_half_even (x / 2 powi ulp_exp x) \<le> round_half_even (y / 2 powi ulp_exp y)"
      using assms True by (intro round_half_even_mono) (simp add: divide_right_mono)
    then show ?thesis using assms y True by (simp add: f64_round_def mult_right_mono)
  next
    case False
    with lm have ey: "ulp_exp y = ilog2 y - 52" and lt: "ilog2 x < ilog2 y"
      and ex: "ulp_exp x < ulp_exp y" by (auto simp: ulp_exp_def)
    let ?b = "ilog2 y"
    have "x \<le> 2 powi ?b"
      using ilog2_bounds(2)[of x] assms(1) lt
        power_int_increasing[of "ilog2 x + 1" ?b "2::rat"] by simp
    then have "f64_round x \<le> 2 powi ?b" using assms(1) ex ey by (intro f64_round_le_powi) auto
    also have "\<dots> \<le> f64_round y"
      using ilog2_bounds(1)[of y] y ey by (intro f64_round_ge_powi) auto
    finally show ?thesis .
  qed
qed

lemma f64_round_mono: "x \<le> y \<Longrightarrow> f64_round x \<le> f64_round y"
proof -
  assume le: "x \<le> y"
  consider "0 < x" | "y < 0" | "x \<le> 0" "0 \<le> y" by linarith
  then show ?thesis
  proof cases
    case 1
    then show ?thesis using le by (rule f64_round_mono_pos)
  next
    case 2
    then have "f64_round (- y) \<le> f64_round (- x)" using le by (intro f64_round_mono_pos) auto
    then show ?thesis by (simp add: f64_round_minus)
  next
    case 3
    then have "0 \<le> f64_round y" "0 \<le> f64_round (- x)" by (simp_all add: f64_round_nonneg)
    then show ?thesis by (simp add: f64_round_minus)
  qed
qed

lemma overflows_iff: "overflows r \<longleftrightarrow> 2 ^ 1024 \<le> \<bar>r\<bar>"
proof (cases "r = 0")
  case False
  have p: "(2::rat) ^ 1024 = 2 powi 1024" by (simp add: power_int_def del: power_numeral)
  show ?thesis
    unfolding overflows_def p
    using False ilog2_bounds[of r] power_int_increasing[of 1024 "ilog2 r" "2::rat"]
      powi_less_cancel[of 1024 "ilog2 r + 1"] by force
qed (simp add: overflows_def)

lemma f64_of_rat_mono: "x \<le> y \<Longrightarrow> f64_of_rat x \<le> f64_of_rat y"
  using f64_round_mono[of x y] unfolding f64_of_rat_def Let_def overflows_iff
  by (auto simp: abs_if split: if_splits simp del: power_numeral)

lemma f64_of_rat_not_NaN [simp]: "f64_of_rat x \<noteq> NaN"
  by (simp add: f64_of_rat_def Let_def)

text \<open>Integers of at most 53 bits are exact.\<close>

lemma ulp_exp_le_0: "\<bar>x\<bar> < 2 ^ 53 \<Longrightarrow> x \<noteq> 0 \<Longrightarrow> ulp_exp x \<le> 0"
proof -
  assume a: "\<bar>x\<bar> < 2 ^ 53" "x \<noteq> 0"
  have "(2::rat) powi ilog2 x < 2 powi 53"
    using ilog2_bounds(1)[OF a(2)] a(1) by (simp add: power_int_def)
  then have "ilog2 x < 53" by (rule powi_less_cancel)
  then show ?thesis by (simp add: ulp_exp_def)
qed

lemma f64_round_of_int: "\<bar>n\<bar> < 2 ^ 53 \<Longrightarrow> f64_round (of_int n) = of_int n"
proof (cases "n = 0")
  case False
  assume a: "\<bar>n\<bar> < 2 ^ 53"
  let ?x = "of_int n :: rat"
  let ?e = "ulp_exp ?x"
  have "\<bar>?x\<bar> < 2 ^ 53"
    using a by (metis of_int_abs of_int_less_iff of_int_numeral of_int_power)
  then have e: "?e \<le> 0" using False by (intro ulp_exp_le_0) auto
  have "?x / 2 powi ?e = of_int (n * 2 ^ nat (- ?e))"
    using e by (auto simp: power_int_def field_simps)
  then have "round_half_even (?x / 2 powi ?e) = n * 2 ^ nat (- ?e)"
    by (simp only: round_half_even_int)
  then have "f64_round ?x = of_int (n * 2 ^ nat (- ?e)) * 2 powi ?e"
    using False by (simp add: f64_round_def)
  also have "\<dots> = ?x" using e by (auto simp: power_int_def field_simps)
  finally show ?thesis .
qed simp

lemma f64_of_int_exact: "\<bar>n\<bar> < 2 ^ 53 \<Longrightarrow> f64_of_int n = Fin (of_int n)"
proof -
  assume a: "\<bar>n\<bar> < 2 ^ 53"
  have "\<bar>n\<bar> < 2 ^ 1024" by (rule less_le_trans[OF a]) simp
  then have "(of_int \<bar>n\<bar> :: rat) < of_int (2 ^ 1024)" by (simp only: of_int_less_iff)
  then have "\<bar>of_int n :: rat\<bar> < 2 ^ 1024" by simp
  then show ?thesis
    using f64_round_of_int[OF a] by (simp add: f64_of_int_def f64_of_rat_def overflows_iff)
qed

lemma f64_of_rat_small_int:
  "f64_of_rat 0 = Fin 0" "f64_of_rat 1 = Fin 1" "f64_of_rat (- 1) = Fin (- 1)"
  "numeral n < (2 ^ 53 :: int) \<Longrightarrow> f64_of_rat (numeral n) = Fin (numeral n)"
  "numeral n < (2 ^ 53 :: int) \<Longrightarrow> f64_of_rat (- numeral n) = Fin (- numeral n)"
  using f64_of_int_exact[of 0] f64_of_int_exact[of 1] f64_of_int_exact[of "- 1"]
    f64_of_int_exact[of "numeral n"] f64_of_int_exact[of "- numeral n"]
  by (simp_all add: f64_of_int_def)

section \<open>Well-formed values: what a binary64 can hold\<close>

fun f64_wf :: "f64 \<Rightarrow> bool" where
  "f64_wf (Fin x) \<longleftrightarrow> f64_round x = x \<and> \<not> overflows x"
| "f64_wf _ \<longleftrightarrow> True"

lemma f64_of_rat_wf_Fin: "f64_wf (Fin x) \<Longrightarrow> f64_of_rat x = Fin x"
  by (simp add: f64_of_rat_def)

lemma f64_round_grid: "y = of_int m * 2 powi e \<Longrightarrow> ulp_exp y \<le> e \<Longrightarrow> f64_round y = y"
proof (cases "y = 0")
  case False
  assume y: "y = of_int m * 2 powi e" and le: "ulp_exp y \<le> e"
  let ?u = "ulp_exp y"
  have "y / 2 powi ?u = of_int m * (2 powi e / 2 powi ?u)" using y by simp
  also have "\<dots> = of_int (m * 2 ^ nat (e - ?u))" unfolding powi_on_grid[OF le] by simp
  finally have "y / 2 powi ?u = of_int (m * 2 ^ nat (e - ?u))" .
  then have "of_int (round_half_even (y / 2 powi ?u)) = y / 2 powi ?u"
    by (metis round_half_even_int)
  then show ?thesis using False by (simp add: f64_round_def)
qed simp

lemma ilog2_less: "y \<noteq> 0 \<Longrightarrow> \<bar>y\<bar> < 2 powi k \<Longrightarrow> ilog2 y < k"
  using ilog2_bounds(1)[of y] by (intro powi_less_cancel) simp

lemma f64_round_idem_pos:
  assumes "0 < x"
  shows "f64_round (f64_round x) = f64_round x"
proof (cases "f64_round x = 0")
  case False
  let ?u = "ulp_exp x"
  let ?n = "round_half_even (x / 2 powi ?u)"
  have y: "f64_round x = of_int ?n * 2 powi ?u" using assms by (simp add: f64_round_def)
  have "0 < f64_round x" using False f64_round_nonneg[of x] assms by simp
  then have "0 < of_int ?n * (2::rat) powi ?u" unfolding y .
  then have "0 < (of_int ?n :: rat)" by (rule zero_less_mult_pos2) simp
  then have n0: "0 < ?n" by simp
  have "(2::rat) powi (ilog2 x + 1) \<le> 2 powi (?u + 53)"
    by (intro power_int_increasing) (auto simp: ulp_exp_def)
  then have "x < 2 powi (?u + 53)" using ilog2_bounds(2)[of x] assms by simp
  then have "x / 2 powi ?u < of_int (2 ^ 53)"
    using assms by (simp add: power_int_add field_simps)
  then have "?n \<le> 2 ^ 53" using round_half_even_mono round_half_even_int by (metis less_imp_le)
  then consider "?n < 2 ^ 53" | "?n = 2 ^ 53" by linarith
  then show ?thesis
  proof cases
    case 1
    then have "(of_int ?n :: rat) < of_int (2 ^ 53)" by (simp only: of_int_less_iff)
    then have "(of_int ?n :: rat) * 2 powi ?u < 2 ^ 53 * 2 powi ?u"
      by (intro mult_strict_right_mono) simp_all
    then have "\<bar>f64_round x\<bar> < 2 powi (53 + ?u)"
      using y n0 by (simp add: abs_mult power_int_add)
    then have "ilog2 (f64_round x) < 53 + ?u" using False by (intro ilog2_less)
    then have "ulp_exp (f64_round x) \<le> ?u" by (auto simp: ulp_exp_def)
    with y show ?thesis by (rule f64_round_grid)
  next
    case 2
    then have y': "f64_round x = of_int 1 * 2 powi (53 + ?u)"
      using y by (simp add: power_int_add)
    then have "\<bar>f64_round x\<bar> < 2 powi (54 + ?u)"
      by (simp add: power_int_add)
    then have "ilog2 (f64_round x) < 54 + ?u" using False by (intro ilog2_less)
    then have "ulp_exp (f64_round x) \<le> 53 + ?u" by (auto simp: ulp_exp_def)
    with y' show ?thesis by (rule f64_round_grid)
  qed
qed simp

lemma f64_round_idem [simp]: "f64_round (f64_round x) = f64_round x"
proof -
  consider "0 < x" | "x = 0" | "0 < - x" by linarith
  then show ?thesis
    using f64_round_idem_pos[of x] f64_round_idem_pos[of "- x"]
    by cases (auto simp: f64_round_minus)
qed

lemma f64_wf_of_rat [simp]: "f64_wf (f64_of_rat x)"
  by (simp add: f64_of_rat_def Let_def)

lemma f64_wf_plus: "f64_wf a \<Longrightarrow> f64_wf b \<Longrightarrow> f64_wf (a + b)"
  by (cases a; cases b) auto

lemma f64_wf_times: "f64_wf (a * b)"
  by (cases a; cases b) auto

lemma f64_round_pos: "2 powi - 1074 \<le> x \<Longrightarrow> 0 < f64_round x"
proof -
  assume a: "2 powi - 1074 \<le> x"
  then have x: "0 < x" by (meson less_le_trans zero_less_numeral zero_less_power_int)
  have "(2::rat) powi - 1074 < 2 powi (ilog2 x + 1)"
    using a ilog2_bounds(2)[of x] x by simp
  then have "- 1074 < ilog2 x + 1" by (rule powi_less_cancel)
  then have "- 1074 \<le> ilog2 x" by simp
  then have "2 powi ilog2 x \<le> f64_round x"
    using ilog2_bounds(1)[of x] x by (intro f64_round_ge_powi) (auto simp: ulp_exp_def)
  then show ?thesis by (meson less_le_trans zero_less_numeral zero_less_power_int)
qed

text \<open>The gap below 1: subtracting a double smaller than 1 from 1 never rounds to zero.\<close>

lemma one_minus_wf_pos:
  assumes "f64_wf (Fin r)" "0 < r" "r < 1"
  shows "0 < f64_round (1 - r)"
proof -
  let ?u = "ulp_exp r"
  let ?n = "round_half_even (r / 2 powi ?u)"
  have r: "r = of_int ?n * 2 powi ?u" using assms by (simp add: f64_round_def)
  have "ilog2 r < 0" using ilog2_less[of r 0] assms by simp
  then have u: "?u \<le> 0" "- 1074 \<le> ?u" by (auto simp: ulp_exp_def)
  have one: "(1::rat) = of_int (2 ^ nat (- ?u)) * 2 powi ?u"
    using powi_on_grid[OF u(1)] by (simp add: field_simps)
  then have d: "1 - r = of_int (2 ^ nat (- ?u) - ?n) * 2 powi ?u"
    using r by (simp add: left_diff_distrib)
  have "0 < 1 - r" using assms by simp
  then have "0 < (of_int (2 ^ nat (- ?u) - ?n) :: rat)"
    unfolding d by (rule zero_less_mult_pos2) simp
  then have "1 \<le> 2 ^ nat (- ?u) - ?n" by simp
  then have "(1::rat) \<le> of_int (2 ^ nat (- ?u) - ?n)" by linarith
  then have "1 * 2 powi ?u \<le> 1 - r" unfolding d by (intro mult_right_mono) auto
  moreover have "(2::rat) powi - 1074 \<le> 2 powi ?u" using u by (intro power_int_increasing) auto
  ultimately show ?thesis by (intro f64_round_pos) simp
qed

section \<open>Order facts\<close>

lemma f64_le_trans: "(a :: f64) \<le> b \<Longrightarrow> b \<le> c \<Longrightarrow> a \<le> c"
  by (cases a; cases b; cases c) auto

lemma f64_less_le: "(a :: f64) < b \<Longrightarrow> a \<le> b"
  by (cases a; cases b) auto

lemma f64_of_rat_le_Inf [simp]: "f64_of_rat x \<le> Inf False" "Inf True \<le> f64_of_rat x"
  by (simp_all add: f64_of_rat_def Let_def)

text \<open>Values that are not NaN and not negative: addition and scaling are monotone on them.\<close>

fun f64_pos :: "f64 \<Rightarrow> bool" where
  "f64_pos NaN = False"
| "f64_pos (Inf s) = (\<not> s)"
| "f64_pos (Fin x) = (0 \<le> x)"

lemma f64_pos_of_rat [simp]: "0 \<le> x \<Longrightarrow> f64_pos (f64_of_rat x)"
  using f64_round_nonneg[of x] by (simp add: f64_of_rat_def Let_def)

lemma f64_pos_plus: "f64_pos a \<Longrightarrow> f64_pos b \<Longrightarrow> f64_pos (a + b)"
  by (cases a; cases b) simp_all

lemma f64_pos_plus_mono:
  "f64_pos a \<Longrightarrow> f64_pos b \<Longrightarrow> a \<le> a' \<Longrightarrow> b \<le> b' \<Longrightarrow> a + b \<le> a' + b'"
  by (cases a; cases b; cases a'; cases b') (simp_all add: f64_of_rat_mono add_mono)

lemma f64_pos_scale: "0 < w \<Longrightarrow> f64_pos b \<Longrightarrow> f64_pos (Fin w * b)"
  by (cases b) simp_all

lemma f64_pos_scale_mono:
  "0 < w \<Longrightarrow> f64_pos b \<Longrightarrow> b \<le> b' \<Longrightarrow> Fin w * b \<le> Fin w * b'"
  by (cases b; cases b') (simp_all add: f64_of_rat_mono mult_left_mono)

lemma f64_minus_mono:
  assumes "Fin a \<le> Fin b"
  shows "Fin a - Fin c \<le> Fin b - Fin c" "Fin c - Fin b \<le> Fin c - Fin a"
  using assms by (simp_all add: minus_f64_def f64_of_rat_mono)

end
