(* ===== verification/Health.thy ===== *)
theory Health
  imports Float64
begin

text \<open>
  Package \<open>health\<close>: the score contract of \<open>strategy.go\<close> (lower is better, invalid scores never
  win) and the shipped \<open>LatencyHealthStrategy\<close> of \<open>latency.go\<close>, with its per-target moving
  average, the failure penalty and the discrimination between a cancelled probe and an
  unreachable peer.
\<close>

section \<open>Scores (strategy.go)\<close>

definition ScoreUnavailable :: f64 where
  "ScoreUnavailable = NaN"

definition IsValidScore :: "f64 \<Rightarrow> bool" where
  "IsValidScore score = (case score of NaN \<Rightarrow> False | Inf _ \<Rightarrow> False | Fin _ \<Rightarrow> True)"

definition Better :: "f64 \<Rightarrow> f64 \<Rightarrow> bool" where
  "Better a b =
     (if \<not> IsValidScore a then False
      else if \<not> IsValidScore b then True
      else a < b)"

lemma IsValidScore_simps [simp]:
  "IsValidScore NaN = False" "IsValidScore (Inf s) = False" "IsValidScore (Fin x) = True"
  by (simp_all add: IsValidScore_def)

lemma IsValidScore_unavailable [simp]: "\<not> IsValidScore ScoreUnavailable"
  by (simp add: ScoreUnavailable_def)

lemma IsValidScoreE:
  assumes "IsValidScore s" obtains x where "s = Fin x"
  using assms by (cases s) auto

lemma Better_simps [simp]:
  "\<not> IsValidScore a \<Longrightarrow> \<not> Better a b"
  "IsValidScore a \<Longrightarrow> \<not> IsValidScore b \<Longrightarrow> Better a b"
  "Better (Fin x) (Fin y) = (x < y)"
  by (simp_all add: Better_def)

lemma Better_valid: "Better a b \<Longrightarrow> IsValidScore a"
  by (cases "IsValidScore a") simp_all

interpretation better: weak_order Better
proof unfold_locales
  fix a b c :: f64
  show "Better a b \<Longrightarrow> \<not> Better b a"
    by (auto simp: Better_def IsValidScore_def split: f64.splits if_splits)
  show "Better a c \<Longrightarrow> Better a b \<or> Better b c"
    by (auto simp: Better_def IsValidScore_def split: f64.splits if_splits)
qed

section \<open>Probe errors\<close>

text \<open>
  A Go error is modelled by the sentinels its \<open>Unwrap\<close> tree contains, which is all the source
  reads of it (\<open>errors.Is\<close>, \<open>errors.As\<close>); \<open>NetTimeout\<close> stands for a \<open>net.Error\<close> whose \<open>Timeout\<close>
  method reports true, \<open>OtherError\<close> for any further error. Messages are not modelled.
\<close>

datatype sentinel = ErrUnreachable | ErrProbeTimeout | ErrProbeCanceled | ErrInvalidTarget
  | ContextCanceled | ContextDeadlineExceeded | NetTimeout | OtherError

type_synonym probe_err = "sentinel list"

definition errors_Is :: "probe_err \<Rightarrow> sentinel \<Rightarrow> bool" where
  "errors_Is err s = List.member err s"

definition IsCancellation :: "probe_err option \<Rightarrow> bool" where
  "IsCancellation err =
     (case err of None \<Rightarrow> False
      | Some e \<Rightarrow> errors_Is e ErrProbeCanceled \<or> errors_Is e ContextCanceled \<or>
          errors_Is e ContextDeadlineExceeded)"

definition errorIsDeadline :: "probe_err \<Rightarrow> bool" where
  "errorIsDeadline cause = (errors_Is cause NetTimeout \<or> errors_Is cause ContextDeadlineExceeded)"

lemma errors_Is_iff [simp]: "errors_Is e s \<longleftrightarrow> s \<in> set e"
  by (simp add: errors_Is_def)

section \<open>LatencyHealthStrategy (latency.go)\<close>

definition Millisecond :: duration where "Millisecond = 1000000"
definition Second :: duration where "Second = 1000 * Millisecond"

definition DefaultAlpha :: f64 where "DefaultAlpha = f64_of_rat (3 / 10)"
definition DefaultProbeTimeout :: duration where "DefaultProbeTimeout = 2 * Second"
definition DefaultFailurePenalty :: f64 where "DefaultFailurePenalty = f64_of_int 2"

record health_config =
  cfgProbeTimeout :: duration
  cfgAlpha :: f64
  cfgFailurePenalty :: f64

record ewmaState =
  ewma_value :: f64
  ewma_count :: uint64

record strategy =
  probeTimeout :: duration
  alpha :: f64
  failurePenalty :: f64
  samples :: "(NodeAddress, ewmaState) fmap"

definition NewLatencyHealthStrategy :: "health_config \<Rightarrow> strategy" where
  "NewLatencyHealthStrategy cfg =
     \<lparr>probeTimeout = (if cfgProbeTimeout cfg \<le> 0 then DefaultProbeTimeout else cfgProbeTimeout cfg),
      alpha = (if \<not> (Fin 0 < cfgAlpha cfg \<and> cfgAlpha cfg \<le> Fin 1) then DefaultAlpha
               else cfgAlpha cfg),
      failurePenalty = (if \<not> (Fin 1 \<le> cfgFailurePenalty cfg) then DefaultFailurePenalty
                        else cfgFailurePenalty cfg),
      samples = fmempty\<rparr>"

text \<open>The recurrence \<open>ewma = alpha*sample + (1-alpha)*ewma\<close>.\<close>

definition ewma_step :: "f64 \<Rightarrow> f64 \<Rightarrow> f64 \<Rightarrow> f64" where
  "ewma_step a sampleMS v = a * sampleMS + (Fin 1 - a) * v"

definition record_sample :: "strategy \<Rightarrow> NodeAddress \<Rightarrow> f64 \<Rightarrow> strategy \<times> f64" where
  "record_sample s target sampleMS =
     (let st = (case fmlookup (samples s) target of
                  None \<Rightarrow> \<lparr>ewma_value = Fin 0, ewma_count = 0\<rparr> | Some st \<Rightarrow> st);
          v = (if ewma_count st = 0 then sampleMS
               else ewma_step (alpha s) sampleMS (ewma_value st));
          st' = \<lparr>ewma_value = v, ewma_count = ewma_count st + 1\<rparr>
      in (s\<lparr>samples := fmupd target st' (samples s)\<rparr>, v))"

definition penaltyMS :: "strategy \<Rightarrow> f64" where
  "penaltyMS s = f64_of_int (probeTimeout s) / f64_of_int Millisecond * failurePenalty s"

definition recordFailure :: "strategy \<Rightarrow> NodeAddress \<Rightarrow> strategy" where
  "recordFailure s target = fst (record_sample s target (penaltyMS s))"

text \<open>\<open>ctxErr\<close> is the error of the caller's context at the moment the probe failed.\<close>

definition classify ::
  "strategy \<Rightarrow> sentinel option \<Rightarrow> NodeAddress \<Rightarrow> probe_err \<Rightarrow> strategy \<times> f64 \<times> probe_err option" where
  "classify s ctxErr target cause =
     (case ctxErr of
        Some cerr \<Rightarrow> (s, ScoreUnavailable, Some [ErrProbeCanceled, cerr])
      | None \<Rightarrow>
          (let s' = recordFailure s target in
           if errorIsDeadline cause
           then (s', ScoreUnavailable, Some [ErrUnreachable, ErrProbeTimeout])
           else (s', ScoreUnavailable, Some (ErrUnreachable # cause))))"

text \<open>
  \<open>outcome\<close> is what the injected \<open>Prober\<close> returned; \<open>ctxBefore\<close> and \<open>ctxAfter\<close> are the state of the
  caller's context before the probe and after it.
\<close>

definition EvaluateScore ::
  "strategy \<Rightarrow> sentinel option \<Rightarrow> NodeAddress \<Rightarrow> probe_err + duration \<Rightarrow> sentinel option
   \<Rightarrow> strategy \<times> f64 \<times> probe_err option" where
  "EvaluateScore s ctxBefore target outcome ctxAfter =
     (if target = '''' then (s, ScoreUnavailable, Some [ErrInvalidTarget])
      else case ctxBefore of
        Some err \<Rightarrow> (s, ScoreUnavailable, Some [ErrProbeCanceled, err])
      | None \<Rightarrow>
         (case outcome of
            Inl err \<Rightarrow> classify s ctxAfter target err
          | Inr rtt \<Rightarrow>
              if rtt < 0 then classify s ctxAfter target [OtherError]
              else let (s', v) = record_sample s target (f64_of_int rtt / f64_of_int Millisecond)
                   in (s', v, None)))"

definition Score :: "strategy \<Rightarrow> NodeAddress \<Rightarrow> f64 \<times> bool" where
  "Score s target =
     (case fmlookup (samples s) target of
        None \<Rightarrow> (ScoreUnavailable, False) | Some st \<Rightarrow> (ewma_value st, True))"

definition Samples :: "strategy \<Rightarrow> NodeAddress \<Rightarrow> uint64" where
  "Samples s target =
     (case fmlookup (samples s) target of None \<Rightarrow> 0 | Some st \<Rightarrow> ewma_count st)"

definition Forget :: "strategy \<Rightarrow> NodeAddress \<Rightarrow> strategy" where
  "Forget s target = s\<lparr>samples := fmdrop target (samples s)\<rparr>"

definition Retain :: "strategy \<Rightarrow> NodeAddress fset \<Rightarrow> strategy" where
  "Retain s keep = s\<lparr>samples := fmfilter (\<lambda>addr. addr |\<in>| keep) (samples s)\<rparr>"

section \<open>Properties of the strategy\<close>

text \<open>Nothing but the probed target's history changes, whatever the outcome.\<close>

lemma record_sample_frame:
  "addr \<noteq> target \<Longrightarrow>
   fmlookup (samples (fst (record_sample s target v))) addr = fmlookup (samples s) addr"
  by (simp add: record_sample_def Let_def)

lemma classify_frame:
  "addr \<noteq> target \<Longrightarrow>
   fmlookup (samples (fst (classify s c target e))) addr = fmlookup (samples s) addr"
  by (auto simp: classify_def recordFailure_def Let_def record_sample_frame split: option.splits)

lemma Samples_record_sample: "Samples (fst (record_sample s t v)) t = Samples s t + 1"
  by (simp add: Samples_def record_sample_def Let_def split: option.splits)

lemma Samples_classify:
  "Samples (fst (classify s c t e)) t = (if c = None then Samples s t + 1 else Samples s t)"
  by (auto simp: classify_def recordFailure_def Let_def Samples_record_sample split: option.splits)

lemma classify_verdict:
  assumes "ContextCanceled \<notin> set cause" "ErrProbeCanceled \<notin> set cause"
    and "\<And>c. ctxErr = Some c \<Longrightarrow> c \<in> {ContextCanceled, ContextDeadlineExceeded}"
  shows "\<exists>e. snd (classify s ctxErr t cause) = (ScoreUnavailable, Some e) \<and>
      (IsCancellation (Some e) \<longleftrightarrow> ctxErr \<noteq> None) \<and> (ErrUnreachable \<in> set e \<longleftrightarrow> ctxErr = None)"
  using assms
  by (cases ctxErr)
    (auto simp: classify_def Let_def IsCancellation_def errorIsDeadline_def split: if_splits)

subsection \<open>Monotonicity of the average\<close>

text \<open>
  Values a history can hold: never NaN, never negative, infinite only by overflow (and then only
  when older samples keep a weight). \<open>alpha_ok\<close> is what the constructor guarantees.
\<close>

definition ewma_ok :: "f64 \<Rightarrow> f64 \<Rightarrow> bool" where
  "ewma_ok a v = (case v of NaN \<Rightarrow> False | Inf s \<Rightarrow> \<not> s \<and> a < Fin 1 | Fin x \<Rightarrow> 0 \<le> x)"

definition alpha_ok :: "f64 \<Rightarrow> bool" where
  "alpha_ok a \<longleftrightarrow> f64_wf a \<and> Fin 0 < a \<and> a \<le> Fin 1"

definition sample_ok :: "f64 \<Rightarrow> bool" where
  "sample_ok v \<longleftrightarrow> f64_wf v \<and> IsValidScore v \<and> Fin 0 \<le> v"

lemma f64_of_rat_nonneg: "0 \<le> x \<Longrightarrow> f64_of_rat x = Inf False \<or> (\<exists>y\<ge>0. f64_of_rat x = Fin y)"
  using f64_round_nonneg[of x] by (simp add: f64_of_rat_def Let_def)

text \<open>The weight \<open>1 - alpha\<close> left to the history is positive unless \<open>alpha\<close> is 1.\<close>

lemma rest_weight:
  assumes "alpha_ok (Fin r)"
  obtains w where "Fin 1 - Fin r = Fin w" "0 \<le> w" "r = 1 \<longleftrightarrow> w = 0"
proof -
  have r: "0 < r" "r \<le> 1" "f64_wf (Fin r)" using assms by (auto simp: alpha_ok_def)
  have le: "f64_round (1 - r) \<le> 1"
    using f64_round_mono[of "1 - r" 1] f64_round_of_int[of 1] r by simp
  have nn: "0 \<le> f64_round (1 - r)" using r by (intro f64_round_nonneg) simp
  have no: "\<not> overflows (f64_round (1 - r))"
    using ilog2_less[of "f64_round (1 - r)" 1] le nn by (auto simp: overflows_def)
  have "r = 1 \<longleftrightarrow> f64_round (1 - r) = 0"
    using one_minus_wf_pos[of r] r by fastforce
  then show ?thesis
    using that[of "f64_round (1 - r)"] no nn by (simp add: minus_f64_def f64_of_rat_def)
qed

lemma ewma_ok_pos: "ewma_ok a v \<Longrightarrow> f64_pos v"
  by (cases v) (simp_all add: ewma_ok_def)

lemma pos_ewma_ok: "f64_pos v \<Longrightarrow> a < Fin 1 \<Longrightarrow> ewma_ok a v"
  by (cases v) (simp_all add: ewma_ok_def)

lemma ewma_step_mono:
  assumes a: "alpha_ok a" and s: "sample_ok s" "sample_ok s'" "s \<le> s'"
    and v: "ewma_ok a v" "ewma_ok a v'" "v \<le> v'"
  shows "ewma_ok a (ewma_step a s v) \<and> ewma_ok a (ewma_step a s' v') \<and>
         ewma_step a s v \<le> ewma_step a s' v'"
proof -
  obtain r where ar: "a = Fin r" using a by (cases a) (auto simp: alpha_ok_def)
  obtain x x' where sx: "s = Fin x" "s' = Fin x'" "0 \<le> x" "x \<le> x'"
      "f64_wf (Fin x)" "f64_wf (Fin x')"
    using s by (cases s; cases s') (simp_all add: sample_ok_def)
  have r: "0 < r" "r \<le> 1" using a by (auto simp: ar alpha_ok_def)
  obtain w where w: "Fin 1 - Fin r = Fin w" "0 \<le> w" "r = 1 \<longleftrightarrow> w = 0"
    using a rest_weight by (auto simp: ar)
  show ?thesis
  proof (cases "r = 1")
    case True
    then show ?thesis
      using v sx w by (cases v; cases v')
        (simp_all add: ar ewma_step_def ewma_ok_def f64_of_rat_wf_Fin f64_of_rat_small_int del: f64_wf.simps)
  next
    case False
    then have lt: "a < Fin 1" and w0: "0 < w" using r w by (auto simp: ar)
    have sp: "f64_pos (Fin x)" "f64_pos (Fin x')" "Fin x \<le> Fin x'" using sx by simp_all
    note vp = ewma_ok_pos[OF v(1)] ewma_ok_pos[OF v(2)]
    note scale = f64_pos_scale[OF r(1) sp(1)] f64_pos_scale[OF r(1) sp(2)]
      f64_pos_scale[OF w0 vp(1)] f64_pos_scale[OF w0 vp(2)]
    have "f64_pos (ewma_step a s v)" "f64_pos (ewma_step a s' v')"
      unfolding ewma_step_def ar sx(1,2) w(1) by (intro f64_pos_plus scale)+
    moreover have "ewma_step a s v \<le> ewma_step a s' v'"
      unfolding ewma_step_def ar sx(1,2) w(1)
      by (intro f64_pos_plus_mono scale f64_pos_scale_mono r(1) sp w0 vp v(3))
    ultimately show ?thesis using pos_ewma_ok lt by blast
  qed
qed

text \<open>The average after a first sample and a list of further ones.\<close>

definition ewma_run :: "f64 \<Rightarrow> f64 \<Rightarrow> f64 list \<Rightarrow> f64" where
  "ewma_run a v ss = foldl (\<lambda>acc s. ewma_step a s acc) v ss"

lemma ewma_run_mono:
  assumes "alpha_ok a" "list_all2 (\<lambda>s s'. sample_ok s \<and> sample_ok s' \<and> s \<le> s') ss ss'"
    and "ewma_ok a v" "ewma_ok a v'" "v \<le> v'"
  shows "ewma_run a v ss \<le> ewma_run a v' ss'"
  using assms(2-)
proof (induction ss ss' arbitrary: v v' rule: list_all2_induct)
  case Nil
  then show ?case by (simp add: ewma_run_def)
next
  case (Cons s ss s' ss')
  then show ?case
    using ewma_step_mono[OF assms(1), of s s' v v'] by (simp add: ewma_run_def)
qed

lemma sample_ok_ewma_ok: "sample_ok s \<Longrightarrow> ewma_ok a s"
  by (cases s) (auto simp: sample_ok_def ewma_ok_def)

lemma ewma_run_simps [simp]:
  "ewma_run a v [] = v" "ewma_run a v (s # ss) = ewma_run a (ewma_step a s v) ss"
  by (simp_all add: ewma_run_def)

text \<open>Recording a list of samples for one target.\<close>

fun record_all :: "strategy \<Rightarrow> NodeAddress \<Rightarrow> f64 list \<Rightarrow> strategy" where
  "record_all s t [] = s"
| "record_all s t (v # vs) = record_all (fst (record_sample s t v)) t vs"

lemma record_sample_known:
  assumes "fmlookup (samples s) t = Some st" "ewma_count st \<noteq> 0"
  shows "fmlookup (samples (fst (record_sample s t v))) t =
      Some \<lparr>ewma_value = ewma_step (alpha s) v (ewma_value st), ewma_count = ewma_count st + 1\<rparr>"
  using assms by (simp add: record_sample_def Let_def)

lemma alpha_record_sample [simp]: "alpha (fst (record_sample s t v)) = alpha s"
  by (simp add: record_sample_def Let_def)

lemma record_all_known:
  assumes "fmlookup (samples s) t = Some \<lparr>ewma_value = v, ewma_count = of_nat n\<rparr>"
    and "0 < n" "n + length vs < 2 ^ 64"
  shows "Score (record_all s t vs) t = (ewma_run (alpha s) v vs, True)"
  using assms
proof (induction vs arbitrary: s v n)
  case Nil
  then show ?case by (simp add: Score_def)
next
  case (Cons x vs)
  have "(of_nat n :: uint64) \<noteq> 0"
    using Cons.prems(2,3) by (simp add: unat_eq_0 [symmetric] unat_of_nat take_bit_nat_eq_self)
  then have "fmlookup (samples (fst (record_sample s t x))) t =
      Some \<lparr>ewma_value = ewma_step (alpha s) x v, ewma_count = of_nat (Suc n)\<rparr>"
    using record_sample_known[OF Cons.prems(1)] by (simp add: add.commute)
  from Cons.IH[OF this] show ?case using Cons.prems(3) by simp
qed

lemma record_all_fresh:
  assumes "fmlookup (samples s) t = None" "length vs < 2 ^ 64 - 1"
  shows "Score (record_all s t (v # vs)) t = (ewma_run (alpha s) v vs, True)"
proof -
  have "fmlookup (samples (fst (record_sample s t v))) t =
      Some \<lparr>ewma_value = v, ewma_count = of_nat 1\<rparr>"
    using assms(1) by (simp add: record_sample_def Let_def)
  from record_all_known[OF this, of vs] show ?thesis using assms(2) by simp
qed

lemma EvaluateScore_cases:
  obtains "target = '''' \<or> before \<noteq> None"
    "fst (EvaluateScore s before target outcome after) = s"
    "fst (snd (EvaluateScore s before target outcome after)) = ScoreUnavailable"
    "snd (snd (EvaluateScore s before target outcome after)) \<noteq> None"
  | e where "target \<noteq> ''''" "before = None"
    "EvaluateScore s before target outcome after = classify s after target e"
  | w where "target \<noteq> ''''" "before = None"
    "EvaluateScore s before target outcome after =
       (fst (record_sample s target w), snd (record_sample s target w), None)"
proof (cases "target = '''' \<or> before \<noteq> None")
  case True
  then show ?thesis by (intro that(1)) (auto simp: EvaluateScore_def)
next
  case False
  then have tb: "target \<noteq> ''''" "before = None" by simp_all
  show ?thesis
  proof (cases outcome)
    case (Inl e)
    then show ?thesis using tb by (intro that(2)[of e]) (simp_all add: EvaluateScore_def)
  next
    case (Inr rtt)
    then show ?thesis
      using tb that(2)[of "[OtherError]"] that(3)[of "f64_of_int rtt / f64_of_int Millisecond"]
      by (cases "rtt < 0") (simp_all add: EvaluateScore_def case_prod_beta Let_def)
  qed
qed

section \<open>Properties\<close>

definition ex_strategy :: strategy where
  "ex_strategy = NewLatencyHealthStrategy
     \<lparr>cfgProbeTimeout = 0, cfgAlpha = NaN, cfgFailurePenalty = Fin 0\<rparr>"

text \<open>Evidence discipline of EvaluateScore. An error always comes with the invalid score; a probe cut
  short by the caller's own context (or aimed at no address) leaves the whole history untouched;
  every other outcome records exactly one sample, for the probed target only, so an unreachable
  peer is evidence and a cancelled probe is not.\<close>

theorem evaluate_score_evidence:
  assumes "EvaluateScore s before target outcome after = (s', v, err)"
  shows "(err \<noteq> None \<longrightarrow> v = ScoreUnavailable) \<and>
    (target = '''' \<or> before \<noteq> None \<or> (err \<noteq> None \<and> after \<noteq> None) \<longrightarrow> s' = s \<and> err \<noteq> None) \<and>
    (target \<noteq> '''' \<and> before = None \<and> (err = None \<or> after = None) \<longrightarrow>
       Samples s' target = Samples s target + 1 \<and>
       (\<forall>addr. addr \<noteq> target \<longrightarrow> Score s' addr = Score s addr))"
proof (cases rule: EvaluateScore_cases[of target before s outcome after])
  case 1
  then show ?thesis using assms by auto
next
  case (2 e)
  then show ?thesis
    using assms classify_frame[of _ target s after e] Samples_classify[of s after target e]
    by (cases after) (auto simp: classify_def Let_def Score_def split: if_splits)
next
  case (3 w)
  then show ?thesis
    using assms record_sample_frame[of _ target s w] Samples_record_sample[of s target w]
    by (auto simp: Score_def)
qed

theorem evaluate_score_evidence_witness:
  "Samples (fst (EvaluateScore ex_strategy None ''a'' (Inl [NetTimeout]) None)) ''a'' = 1"
proof -
  obtain s' v err where e: "EvaluateScore ex_strategy None ''a'' (Inl [NetTimeout]) None = (s', v, err)"
    by (cases "EvaluateScore ex_strategy None ''a'' (Inl [NetTimeout]) None") auto
  have "Samples ex_strategy ''a'' = 0"
    by (simp add: ex_strategy_def NewLatencyHealthStrategy_def Samples_def)
  then show ?thesis using evaluate_score_evidence[OF e] by (simp add: e)
qed

text \<open>Slower never scores better (the coordinated-omission defence): of two peers with no history,
  the one whose every sample is at least as large ends with a score at least as large, whatever
  the smoothing constant the constructor admits and however binary64 rounds.\<close>

theorem slower_never_scores_better:
  assumes "alpha_ok (alpha s)" and "fmlookup (samples s) t = None" "fmlookup (samples s) t' = None"
    and "vs \<noteq> []" "length vs < 2 ^ 64"
    and "list_all2 (\<lambda>v v'. sample_ok v \<and> sample_ok v' \<and> v \<le> v') vs vs'"
  shows "fst (Score (record_all s t vs) t) \<le> fst (Score (record_all s t' vs') t')"
proof -
  obtain v ws where vs: "vs = v # ws" using assms(4) by (cases vs) auto
  then obtain v' ws' where vs': "vs' = v' # ws'"
    "list_all2 (\<lambda>v v'. sample_ok v \<and> sample_ok v' \<and> v \<le> v') ws ws'" "sample_ok v" "sample_ok v'" "v \<le> v'"
    using assms(6) by (auto simp: list_all2_Cons1)
  have l: "length ws < 2 ^ 64 - 1" "length ws' < 2 ^ 64 - 1"
    using assms(5) vs list_all2_lengthD[OF vs'(2)] by simp_all
  have "ewma_run (alpha s) v ws \<le> ewma_run (alpha s) v' ws'"
    using vs' by (intro ewma_run_mono assms(1) sample_ok_ewma_ok) simp_all
  then show ?thesis
    by (simp only: vs vs'(1) record_all_fresh[OF assms(2) l(1)] record_all_fresh[OF assms(3) l(2)]
        fst_conv)
qed

lemma ex_alpha_ok: "alpha_ok (alpha ex_strategy)"
  by code_simp

theorem slower_never_scores_better_witness:
  "fst (Score (record_all ex_strategy ''a'' [Fin 1, Fin 2]) ''a'')
   \<le> fst (Score (record_all ex_strategy ''b'' [Fin 1, Fin 3]) ''b'')"
proof -
  have "sample_ok (Fin 1)" "sample_ok (Fin 2)" "sample_ok (Fin 3)" by code_simp+
  then show ?thesis
    by (intro slower_never_scores_better ex_alpha_ok)
      (simp_all add: ex_strategy_def NewLatencyHealthStrategy_def)
qed

text \<open>A failed probe is charged at least as much as any answer that came within the probe timeout, so
  a peer cannot improve its score by failing slow probes instead of answering them.\<close>

theorem failure_at_least_any_success:
  assumes "failurePenalty s = Fin f" "1 \<le> f" and "0 \<le> rtt" "rtt \<le> probeTimeout s"
  shows "f64_of_int rtt / f64_of_int Millisecond \<le> penaltyMS s"
proof -
  have ms: "f64_of_int Millisecond = Fin 1000000"
    by (simp add: Millisecond_def f64_of_int_exact)
  have div_mono: "a \<le> b \<Longrightarrow> f64_pos a \<Longrightarrow> f64_pos b \<Longrightarrow> a / Fin 1000000 \<le> b / Fin 1000000" for a b
    by (cases a; cases b) (simp_all add: f64_of_rat_mono divide_right_mono)
  have div_pos: "f64_pos a \<Longrightarrow> f64_pos (a / Fin 1000000)" for a
    by (cases a) simp_all
  have scale: "b \<le> b * Fin f" if "f64_pos b" "f64_wf b" for b
    using that assms(2)
  proof (cases b)
    case (Fin x)
    have "x \<le> x * f" using that(1) Fin assms(2) by (simp add: mult_le_cancel_left1)
    then have "f64_of_rat x \<le> f64_of_rat (x * f)" by (rule f64_of_rat_mono)
    then show ?thesis using Fin that(2) by (simp add: f64_of_rat_wf_Fin del: f64_wf.simps)
  qed simp_all
  have wf: "f64_wf (f64_of_int n / Fin 1000000)" for n
    by (cases "f64_of_int n") simp_all
  have pos: "f64_pos (f64_of_int n)" if "0 \<le> n" for n
    using that by (simp add: f64_of_int_def)
  have "f64_of_int rtt \<le> f64_of_int (probeTimeout s)"
    using assms(4) by (simp add: f64_of_int_def f64_of_rat_mono)
  then have "f64_of_int rtt / Fin 1000000 \<le> f64_of_int (probeTimeout s) / Fin 1000000"
    using assms(3,4) by (intro div_mono pos) simp_all
  moreover have "f64_of_int (probeTimeout s) / Fin 1000000 \<le> penaltyMS s"
    unfolding penaltyMS_def ms assms(1) using assms(3,4) by (intro scale div_pos pos wf) simp
  ultimately show ?thesis unfolding ms by (rule f64_le_trans)
qed

theorem failure_at_least_any_success_witness:
  "f64_of_int (1500 * Millisecond) / f64_of_int Millisecond \<le> penaltyMS ex_strategy"
proof -
  have "failurePenalty ex_strategy = Fin 2" by code_simp
  then show ?thesis
    by (rule failure_at_least_any_success)
      (simp_all add: ex_strategy_def NewLatencyHealthStrategy_def DefaultProbeTimeout_def Second_def
        Millisecond_def)
qed

end
