(* ===== verification/Membership.thy ===== *)
theory Membership
  imports Health
begin

text \<open>
  The membership table of \<open>pkg/cluster/member.go\<close>: roles, liveness states, member records, the
  incarnation- and sequence-ordered merge \<open>Upsert\<close>, the author's writes \<open>SetScore\<close> and \<open>SetRole\<close>,
  the liveness writes \<open>SetState\<close> and \<open>Revive\<close>, and the sorted snapshot every election runs on.
  The mutex of the table is not modelled: every operation here is one critical section, so it is
  one step. Incarnations are \<open>int64\<close>; the only arithmetic on them saturates, so they are \<open>int\<close>
  with the range kept as a lemma. \<open>version\<close> and \<open>Seq\<close> are \<open>uint64\<close> and wrap.
\<close>

section \<open>Roles and states\<close>

datatype Role = RoleWorker | RoleLeader

fun Role_String :: "Role \<Rightarrow> string" where
  "Role_String r = (if r = RoleLeader then ''leader'' else ''worker'')"

definition ParseRole :: "string \<Rightarrow> Role" where
  "ParseRole s = (if s = ''leader'' then RoleLeader else RoleWorker)"

datatype State = StateAlive | StateSuspect | StateDead

instantiation State :: linorder
begin

fun state_code :: "State \<Rightarrow> nat" where
  "state_code StateAlive = 0" | "state_code StateSuspect = 1" | "state_code StateDead = 2"

definition less_eq_State :: "State \<Rightarrow> State \<Rightarrow> bool" where
  "a \<le> b \<longleftrightarrow> state_code a \<le> state_code b"

definition less_State :: "State \<Rightarrow> State \<Rightarrow> bool" where
  "a < b \<longleftrightarrow> state_code a < state_code b"

instance
proof
  fix x y :: State
  show "x \<le> y \<Longrightarrow> y \<le> x \<Longrightarrow> x = y"
    by (cases x; cases y) (simp_all add: less_eq_State_def)
qed (auto simp: less_eq_State_def less_State_def)

end

fun State_String :: "State \<Rightarrow> string" where
  "State_String StateSuspect = ''suspect''"
| "State_String StateDead = ''dead''"
| "State_String StateAlive = ''alive''"

definition ParseState :: "string \<Rightarrow> State" where
  "ParseState s =
     (if s = ''suspect'' then StateSuspect else if s = ''dead'' then StateDead else StateAlive)"

lemma state_order_simps [simp]:
  "StateAlive \<le> s" "s \<le> StateDead" "\<not> s < StateAlive" "\<not> StateDead < s"
  "s \<le> StateAlive \<longleftrightarrow> s = StateAlive" "StateDead \<le> s \<longleftrightarrow> s = StateDead"
  "s < StateDead \<longleftrightarrow> s \<noteq> StateDead" "StateAlive < s \<longleftrightarrow> s \<noteq> StateAlive"
  by (cases s; simp add: less_eq_State_def less_State_def)+

lemma ParseRole_String: "ParseRole (Role_String r) = r"
  by (cases r) (simp_all add: ParseRole_def)

lemma ParseState_String: "ParseState (State_String s) = s"
  by (cases s) (simp_all add: ParseState_def)

section \<open>Members, views and the table\<close>

record Member =
  mID :: NodeID
  mAddr :: NodeAddress
  mRole :: Role
  mState :: State
  mIncarnation :: int
  mScore :: f64
  mSeq :: uint64

record View =
  Members :: "Member list"
  vVersion :: uint64

record Table =
  members :: "(NodeID, Member) fmap"
  version :: uint64

definition View_Alive :: "View \<Rightarrow> Member list" where
  "View_Alive v = filter (\<lambda>m. mState m = StateAlive) (Members v)"

definition View_Get :: "View \<Rightarrow> NodeID \<Rightarrow> Member option" where
  "View_Get v i = find (\<lambda>m. mID m = i) (Members v)"

definition View_Scores :: "View \<Rightarrow> (NodeID, f64) fmap" where
  "View_Scores v = foldl (\<lambda>out m. fmupd (mID m) (mScore m) out) fmempty (Members v)"

definition View_Leaders :: "View \<Rightarrow> NodeID list" where
  "View_Leaders v = map mID (filter (\<lambda>m. mRole m = RoleLeader \<and> mState m = StateAlive) (Members v))"

definition View_Size :: "View \<Rightarrow> nat" where
  "View_Size v = length (filter (\<lambda>m. mState m = StateAlive) (Members v))"

definition View_Addresses :: "View \<Rightarrow> NodeAddress fset" where
  "View_Addresses v =
     fset_of_list (map mAddr (filter (\<lambda>m. mState m \<noteq> StateDead \<and> mAddr m \<noteq> '''') (Members v)))"

definition NewTable :: Table where
  "NewTable = \<lparr>members = fmempty, version = 0\<rparr>"

definition Snapshot :: "Table \<Rightarrow> View" where
  "Snapshot t = \<lparr>Members = sort_by (\<lambda>a b. mID a < mID b) (fm_vals (members t)), vVersion = version t\<rparr>"

definition sameScore :: "f64 \<Rightarrow> f64 \<Rightarrow> bool" where
  "sameScore a b = (if \<not> IsValidScore a \<and> \<not> IsValidScore b then True else feq a b)"

definition MaxInt64 :: int where
  "MaxInt64 = 2 ^ 63 - 1"

definition NextIncarnation :: "int \<Rightarrow> int" where
  "NextIncarnation inc = (if inc = MaxInt64 then inc else inc + 1)"

text \<open>\<open>t.members[id] = m; t.version++\<close>, the tail of every accepted mutation.\<close>

definition store :: "Table \<Rightarrow> NodeID \<Rightarrow> Member \<Rightarrow> Table" where
  "store t i m = t\<lparr>members := fmupd i m (members t), version := version t + 1\<rparr>"

section \<open>Operations\<close>

text \<open>The record an equal-incarnation merge leaves: liveness only worsens, claims follow \<open>Seq\<close>.\<close>

definition merge_equal :: "Member \<Rightarrow> Member \<Rightarrow> Member" where
  "merge_equal existing m0 =
     (let m = (if mState m0 < mState existing then m0\<lparr>mState := mState existing\<rparr> else m0)
      in if mSeq existing < mSeq m then m
         else if mSeq m = 0 \<and> mSeq existing = 0
         then (if \<not> IsValidScore (mScore m) then m\<lparr>mScore := mScore existing\<rparr> else m)
         else m\<lparr>mRole := mRole existing, mScore := mScore existing, mSeq := mSeq existing\<rparr>)"

definition Upsert :: "Table \<Rightarrow> Member \<Rightarrow> Table \<times> bool" where
  "Upsert t m =
     (case fmlookup (members t) (mID m) of
        None \<Rightarrow> (store t (mID m) m, True)
      | Some existing \<Rightarrow>
          if mIncarnation existing < mIncarnation m then (store t (mID m) m, True)
          else if mIncarnation m < mIncarnation existing then (t, False)
          else let m' = merge_equal existing m in
            if mState m' = mState existing \<and> mRole m' = mRole existing \<and>
               mAddr m' = mAddr existing \<and> mSeq m' = mSeq existing \<and>
               sameScore (mScore m') (mScore existing)
            then (t, False)
            else (store t (mID m) m', True))"

definition SetScore :: "Table \<Rightarrow> NodeID \<Rightarrow> f64 \<Rightarrow> Table \<times> bool" where
  "SetScore t i score =
     (case fmlookup (members t) i of
        None \<Rightarrow> (t, False)
      | Some m \<Rightarrow> if sameScore (mScore m) score then (t, False)
          else (store t i (m\<lparr>mScore := score, mSeq := mSeq m + 1\<rparr>), True))"

definition SetRole :: "Table \<Rightarrow> NodeID \<Rightarrow> Role \<Rightarrow> Table \<times> bool" where
  "SetRole t i r =
     (case fmlookup (members t) i of
        None \<Rightarrow> (t, False)
      | Some m \<Rightarrow> if mRole m = r then (t, False)
          else (store t i (m\<lparr>mRole := r, mSeq := mSeq m + 1\<rparr>), True))"

definition SetState :: "Table \<Rightarrow> NodeID \<Rightarrow> State \<Rightarrow> Table \<times> bool" where
  "SetState t i s =
     (case fmlookup (members t) i of
        None \<Rightarrow> (t, False)
      | Some m \<Rightarrow> if mState m = s then (t, False)
          else let m1 = m\<lparr>mState := s\<rparr>;
                   m2 = (if s = StateDead
                         then m1\<lparr>mIncarnation := NextIncarnation (mIncarnation m1)\<rparr> else m1)
               in (store t i m2, True))"

definition Revive :: "Table \<Rightarrow> NodeID \<Rightarrow> int \<Rightarrow> Table \<times> bool" where
  "Revive t i incarnation =
     (case fmlookup (members t) i of
        None \<Rightarrow> (t, False)
      | Some m \<Rightarrow> if incarnation < mIncarnation m then (t, False)
          else if mState m = StateAlive \<and> mIncarnation m = incarnation then (t, False)
          else (store t i (m\<lparr>mState := StateAlive, mIncarnation := incarnation\<rparr>), True))"

definition Remove :: "Table \<Rightarrow> NodeID \<Rightarrow> Table \<times> bool" where
  "Remove t i =
     (case fmlookup (members t) i of
        None \<Rightarrow> (t, False)
      | Some m \<Rightarrow> (t\<lparr>members := fmdrop i (members t), version := version t + 1\<rparr>, True))"

lemmas table_ops = Upsert_def SetScore_def SetRole_def SetState_def Revive_def Remove_def
  store_def Let_def

section \<open>Well-formed tables\<close>

definition table_wf :: "Table \<Rightarrow> bool" where
  "table_wf t \<longleftrightarrow> (\<forall>i m. fmlookup (members t) i = Some m \<longrightarrow> mID m = i)"

lemma merge_equal_ID [simp]: "mID (merge_equal e m) = mID m"
  and merge_equal_Addr [simp]: "mAddr (merge_equal e m) = mAddr m"
  and merge_equal_Inc [simp]: "mIncarnation (merge_equal e m) = mIncarnation m"
  by (simp_all add: merge_equal_def Let_def)

lemma table_wf_New: "table_wf NewTable"
  by (simp add: table_wf_def NewTable_def)

lemma table_wf_ops:
  assumes "table_wf t"
  shows "table_wf (fst (Upsert t m))" "table_wf (fst (SetScore t i s))"
    "table_wf (fst (SetRole t i r))" "table_wf (fst (SetState t i st))"
    "table_wf (fst (Revive t i inc))" "table_wf (fst (Remove t i))"
  using assms by (auto simp: table_wf_def table_ops split: option.splits if_splits)

text \<open>An operation reports a change exactly when it wrote, and a write always bumps the version.\<close>

lemma table_ops_version:
  "version (fst (Upsert t m)) = (if snd (Upsert t m) then version t + 1 else version t)"
  "version (fst (SetScore t i s)) = (if snd (SetScore t i s) then version t + 1 else version t)"
  "version (fst (SetRole t i r)) = (if snd (SetRole t i r) then version t + 1 else version t)"
  "version (fst (SetState t i st)) = (if snd (SetState t i st) then version t + 1 else version t)"
  "version (fst (Revive t i inc)) = (if snd (Revive t i inc) then version t + 1 else version t)"
  "version (fst (Remove t i)) = (if snd (Remove t i) then version t + 1 else version t)"
  by (auto simp: table_ops split: option.splits if_splits)

lemma table_ops_unchanged:
  "\<not> snd (Upsert t m) \<Longrightarrow> fst (Upsert t m) = t"
  "\<not> snd (SetScore t i s) \<Longrightarrow> fst (SetScore t i s) = t"
  "\<not> snd (SetRole t i r) \<Longrightarrow> fst (SetRole t i r) = t"
  "\<not> snd (SetState t i st) \<Longrightarrow> fst (SetState t i st) = t"
  "\<not> snd (Revive t i inc) \<Longrightarrow> fst (Revive t i inc) = t"
  "\<not> snd (Remove t i) \<Longrightarrow> fst (Remove t i) = t"
  by (auto simp: table_ops split: option.splits if_splits)

text \<open>Only the addressed record changes.\<close>

lemma table_ops_frame:
  "j \<noteq> mID m \<Longrightarrow> fmlookup (members (fst (Upsert t m))) j = fmlookup (members t) j"
  "j \<noteq> i \<Longrightarrow> fmlookup (members (fst (SetScore t i s))) j = fmlookup (members t) j"
  "j \<noteq> i \<Longrightarrow> fmlookup (members (fst (SetRole t i r))) j = fmlookup (members t) j"
  "j \<noteq> i \<Longrightarrow> fmlookup (members (fst (SetState t i st))) j = fmlookup (members t) j"
  "j \<noteq> i \<Longrightarrow> fmlookup (members (fst (Revive t i inc))) j = fmlookup (members t) j"
  "j \<noteq> i \<Longrightarrow> fmlookup (members (fst (Remove t i))) j = fmlookup (members t) j"
  by (auto simp: table_ops split: option.splits if_splits)

section \<open>The snapshot\<close>

interpretation by_ID: keyed_order "\<lambda>a b. mID a < mID b" mID
  by unfold_locales (auto simp: less_le_not_le)

lemma Snapshot_wf:
  assumes "table_wf t"
  shows "Members (Snapshot t) = fm_vals (members t)"
    and "map mID (Members (Snapshot t)) = fm_keys (members t)"
proof -
  have m: "map mID (fm_vals (members t)) = fm_keys (members t)"
    using assms by (intro map_fm_vals) (auto simp: table_wf_def)
  have s: "sorted (map mID (fm_vals (members t)))" and d: "distinct (map mID (fm_vals (members t)))"
    unfolding m by simp_all
  have "by_ID.ordered (fm_vals (members t))"
    using s by (simp add: by_ID.ordered_def sorted_map not_less)
  then show "Members (Snapshot t) = fm_vals (members t)"
    using d by (simp add: Snapshot_def by_ID.ordered_unique by_ID.ordered_sort_by)
  then show "map mID (Members (Snapshot t)) = fm_keys (members t)" using m by simp
qed

lemma Snapshot_sorted: "table_wf t \<Longrightarrow> sorted_wrt (<) (map mID (Members (Snapshot t)))"
  by (simp only: Snapshot_wf(2) fm_keys_sorted_wrt)

lemma Snapshot_distinct: "table_wf t \<Longrightarrow> distinct (map mID (Members (Snapshot t)))"
  by (simp only: Snapshot_wf(2) distinct_fm_keys)

lemma set_Snapshot: "set (Members (Snapshot t)) = {m. \<exists>i. fmlookup (members t) i = Some m}"
  by (simp add: Snapshot_def set_fm_vals)

lemma find_Some_key:
  assumes "distinct (map f xs)" "x \<in> set xs"
  shows "find (\<lambda>y. f y = f x) xs = Some x"
  using assms by (induction xs) (auto simp: image_iff)

lemma Get_Snapshot:
  assumes "table_wf t"
  shows "View_Get (Snapshot t) i = fmlookup (members t) i"
proof (cases "fmlookup (members t) i")
  case None
  have "\<not> (\<exists>m. m \<in> set (Members (Snapshot t)) \<and> mID m = i)"
    using None assms by (auto simp: set_Snapshot table_wf_def)
  then show ?thesis by (auto simp: View_Get_def None find_None_iff)
next
  case (Some m)
  then have "m \<in> set (Members (Snapshot t))" "mID m = i"
    using assms by (auto simp: set_Snapshot table_wf_def)
  then show ?thesis
    using find_Some_key[OF Snapshot_distinct[OF assms], of m] by (simp add: View_Get_def Some)
qed

lemma fmlookup_Scores_fold:
  "fmlookup (foldl (\<lambda>out m. fmupd (mID m) (mScore m) out) acc ms) i =
     (case find (\<lambda>m. mID m = i) (rev ms) of None \<Rightarrow> fmlookup acc i | Some m \<Rightarrow> Some (mScore m))"
  by (induction ms rule: rev_induct) auto

lemma Scores_Snapshot:
  assumes "table_wf t"
  shows "fmlookup (View_Scores (Snapshot t)) i = map_option mScore (fmlookup (members t) i)"
proof (cases "fmlookup (members t) i")
  case None
  have "find (\<lambda>m. mID m = i) (rev (Members (Snapshot t))) = None"
    using None assms by (auto simp: find_None_iff set_Snapshot table_wf_def)
  then show ?thesis by (simp add: View_Scores_def fmlookup_Scores_fold None)
next
  case (Some m)
  then have m: "m \<in> set (rev (Members (Snapshot t)))" "mID m = i"
    using assms by (auto simp: set_Snapshot table_wf_def)
  have "distinct (map mID (rev (Members (Snapshot t))))"
    using Snapshot_distinct[OF assms] by (simp flip: rev_map)
  with m have "find (\<lambda>x. mID x = i) (rev (Members (Snapshot t))) = Some m"
    using find_Some_key[of mID] by blast
  then show ?thesis by (simp add: View_Scores_def fmlookup_Scores_fold Some)
qed

section \<open>Merging is a join: order and duplication of gossip do not matter\<close>

text \<open>
  What a table believes about one member, as far as the merge orders it: incarnation, liveness,
  claim sequence number. \<open>Upsert\<close> moves it to the join with the incoming record's key.
\<close>

type_synonym key = "int \<times> State \<times> uint64"

definition rec_key :: "Member \<Rightarrow> key" where
  "rec_key m = (mIncarnation m, mState m, mSeq m)"

definition table_key :: "Table \<Rightarrow> NodeID \<Rightarrow> key option" where
  "table_key t i = map_option rec_key (fmlookup (members t) i)"

fun key_join :: "key \<Rightarrow> key \<Rightarrow> key" where
  "key_join (i, s, q) (i', s', q') =
     (if i < i' then (i', s', q') else if i' < i then (i, s, q) else (i, max s s', max q q'))"


locale join_fold =
  fixes join :: "'k \<Rightarrow> 'k \<Rightarrow> 'k"
  assumes assoc: "join (join a b) c = join a (join b c)"
    and comm: "join a b = join b a"
    and idem: "join a a = a"
begin

lemma left_comm: "join a (join b c) = join b (join a c)"
  by (metis assoc comm)

lemma absorb: "a \<in> set ks \<Longrightarrow> join (foldl join z ks) a = foldl join z ks"
proof (induction ks rule: rev_induct)
  case (snoc k ks)
  let ?F = "foldl join z ks"
  have "join (join ?F k) a = join ?F k"
  proof (cases "a = k")
    case True
    then show ?thesis by (simp add: assoc idem)
  next
    case False
    then have IH: "join ?F a = ?F" using snoc by simp
    have "join (join ?F k) a = join (join ?F a) k" by (metis assoc comm)
    with IH show ?thesis by simp
  qed
  then show ?case by simp
qed simp

lemma fold_subset:
  assumes "set ks \<subseteq> set ls"
  shows "join (foldl join z ls) (foldl join z ks) = foldl join z ls"
  using assms
proof (induction ks rule: rev_induct)
  case Nil
  show ?case
  proof (induction ls rule: rev_induct)
    case (snoc l ls)
    have "join (join (foldl join z ls) l) z = join (join (foldl join z ls) z) l" by (metis assoc comm)
    with snoc show ?case by simp
  qed (simp add: idem)
next
  case (snoc k ks)
  then have "join (foldl join z ls) (foldl join z ks) = foldl join z ls" "k \<in> set ls" by auto
  then show ?case using absorb[of k ls z] by (simp flip: assoc)
qed

text \<open>A fold of joins depends only on the set of values joined.\<close>

lemma fold_set_eq: "set ks = set ls \<Longrightarrow> foldl join z ks = foldl join z ls"
  using fold_subset[of ks ls z] fold_subset[of ls ks z] by (simp add: comm)

end

text \<open>The join of keys, lifted to members a table may not hold yet.\<close>

fun opt_key_join :: "key option \<Rightarrow> key option \<Rightarrow> key option" where
  "opt_key_join None b = b"
| "opt_key_join a None = a"
| "opt_key_join (Some a) (Some b) = Some (key_join a b)"

interpretation gossip: join_fold opt_key_join
proof
  fix a b c :: "key option"
  show "opt_key_join (opt_key_join a b) c = opt_key_join a (opt_key_join b c)"
    by (cases a; cases b; cases c)
      (auto simp: max.assoc split: if_splits)
  show "opt_key_join a b = opt_key_join b a"
    by (cases a; cases b) (auto simp: max.commute)
  show "opt_key_join a a = a"
    by (cases a) auto
qed

lemma merge_equal_key:
  "mIncarnation m = mIncarnation e \<Longrightarrow> rec_key (merge_equal e m) = key_join (rec_key e) (rec_key m)"
  by (auto simp: rec_key_def merge_equal_def Let_def max_def not_less)

lemma Upsert_key:
  "table_key (fst (Upsert t m)) i =
     (if i = mID m then opt_key_join (table_key t i) (Some (rec_key m)) else table_key t i)"
proof (cases "fmlookup (members t) (mID m)")
  case None
  then show ?thesis by (simp add: Upsert_def table_key_def store_def)
next
  case (Some e)
  show ?thesis
  proof (cases "mIncarnation m = mIncarnation e")
    case True
    then show ?thesis
      using Some merge_equal_key[OF True]
      by (auto simp: Upsert_def table_key_def store_def Let_def rec_key_def)
  next
    case False
    then show ?thesis
      using Some by (auto simp: Upsert_def table_key_def store_def rec_key_def)
  qed
qed

text \<open>Merging a list of records, as a MEMBERSHIP_DELTA does.\<close>

definition Upsert_all :: "Table \<Rightarrow> Member list \<Rightarrow> Table" where
  "Upsert_all t ms = foldl (\<lambda>t m. fst (Upsert t m)) t ms"

lemma Upsert_all_key:
  "table_key (Upsert_all t ms) i =
     foldl opt_key_join (table_key t i) (map (Some \<circ> rec_key) (filter (\<lambda>m. mID m = i) ms))"
  by (induction ms rule: rev_induct) (auto simp: Upsert_all_def Upsert_key)

section \<open>Claims\<close>

text \<open>
  Who may write what. \<open>authored A t\<close> says that every sequence-stamped record of \<open>t\<close> carries the role
  and the score its subject published under that sequence number; merging keeps it, because the
  equal-incarnation branch takes \<open>Role\<close>, \<open>Score\<close> and \<open>Seq\<close> together or leaves them together.
\<close>

definition claim_ok :: "(NodeID \<Rightarrow> uint64 \<Rightarrow> Role \<times> f64) \<Rightarrow> Member \<Rightarrow> bool" where
  "claim_ok A m \<longleftrightarrow> mSeq m \<noteq> 0 \<and> A (mID m) (mSeq m) = (mRole m, mScore m)"

definition authored :: "(NodeID \<Rightarrow> uint64 \<Rightarrow> Role \<times> f64) \<Rightarrow> Table \<Rightarrow> bool" where
  "authored A t \<longleftrightarrow> table_wf t \<and> (\<forall>i m. fmlookup (members t) i = Some m \<longrightarrow> claim_ok A m)"

lemma merge_equal_claim:
  "claim_ok A e \<Longrightarrow> claim_ok A m \<Longrightarrow> mID e = mID m \<Longrightarrow> claim_ok A (merge_equal e m)"
  by (auto simp: merge_equal_def claim_ok_def Let_def)

lemma Upsert_lookup:
  assumes "fmlookup (members (fst (Upsert t m))) j = Some r"
  shows "fmlookup (members t) j = Some r \<or> j = mID m \<and> (r = m \<or>
    (\<exists>e. fmlookup (members t) j = Some e \<and> r = merge_equal e m))"
  using assms by (auto simp: Upsert_def store_def Let_def split: option.splits if_splits)

lemma Upsert_stale:
  "fmlookup (members t) (mID m) = Some e \<Longrightarrow> mIncarnation m < mIncarnation e \<Longrightarrow> Upsert t m = (t, False)"
  by (simp add: Upsert_def)

lemma authored_Upsert:
  assumes "authored A t" "claim_ok A m"
  shows "authored A (fst (Upsert t m))"
  unfolding authored_def
proof (intro conjI allI impI)
  show "table_wf (fst (Upsert t m))" using assms(1) table_wf_ops(1) by (simp add: authored_def)
  fix j r assume "fmlookup (members (fst (Upsert t m))) j = Some r"
  then consider "fmlookup (members t) j = Some r" | "r = m"
    | e where "j = mID m" "fmlookup (members t) j = Some e" "r = merge_equal e m"
    using Upsert_lookup by blast
  then show "claim_ok A r"
  proof cases
    case (3 e)
    moreover from this have "claim_ok A e" "mID e = mID m"
      using assms(1) by (auto simp: authored_def table_wf_def)
    ultimately show ?thesis using merge_equal_claim assms(2) by simp
  qed (use assms in \<open>auto simp: authored_def\<close>)
qed

lemma Upsert_all_simps [simp]:
  "Upsert_all t [] = t" "Upsert_all t (ms @ [m]) = fst (Upsert (Upsert_all t ms) m)"
  by (simp_all add: Upsert_all_def)

lemma Upsert_all_stale:
  assumes "fmlookup (members t) i = Some d" "\<forall>m\<in>set ms. mID m = i \<longrightarrow> mIncarnation m < mIncarnation d"
  shows "fmlookup (members (Upsert_all t ms)) i = Some d"
  using assms(2)
proof (induction ms rule: rev_induct)
  case (snoc m ms)
  then show ?case
    using table_ops_frame(1)[of i m "Upsert_all t ms"] Upsert_stale[of "Upsert_all t ms" m d]
    by (cases "mID m = i") auto
qed (simp add: assms(1))

lemma authored_Upsert_all:
  "authored A t \<Longrightarrow> \<forall>m\<in>set ms. claim_ok A m \<Longrightarrow> authored A (Upsert_all t ms)"
  by (induction ms rule: rev_induct) (auto simp: authored_Upsert)

section \<open>Properties\<close>

definition ex_m1 :: Member where
  "ex_m1 = \<lparr>mID = ''a'', mAddr = ''h1'', mRole = RoleWorker, mState = StateAlive, mIncarnation = 1,
     mScore = Fin 3, mSeq = 1\<rparr>"

definition ex_m2 :: Member where
  "ex_m2 = \<lparr>mID = ''a'', mAddr = ''h1'', mRole = RoleLeader, mState = StateSuspect, mIncarnation = 1,
     mScore = Fin 4, mSeq = 2\<rparr>"

definition ex_A :: "NodeID \<Rightarrow> uint64 \<Rightarrow> Role \<times> f64" where
  "ex_A i q = (if q = 1 then (RoleWorker, Fin 3) else (RoleLeader, Fin 4))"

text \<open>C1: Gossip converges on order. Two nodes that start from the same table and merge the same records, in
  any order and with any duplication, agree about the incarnation, the liveness and the claim
  sequence number of every member.\<close>

theorem gossip_convergence:
  assumes "set ms = set ns"
  shows "table_key (Upsert_all t ms) = table_key (Upsert_all t ns)"
proof
  fix i
  have "set (map (Some \<circ> rec_key) (filter (\<lambda>m. mID m = i) ms)) =
        set (map (Some \<circ> rec_key) (filter (\<lambda>m. mID m = i) ns))"
    using assms by simp
  then show "table_key (Upsert_all t ms) i = table_key (Upsert_all t ns) i"
    unfolding Upsert_all_key by (rule gossip.fold_set_eq)
qed

theorem gossip_convergence_witness:
  "table_key (Upsert_all NewTable [ex_m1, ex_m2, ex_m1]) ''a'' = Some (1, StateSuspect, 2)"
proof -
  have "table_key (Upsert_all NewTable [ex_m1, ex_m2, ex_m1]) =
        table_key (Upsert_all NewTable [ex_m2, ex_m1])"
    by (rule gossip_convergence) auto
  moreover have "table_key (Upsert_all NewTable [ex_m2, ex_m1]) ''a'' = Some (1, StateSuspect, 2)"
    by code_simp
  ultimately show ?thesis by simp
qed

text \<open>Gossip converges on claims. When every record carries the role and score its subject published
  under that sequence number, two nodes that merged the same records into the same table also
  agree about every member's role and score, so their elections rank the same inputs.\<close>

theorem claims_converge:
  assumes "set ms = set ns" and "authored A t" and "\<forall>m\<in>set ms. claim_ok A m"
    and "fmlookup (members (Upsert_all t ms)) i = Some m"
    and "fmlookup (members (Upsert_all t ns)) i = Some n"
  shows "mRole m = mRole n \<and> mScore m = mScore n \<and> mState m = mState n \<and>
         mIncarnation m = mIncarnation n \<and> mSeq m = mSeq n"
proof -
  have "set (map (Some \<circ> rec_key) (filter (\<lambda>m. mID m = i) ms)) =
        set (map (Some \<circ> rec_key) (filter (\<lambda>m. mID m = i) ns))"
    using assms(1) by simp
  then have "table_key (Upsert_all t ms) i = table_key (Upsert_all t ns) i"
    unfolding Upsert_all_key by (rule gossip.fold_set_eq)
  then have k: "rec_key m = rec_key n" using assms(4,5) by (simp add: table_key_def)
  have "authored A (Upsert_all t ms)" "authored A (Upsert_all t ns)"
    using assms(1-3) authored_Upsert_all by auto
  then have "claim_ok A m" "claim_ok A n" "mID m = i" "mID n = i"
    using assms(4,5) by (auto simp: authored_def table_wf_def)
  then show ?thesis using k by (simp add: claim_ok_def rec_key_def)
qed

lemma ex_merged:
  "fmlookup (members (Upsert_all NewTable [ex_m1, ex_m2])) ''a'' = Some ex_m2"
  "fmlookup (members (Upsert_all NewTable [ex_m2, ex_m1])) ''a'' = Some ex_m2"
  by code_simp+

theorem claims_converge_witness:
  "mRole ex_m2 = mRole ex_m2 \<and> mScore ex_m2 = mScore ex_m2 \<and> mState ex_m2 = mState ex_m2 \<and>
   mIncarnation ex_m2 = mIncarnation ex_m2 \<and> mSeq ex_m2 = mSeq ex_m2"
proof -
  have "authored ex_A NewTable" by (simp add: authored_def table_wf_def NewTable_def)
  then show ?thesis
    by (intro claims_converge[OF _ _ _ ex_merged, where A = ex_A])
      (auto simp: claim_ok_def ex_A_def ex_m1_def ex_m2_def)
qed



text \<open>A refutation wins. A node that re-announces itself one incarnation above a rumour of its death is
  alive in the table, and neither that rumour nor anything older can take it down again.\<close>

theorem refutation_wins:
  assumes "fmlookup (members t) i = Some d" "mIncarnation d \<le> inc" "inc < MaxInt64"
    and "\<forall>m\<in>set ms. mID m = i \<longrightarrow> mIncarnation m \<le> inc"
  shows "fmlookup (members (Upsert_all (fst (Revive t i (NextIncarnation inc))) ms)) i =
         Some (d\<lparr>mState := StateAlive, mIncarnation := inc + 1\<rparr>)"
  by (rule Upsert_all_stale) (use assms in \<open>auto simp: Revive_def store_def NextIncarnation_def\<close>)

theorem refutation_wins_witness:
  "fmlookup (members (Upsert_all (fst (Revive (Upsert_all NewTable [ex_m1]) ''a'' (NextIncarnation 1))) [ex_m2])) ''a''
   = Some (ex_m1\<lparr>mState := StateAlive, mIncarnation := 2\<rparr>)"
proof -
  have "fmlookup (members (Upsert_all NewTable [ex_m1])) ''a'' = Some ex_m1" by code_simp
  from refutation_wins[OF this, of 1 "[ex_m2]"] show ?thesis
    by (simp add: ex_m1_def ex_m2_def MaxInt64_def)
qed

text \<open>Change reporting is exact. Every table operation returns true exactly when it changed the table;
  a change always moves the version, so an election never runs on a view it has already seen and
  never misses one it has not.\<close>

theorem table_change_reported:
  "(snd (Upsert t m) \<longleftrightarrow> fst (Upsert t m) \<noteq> t) \<and> (snd (SetScore t i s) \<longleftrightarrow> fst (SetScore t i s) \<noteq> t) \<and>
   (snd (SetRole t i r) \<longleftrightarrow> fst (SetRole t i r) \<noteq> t) \<and> (snd (SetState t i st) \<longleftrightarrow> fst (SetState t i st) \<noteq> t) \<and>
   (snd (Revive t i inc) \<longleftrightarrow> fst (Revive t i inc) \<noteq> t) \<and> (snd (Remove t i) \<longleftrightarrow> fst (Remove t i) \<noteq> t)"
  (is "?a \<and> ?b \<and> ?c \<and> ?d \<and> ?e \<and> ?f")
proof (intro conjI)
  have ne: "version t' = version t + 1 \<Longrightarrow> t' \<noteq> t" for t' :: Table by auto
  note v = table_ops_version and u = table_ops_unchanged
  show ?a using v(1)[of t m] u(1)[of t m] ne by (cases "snd (Upsert t m)") auto
  show ?b using v(2)[of t i s] u(2)[of t i s] ne by (cases "snd (SetScore t i s)") auto
  show ?c using v(3)[of t i r] u(3)[of t i r] ne by (cases "snd (SetRole t i r)") auto
  show ?d using v(4)[of t i st] u(4)[of t i st] ne by (cases "snd (SetState t i st)") auto
  show ?e using v(5)[of t i inc] u(5)[of t i inc] ne by (cases "snd (Revive t i inc)") auto
  show ?f using v(6)[of t i] u(6)[of t i] ne by (cases "snd (Remove t i)") auto
qed

text \<open>A snapshot is the table, sorted: one record per member in strictly increasing ID order, looking a
  node up in it finds the table's record, and its score map is the table's scores.\<close>

theorem snapshot_is_sorted_table:
  assumes "table_wf t"
  shows "sorted_wrt (<) (map mID (Members (Snapshot t))) \<and>
    (\<forall>i. View_Get (Snapshot t) i = fmlookup (members t) i) \<and>
    (\<forall>i. fmlookup (View_Scores (Snapshot t)) i = map_option mScore (fmlookup (members t) i))"
  using Snapshot_sorted[OF assms] Get_Snapshot[OF assms] Scores_Snapshot[OF assms] by simp

theorem snapshot_is_sorted_table_witness:
  "View_Get (Snapshot NewTable) ''a'' = None"
  using snapshot_is_sorted_table[OF table_wf_New] by (simp add: NewTable_def)

end
