(* ===== verification/Election.thy ===== *)
theory Election
  imports Membership
begin

text \<open>
  The election of \<open>pkg/cluster/election.go\<close> and the partition arithmetic of \<open>partition.go\<close>: the
  leader count \<open>max(1, ceil(N * threshold))\<close> in binary64, the ranking by self-reported score, and
  the hysteresis loop that lets a sitting leader keep its seat. \<open>Elect\<close> is a pure function of the
  view, as in the source; the facts below say what its result is, that it does not depend on the
  order members are enumerated in, and that adopting a result is a fixed point of the election.
\<close>

section \<open>Quorum and degradation (partition.go)\<close>

definition Quorum :: "int \<Rightarrow> int" where
  "Quorum n = (if n \<le> 0 then 0 else n div 2 + 1)"

definition Degraded :: "int \<Rightarrow> int \<Rightarrow> bool" where
  "Degraded alive lastKnownSize =
     (if alive \<le> 0 \<or> lastKnownSize \<le> 1 then False else alive < Quorum lastKnownSize)"

section \<open>Configuration and leader count\<close>

definition DefaultThreshold :: f64 where "DefaultThreshold = f64_of_rat (3 / 10)"
definition DefaultHysteresis :: f64 where "DefaultHysteresis = Fin (1 / 2)"

record Config =
  Threshold :: f64
  Hysteresis :: f64

definition Config_withDefaults :: "Config \<Rightarrow> Config" where
  "Config_withDefaults c =
     \<lparr>Threshold = (if Threshold c \<le> Fin 0 \<or> Fin 1 < Threshold c then DefaultThreshold
                   else Threshold c),
      Hysteresis = (if Hysteresis c < Fin 0 \<or> Hysteresis c = NaN then DefaultHysteresis
                    else Hysteresis c)\<rparr>"

record ElectResult =
  Leaders :: "NodeID list"
  Size :: int
  Want :: int

definition LeaderCount :: "int \<Rightarrow> f64 \<Rightarrow> int" where
  "LeaderCount n threshold0 =
     (if n \<le> 0 then 0
      else let threshold = (if threshold0 \<le> Fin 0 \<or> Fin 1 < threshold0 then DefaultThreshold
                            else threshold0);
               k0 = ceil_int (f64_of_int n * threshold);
               k1 = (if k0 < 1 then 1 else k0)
           in if n < k1 then n else k1)"

section \<open>The election\<close>

definition scoreOf :: "(NodeID, f64) fmap \<Rightarrow> NodeID \<Rightarrow> f64" where
  "scoreOf scores i = (case fmlookup scores i of None \<Rightarrow> ScoreUnavailable | Some s \<Rightarrow> s)"

definition rank_less :: "(NodeID \<Rightarrow> f64) \<Rightarrow> Member \<Rightarrow> Member \<Rightarrow> bool" where
  "rank_less sc a b =
     (if Better (sc (mID a)) (sc (mID b)) then True
      else if Better (sc (mID b)) (sc (mID a)) then False
      else mID a < mID b)"

definition electorate :: "View \<Rightarrow> Member list" where
  "electorate v =
     filter (\<lambda>m. mState m = StateAlive \<or> (mState m = StateSuspect \<and> mRole m = RoleLeader)) (Members v)"

definition sortIDs :: "NodeID list \<Rightarrow> NodeID list" where
  "sortIDs ids = sort ids"

text \<open>The weakest newcomer holding a seat: the inner loop over \<open>chosen\<close>.\<close>

definition weakest_step ::
  "(NodeID \<Rightarrow> f64) \<Rightarrow> Member list \<Rightarrow> nat option \<Rightarrow> nat \<Rightarrow> nat option" where
  "weakest_step sc chosen w i =
     (let m = chosen ! i in
      if mRole m = RoleLeader then w
      else case w of None \<Rightarrow> Some i
           | Some j \<Rightarrow> if Better (sc (mID (chosen ! j))) (sc (mID m)) then Some i else w)"

definition weakest :: "(NodeID \<Rightarrow> f64) \<Rightarrow> Member list \<Rightarrow> nat option" where
  "weakest sc chosen = foldl (weakest_step sc chosen) None [0..<length chosen]"

fun reseat :: "(NodeID \<Rightarrow> f64) \<Rightarrow> f64 \<Rightarrow> Member list \<Rightarrow> Member list \<Rightarrow> Member list" where
  "reseat sc margin [] chosen = chosen"
| "reseat sc margin (inc # displaced) chosen =
     (case weakest sc chosen of
        None \<Rightarrow> chosen
      | Some w \<Rightarrow>
          let challenger = sc (mID (chosen ! w)); incumbent = sc (mID inc) in
          if margin \<le> incumbent - challenger then reseat sc margin displaced chosen
          else reseat sc margin displaced (chosen[w := inc]))"

definition displaced_of :: "(NodeID \<Rightarrow> f64) \<Rightarrow> Member list \<Rightarrow> Member list \<Rightarrow> Member list" where
  "displaced_of sc chosen eligible =
     filter (\<lambda>m. mRole m = RoleLeader \<and> mID m \<notin> mID ` set chosen \<and> IsValidScore (sc (mID m))) eligible"

definition applyHysteresis ::
  "Member list \<Rightarrow> Member list \<Rightarrow> (NodeID \<Rightarrow> f64) \<Rightarrow> f64 \<Rightarrow> Member list" where
  "applyHysteresis chosen eligible sc margin =
     (if margin \<le> Fin 0 then chosen
      else let displaced = displaced_of sc chosen eligible in
        if displaced = [] then chosen
        else reseat sc margin (sort_by (\<lambda>a b. mID a < mID b) displaced) chosen)"

definition ranked_of :: "(NodeID \<Rightarrow> f64) \<Rightarrow> Member list \<Rightarrow> Member list" where
  "ranked_of sc alive = sort_by (rank_less sc) alive"

definition eligible_of :: "(NodeID \<Rightarrow> f64) \<Rightarrow> Member list \<Rightarrow> Member list" where
  "eligible_of sc ranked = filter (\<lambda>m. IsValidScore (sc (mID m))) ranked"

definition Elect :: "View \<Rightarrow> (NodeID, f64) fmap \<Rightarrow> Config \<Rightarrow> ElectResult" where
  "Elect view scores cfg0 =
     (let cfg = Config_withDefaults cfg0;
          alive = electorate view;
          size = int (length alive)
      in if alive = [] then \<lparr>Leaders = [], Size = size, Want = 0\<rparr>
         else
          let want = LeaderCount size (Threshold cfg);
              sc = scoreOf scores;
              ranked = ranked_of sc alive;
              eligible = eligible_of sc ranked
          in if eligible = []
             then \<lparr>Leaders = sortIDs [mID (hd ranked)], Size = size, Want = want\<rparr>
             else
              let want' = (if int (length eligible) < want then int (length eligible) else want);
                  chosen = applyHysteresis (take (nat want') eligible) eligible sc (Hysteresis cfg)
              in \<lparr>Leaders = sortIDs (map mID chosen), Size = size, Want = want\<rparr>)"

section \<open>Quorums overlap\<close>

lemma two_quorums:
  assumes "0 < n" "Quorum n \<le> a" "Quorum n \<le> b"
  shows "n < a + b"
  using assms by (simp add: Quorum_def)

section \<open>Leader count\<close>

lemma LeaderCount_bounds: "0 < n \<Longrightarrow> 1 \<le> LeaderCount n th \<and> LeaderCount n th \<le> n"
  by (simp add: LeaderCount_def Let_def)

lemma ceil_int_mono: "Fin x \<le> b \<Longrightarrow> IsValidScore b \<Longrightarrow> ceil_int (Fin x) \<le> ceil_int b"
  by (cases b) (auto simp: ceil_int_def ceiling_mono)

section \<open>The ranking is a total order on IDs\<close>

interpretation ranking: keyed_order "rank_less sc" mID for sc
proof
  fix a b c :: Member
  show "rank_less sc a b \<Longrightarrow> \<not> rank_less sc b a"
    by (auto simp: rank_less_def dest: better.asym split: if_splits)
  show "rank_less sc a c \<Longrightarrow> rank_less sc a b \<or> rank_less sc b c"
    using better.neg_trans[of "sc (mID a)" "sc (mID c)" "sc (mID b)"]
      better.neg_trans[of "sc (mID b)" "sc (mID a)" "sc (mID c)"]
      better.neg_trans[of "sc (mID c)" "sc (mID b)" "sc (mID a)"]
      better.asym[of "sc (mID a)" "sc (mID b)"] better.asym[of "sc (mID b)" "sc (mID c)"]
      better.asym[of "sc (mID a)" "sc (mID c)"]
    by (auto simp: rank_less_def split: if_splits)
  show "mID a \<noteq> mID b \<Longrightarrow> rank_less sc a b \<or> rank_less sc b a"
    by (auto simp: rank_less_def)
qed

lemma ranked_perm:
  assumes "mset xs = mset ys" "distinct (map mID xs)"
  shows "ranked_of sc xs = ranked_of sc ys"
  unfolding ranked_of_def using assms by (rule ranking.sort_by_perm)

lemma set_ranked [simp]: "set (ranked_of sc xs) = set xs"
  and length_ranked [simp]: "length (ranked_of sc xs) = length xs"
  and distinct_ranked [simp]: "distinct (map mID (ranked_of sc xs)) = distinct (map mID xs)"
  by (simp_all add: ranked_of_def)

lemma set_eligible: "set (eligible_of sc ranked) = {m \<in> set ranked. IsValidScore (sc (mID m))}"
  by (auto simp: eligible_of_def)

lemma distinct_eligible: "distinct (map mID ranked) \<Longrightarrow> distinct (map mID (eligible_of sc ranked))"
  by (simp add: eligible_of_def distinct_map_filter)

lemma eligible_ordered: "ranking.ordered sc (eligible_of sc (ranked_of sc xs))"
  by (simp add: eligible_of_def ranked_of_def ranking.ordered_filter ranking.ordered_sort_by)

section \<open>The hysteresis loop\<close>

definition newcomer :: "Member list \<Rightarrow> nat \<Rightarrow> bool" where
  "newcomer chosen i \<longleftrightarrow> i < length chosen \<and> mRole (chosen ! i) \<noteq> RoleLeader"

text \<open>\<open>weakest\<close> returns the first index, among the newcomers, that no newcomer is worse than.\<close>

definition is_weakest :: "(NodeID \<Rightarrow> f64) \<Rightarrow> Member list \<Rightarrow> nat \<Rightarrow> nat \<Rightarrow> bool" where
  "is_weakest sc chosen n w \<longleftrightarrow> w < n \<and> newcomer chosen w \<and>
     (\<forall>j<n. newcomer chosen j \<longrightarrow>
        \<not> Better (sc (mID (chosen ! w))) (sc (mID (chosen ! j))) \<and>
        (j < w \<longrightarrow> Better (sc (mID (chosen ! j))) (sc (mID (chosen ! w)))))"

lemma weakest_prefix:
  assumes "n \<le> length chosen"
  shows "case foldl (weakest_step sc chosen) None [0..<n] of
           None \<Rightarrow> \<forall>j<n. \<not> newcomer chosen j
         | Some w \<Rightarrow> is_weakest sc chosen n w"
  using assms
proof (induction n)
  case 0
  then show ?case by simp
next
  case (Suc n)
  let ?w = "foldl (weakest_step sc chosen) None [0..<n]"
  have IH: "case ?w of None \<Rightarrow> \<forall>j<n. \<not> newcomer chosen j | Some w \<Rightarrow> is_weakest sc chosen n w"
    using Suc by simp
  have n: "n < length chosen" using Suc.prems by simp
  have step: "foldl (weakest_step sc chosen) None [0..<Suc n] = weakest_step sc chosen ?w n"
    by simp
  show ?case
  proof (cases ?w)
    case None
    then have "foldl (weakest_step sc chosen) None [0..<Suc n] =
        (if newcomer chosen n then Some n else None)"
      unfolding step None by (simp add: weakest_step_def newcomer_def n)
    then show ?thesis
      using IH None by (auto simp: is_weakest_def less_Suc_eq better.irrefl)
  next
    case (Some w)
    with IH have w: "is_weakest sc chosen n w" by simp
    show ?thesis
    proof (cases "newcomer chosen n \<and> Better (sc (mID (chosen ! w))) (sc (mID (chosen ! n)))")
      case True
      then have "foldl (weakest_step sc chosen) None [0..<Suc n] = Some n"
        unfolding step Some by (simp add: weakest_step_def newcomer_def)
      moreover have "is_weakest sc chosen (Suc n) n"
        unfolding is_weakest_def
      proof (intro conjI allI impI)
        fix j assume j: "j < Suc n" "newcomer chosen j"
        have b: "Better (sc (mID (chosen ! j))) (sc (mID (chosen ! n)))" if "j < n"
        proof -
          have "\<not> Better (sc (mID (chosen ! w))) (sc (mID (chosen ! j)))"
            using w that j(2) by (simp add: is_weakest_def)
          then show ?thesis using True better.neg_trans by blast
        qed
        then show "\<not> Better (sc (mID (chosen ! n))) (sc (mID (chosen ! j)))"
          using j(1) better.asym better.irrefl by (metis less_Suc_eq)
        show "j < n \<Longrightarrow> Better (sc (mID (chosen ! j))) (sc (mID (chosen ! n)))" by (rule b)
      qed (use True in simp_all)
      ultimately show ?thesis by simp
    next
      case False
      then have "foldl (weakest_step sc chosen) None [0..<Suc n] = Some w"
        unfolding step Some using n by (auto simp: weakest_step_def newcomer_def Let_def)
      moreover have "is_weakest sc chosen (Suc n) w"
        using w False unfolding is_weakest_def by (auto simp: less_Suc_eq)
      ultimately show ?thesis by simp
    qed
  qed
qed

lemma weakest_None: "weakest sc chosen = None \<longleftrightarrow> (\<forall>j. \<not> newcomer chosen j)"
  using weakest_prefix[of "length chosen" chosen sc]
  by (auto simp: weakest_def newcomer_def is_weakest_def split: option.splits)

lemma weakest_Some:
  "weakest sc chosen = Some w \<longleftrightarrow> is_weakest sc chosen (length chosen) w"
proof
  assume "weakest sc chosen = Some w"
  then show "is_weakest sc chosen (length chosen) w"
    using weakest_prefix[of "length chosen" chosen sc] by (simp add: weakest_def)
next
  assume w: "is_weakest sc chosen (length chosen) w"
  then obtain v where v: "weakest sc chosen = Some v"
    using weakest_None[of sc chosen] by (auto simp: is_weakest_def)
  then have v': "is_weakest sc chosen (length chosen) v"
    using weakest_prefix[of "length chosen" chosen sc] by (simp add: weakest_def)
  have "v = w"
    using w v' unfolding is_weakest_def by (meson linorder_neqE_nat)
  then show "weakest sc chosen = Some w" using v by simp
qed

text \<open>\<open>reseat\<close> swaps incumbents in for newcomers: seats and distinctness are kept.\<close>

lemma length_reseat [simp]: "length (reseat sc margin ds chosen) = length chosen"
  by (induction sc margin ds chosen rule: reseat.induct) (auto simp: Let_def split: option.splits)

lemma distinct_update:
  assumes "distinct xs" "y \<notin> set xs"
  shows "distinct (xs[i := y])"
  using assms by (simp add: distinct_list_update)

lemma set_update_ids: "set (map mID (xs[i := m])) \<subseteq> insert (mID m) (set (map mID xs))"
  using set_update_subset_insert[of xs i m] by auto

lemma distinct_swap:
  assumes "distinct (map mID ((inc # ds) @ chosen))"
  shows "distinct (map mID (ds @ chosen[w := inc]))"
proof -
  have "distinct ((map mID chosen)[w := mID inc])"
    using assms by (intro distinct_update) auto
  moreover have sub: "set ((map mID chosen)[w := mID inc]) \<subseteq> insert (mID inc) (mID ` set chosen)"
    using set_update_ids[of chosen w inc] by (simp add: map_update)
  have "mID ` set ds \<inter> set ((map mID chosen)[w := mID inc]) = {}"
  proof -
    have "mID ` set ds \<inter> insert (mID inc) (mID ` set chosen) = {}" using assms by auto
    then show ?thesis using sub by (meson disjoint_iff subsetD)
  qed
  ultimately show ?thesis
    using assms unfolding map_append map_update distinct_append by simp
qed

lemma reseat_ids:
  assumes "distinct (map mID (ds @ chosen))"
  shows "distinct (map mID (reseat sc margin ds chosen))"
    and "set (reseat sc margin ds chosen) \<subseteq> set ds \<union> set chosen"
proof -
  have "distinct (map mID (reseat sc margin ds chosen)) \<and>
        set (reseat sc margin ds chosen) \<subseteq> set ds \<union> set chosen"
    using assms
  proof (induction sc margin ds chosen rule: reseat.induct)
    case (1 sc margin chosen)
    then show ?case by simp
  next
    case (2 sc margin inc ds chosen)
    show ?case
    proof (cases "weakest sc chosen")
      case None
      with 2 show ?thesis by auto
    next
      case (Some w)
      let ?keep = "margin \<le> sc (mID inc) - sc (mID (chosen ! w))"
      have d: "distinct (map mID (ds @ chosen[w := inc]))"
        using "2.prems" by (rule distinct_swap)
      have sub: "set (chosen[w := inc]) \<subseteq> insert inc (set chosen)"
        by (rule set_update_subset_insert)
      show ?thesis
      proof (cases ?keep)
        case True
        then show ?thesis
          using "2.IH"(1)[OF Some refl refl True] "2.prems" Some by (auto simp: Let_def)
      next
        case False
        then show ?thesis
          using "2.IH"(2)[OF Some refl refl False d] sub Some by (auto simp: Let_def)
      qed
    qed
  qed
  then show "distinct (map mID (reseat sc margin ds chosen))"
    and "set (reseat sc margin ds chosen) \<subseteq> set ds \<union> set chosen" by auto
qed

text \<open>
  The margin rule. When the loop ends, an incumbent left without a seat trails every remaining
  newcomer by at least the margin: the newcomer it was compared with was the weakest, later swaps
  only remove newcomers, and binary64 subtraction is monotone.
\<close>

lemma minus_le_minus:
  assumes "IsValidScore a" "IsValidScore b" "\<not> Better b c" "IsValidScore c"
  shows "a - b \<le> a - c"
  using assms by (cases a; cases b; cases c) (simp_all add: f64_minus_mono not_less)

lemma reseat_newcomers:
  assumes "\<forall>d\<in>set ds. mRole d = RoleLeader"
  shows "m \<in> set (reseat sc margin ds chosen) \<Longrightarrow> mRole m \<noteq> RoleLeader \<Longrightarrow> m \<in> set chosen"
  using assms
proof (induction sc margin ds chosen rule: reseat.induct)
  case (2 sc margin inc ds chosen)
  have ne: "m \<noteq> inc" and ds: "\<forall>d\<in>set ds. mRole d = RoleLeader" using "2.prems" by auto
  show ?case
  proof (cases "weakest sc chosen")
    case None
    then show ?thesis using "2.prems" by simp
  next
    case (Some w)
    let ?keep = "margin \<le> sc (mID inc) - sc (mID (chosen ! w))"
    show ?thesis
    proof (cases ?keep)
      case True
      then show ?thesis
        using "2.IH"(1)[OF Some refl refl True _ _ ds] "2.prems" Some by (simp add: Let_def)
    next
      case False
      then have "m \<in> set (chosen[w := inc])"
        using "2.IH"(2)[OF Some refl refl False _ _ ds] "2.prems" Some by (simp add: Let_def)
      then show ?thesis using ne set_update_subset_insert[of chosen w inc] by auto
    qed
  qed
qed simp

lemma reseat_keeps_leader:
  "x \<in> set chosen \<Longrightarrow> mRole x = RoleLeader \<Longrightarrow> x \<in> set (reseat sc margin ds chosen)"
proof (induction sc margin ds chosen rule: reseat.induct)
  case (2 sc margin i ds chosen)
  have "x \<in> set (chosen[w := i])" if "newcomer chosen w" for w
    using 2(3,4) that by (metis in_set_conv_nth length_list_update newcomer_def nth_list_update_neq)
  then show ?case
    using 2 by (auto simp: Let_def weakest_Some is_weakest_def split: option.splits)
qed simp

lemma reseat_margin:
  assumes "\<forall>d\<in>set ds. mRole d = RoleLeader \<and> IsValidScore (sc (mID d))"
    and "\<forall>m\<in>set chosen. IsValidScore (sc (mID m))"
    and "distinct (map mID (ds @ chosen))"
    and "d \<in> set ds" "d \<notin> set (reseat sc margin ds chosen)"
    and "m \<in> set (reseat sc margin ds chosen)" "mRole m \<noteq> RoleLeader"
  shows "margin \<le> sc (mID d) - sc (mID m)"
  using assms
proof (induction sc margin ds chosen rule: reseat.induct)
  case (1 sc margin chosen)
  then show ?case by simp
next
  case (2 sc margin inc ds chosen)
  show ?case
  proof (cases "weakest sc chosen")
    case None
    then have "\<not> newcomer chosen i" for i using weakest_None by blast
    moreover have "m \<in> set chosen" using "2.prems" None by simp
    ultimately show ?thesis using "2.prems"(7) by (auto simp: newcomer_def in_set_conv_nth)
  next
    case (Some w)
    then have w: "is_weakest sc chosen (length chosen) w" by (simp add: weakest_Some)
    let ?keep = "margin \<le> sc (mID inc) - sc (mID (chosen ! w))"
    let ?next = "if ?keep then chosen else chosen[w := inc]"
    have r: "reseat sc margin (inc # ds) chosen = reseat sc margin ds ?next"
      using Some by (simp add: Let_def)
    have nd: "distinct (map mID (ds @ ?next))"
      using "2.prems"(3) distinct_swap[OF "2.prems"(3), of w] by simp
    have nv: "\<forall>m\<in>set ?next. IsValidScore (sc (mID m))"
      using "2.prems"(1,2) set_update_subset_insert[of chosen w inc] by auto
    show ?thesis
    proof (cases "d = inc")
      case False
      then show ?thesis
        using 2 Some nd nv r by (cases ?keep) (simp_all add: Let_def)
    next
      case True
      show ?thesis
      proof (cases ?keep)
        case False
        \<comment> \<open>the incumbent took the seat and nothing removes a leader again\<close>
        have "inc \<in> set (chosen[w := inc])"
          using w by (auto simp: is_weakest_def newcomer_def set_update_memI)
        then have "inc \<in> set (reseat sc margin (inc # ds) chosen)"
          using r False "2.prems"(1) by (auto intro: reseat_keeps_leader)
        then show ?thesis using True "2.prems"(5) by simp
      next
        case keep: True
        have "m \<in> set chosen"
          using "2.prems"(1,6,7) r keep reseat_newcomers[of ds m sc margin chosen] by auto
        then obtain j where j: "j < length chosen" "chosen ! j = m" by (auto simp: in_set_conv_nth)
        then have "\<not> Better (sc (mID (chosen ! w))) (sc (mID m))"
          using w "2.prems"(7) by (auto simp: is_weakest_def newcomer_def)
        moreover have "chosen ! w \<in> set chosen" using w by (simp add: is_weakest_def)
        ultimately have "sc (mID inc) - sc (mID (chosen ! w)) \<le> sc (mID inc) - sc (mID m)"
          using "2.prems"(1,2) \<open>m \<in> set chosen\<close> by (intro minus_le_minus) auto
        then show ?thesis using keep True f64_le_trans by blast
      qed
    qed
  qed
qed

section \<open>Adopting the result is a fixed point\<close>

text \<open>The roles the swarm holds once every node has taken the role an election gave it.\<close>

definition with_roles :: "NodeID set \<Rightarrow> Member \<Rightarrow> Member" where
  "with_roles L m = m\<lparr>mRole := (if mID m \<in> L then RoleLeader else RoleWorker)\<rparr>"

lemma with_roles_simps [simp]:
  "mID (with_roles L m) = mID m" "mState (with_roles L m) = mState m"
  "mRole (with_roles L m) = RoleLeader \<longleftrightarrow> mID m \<in> L"
  by (simp_all add: with_roles_def)

lemma sort_by_map:
  assumes "\<And>a b. lt (f a) (f b) = lt' a b"
  shows "sort_by lt (map f xs) = map f (sort_by lt' xs)"
proof -
  have "insert_by lt (f x) (map f ys) = map f (insert_by lt' x ys)" for x ys
    by (induction ys) (auto simp: assms)
  then show ?thesis by (induction xs) (auto simp: sort_by_Cons)
qed

text \<open>
  Replaying the hysteresis loop with the new roles makes the same swaps: the incumbents that
  failed to win a seat are no longer leaders, and the newcomers still in the way are exactly
  those that were swapped out, in the same order of weakness.
\<close>

lemma reseat_replay:
  assumes "distinct (map mID (ds @ chosen))" "\<forall>d\<in>set ds. mRole d = RoleLeader"
    and "L = mID ` set (reseat sc margin ds chosen)"
  shows "reseat sc margin (map (with_roles L) (filter (\<lambda>d. mID d \<in> L) ds)) (map (with_roles L) chosen)
       = map (with_roles L) (reseat sc margin ds chosen)"
  using assms
proof (induction sc margin ds chosen rule: reseat.induct)
  case (1 sc margin chosen)
  then show ?case by simp
next
  case (2 sc margin inc ds chosen)
  let ?u = "with_roles L"
  show ?case
  proof (cases "weakest sc chosen")
    case None
    then have L: "L = mID ` set chosen" using "2.prems" by simp
    have "filter (\<lambda>d. mID d \<in> L) (inc # ds) = []"
      using "2.prems"(1) unfolding L by (auto simp: filter_empty_conv)
    then have "reseat sc margin (map ?u (filter (\<lambda>d. mID d \<in> L) (inc # ds))) (map ?u chosen) = map ?u chosen"
      by (simp only: list.map reseat.simps)
    then show ?thesis using None by simp
  next
    case (Some w)
    then have w: "is_weakest sc chosen (length chosen) w" by (simp add: weakest_Some)
    let ?keep = "margin \<le> sc (mID inc) - sc (mID (chosen ! w))"
    show ?thesis
    proof (cases ?keep)
      case True
      have d: "distinct (map mID (ds @ chosen))" using "2.prems"(1) by simp
      have R: "reseat sc margin (inc # ds) chosen = reseat sc margin ds chosen"
        using Some True by (simp add: Let_def)
      have "mID inc \<notin> L"
        using reseat_ids(2)[OF d, of sc margin] "2.prems"(1,3) R by auto
      then show ?thesis
        using "2.IH"(1)[OF Some refl refl True d] "2.prems"(2,3) R by simp
    next
      case False
      let ?c = "chosen[w := inc]"
      have d: "distinct (map mID (ds @ ?c))" using "2.prems"(1) by (rule distinct_swap)
      have wl: "w < length chosen" using w by (simp add: is_weakest_def)
      have R: "reseat sc margin (inc # ds) chosen = reseat sc margin ds ?c"
        using Some False by (simp add: Let_def)
      have "inc \<in> set ?c" using wl by (simp add: set_update_memI)
      then have incL: "mID inc \<in> L"
        using reseat_keeps_leader[of inc ?c sc margin ds] "2.prems"(2,3) R by simp
      have out: "mID (chosen ! w) \<notin> L"
      proof
        assume "mID (chosen ! w) \<in> L"
        then have "mID (chosen ! w) \<in> mID ` set ds \<or> mID (chosen ! w) \<in> set (map mID ?c)"
          using reseat_ids(2)[OF d, of sc margin] "2.prems"(3) R by auto
        moreover have cw: "mID (chosen ! w) \<in> mID ` set chosen" using wl by simp
        have ne: "mID (chosen ! w) \<notin> mID ` set ds" "mID (chosen ! w) \<noteq> mID inc"
          using "2.prems"(1) cw by (simp_all add: disjoint_iff) metis+
        moreover note ne
        ultimately have "mID (chosen ! w) \<in> set ((map mID chosen)[w := mID inc])"
          by (simp add: map_update)
        then obtain j where j: "j < length chosen" "(map mID chosen)[w := mID inc] ! j = mID (chosen ! w)"
          by (auto simp: in_set_conv_nth)
        then have "j \<noteq> w" using ne(2) wl by auto
        then have "map mID chosen ! j = map mID chosen ! w" using j wl by simp
        then show False
          using "2.prems"(1) \<open>j \<noteq> w\<close> j(1) wl nth_eq_iff_index_eq[of "map mID chosen" j w] by auto
      qed
      have sub: "newcomer chosen j" if "newcomer (map ?u chosen) j" for j
      proof (rule ccontr)
        assume "\<not> newcomer chosen j"
        with that have j: "j < length chosen" "mRole (chosen ! j) = RoleLeader" "mID (chosen ! j) \<notin> L"
          by (auto simp: newcomer_def)
        then have "j \<noteq> w" using w by (auto simp: is_weakest_def newcomer_def)
        then have "chosen ! j \<in> set ?c" using j(1) by (metis length_list_update nth_list_update_neq nth_mem)
        then have "mID (chosen ! j) \<in> L"
          using reseat_keeps_leader[of "chosen ! j" ?c sc margin ds] j(2) "2.prems"(3) R by simp
        with j(3) show False by simp
      qed
      have nw: "newcomer (map ?u chosen) w" using wl out by (simp add: newcomer_def)
      have sc: "sc (mID (map ?u chosen ! j)) = sc (mID (chosen ! j))" if "j < length chosen" for j
        using that by simp
      have "is_weakest sc (map ?u chosen) (length chosen) w"
        using w sub nw unfolding is_weakest_def by (simp add: sc)
      then have w': "weakest sc (map ?u chosen) = Some w" by (simp add: weakest_Some)
      have IH: "reseat sc margin (map ?u (filter (\<lambda>d. mID d \<in> L) ds)) (map ?u ?c)
          = map ?u (reseat sc margin ds ?c)"
        using "2.IH"(2)[OF Some refl refl False d] "2.prems"(2,3) R by simp
      show ?thesis
        using False incL wl unfolding R IH[symmetric] map_update
        by (simp add: w' Let_def)
    qed
  qed
qed

section \<open>What an election returns\<close>

definition seats :: "View \<Rightarrow> (NodeID, f64) fmap \<Rightarrow> Config \<Rightarrow> Member list" where
  "seats view scores cfg =
     (let sc = scoreOf scores; eligible = eligible_of sc (ranked_of sc (electorate view));
          want = LeaderCount (int (length (electorate view))) (Threshold (Config_withDefaults cfg))
      in applyHysteresis (take (nat (min want (int (length eligible)))) eligible) eligible sc
           (Hysteresis (Config_withDefaults cfg)))"

lemma Elect_Leaders:
  "Leaders (Elect v scores cfg) =
     (if electorate v = [] then []
      else if eligible_of (scoreOf scores) (ranked_of (scoreOf scores) (electorate v)) = []
      then [mID (hd (ranked_of (scoreOf scores) (electorate v)))]
      else sort (map mID (seats v scores cfg)))"
  by (auto simp: Elect_def Let_def seats_def sortIDs_def min_def not_less)

lemma Elect_Size_Want:
  "Size (Elect v scores cfg) = int (length (electorate v))"
  "Want (Elect v scores cfg) = LeaderCount (int (length (electorate v))) (Threshold (Config_withDefaults cfg))"
  by (simp_all add: Elect_def Let_def LeaderCount_def)

lemma displaced_facts:
  fixes k :: nat and sc :: "NodeID \<Rightarrow> f64"
  assumes "distinct (map mID el)"
  defines "ds \<equiv> sort_by (\<lambda>a b. mID a < mID b) (displaced_of sc (take k el) el)"
  shows "distinct (map mID (ds @ take k el))" "set ds \<subseteq> set el"
    "\<forall>d\<in>set ds. mRole d = RoleLeader \<and> IsValidScore (sc (mID d))"
proof -
  have "distinct (map mID (displaced_of sc (take k el) el))"
    using assms(1) by (simp add: displaced_of_def distinct_map_filter)
  moreover have "distinct (map mID (take k el))"
    using assms(1) by (simp add: distinct_take flip: take_map)
  ultimately show "distinct (map mID (ds @ take k el))"
    by (auto simp: ds_def displaced_of_def)
  show "set ds \<subseteq> set el" "\<forall>d\<in>set ds. mRole d = RoleLeader \<and> IsValidScore (sc (mID d))"
    by (auto simp: ds_def displaced_of_def)
qed

lemma applyHysteresis_reseat:
  "applyHysteresis (take k el) el sc margin =
     (if margin \<le> Fin 0 then take k el
      else reseat sc margin (sort_by (\<lambda>a b. mID a < mID b) (displaced_of sc (take k el) el)) (take k el))"
  by (simp add: applyHysteresis_def Let_def)

lemma applyHysteresis_facts:
  fixes k :: nat and sc :: "NodeID \<Rightarrow> f64" and margin :: f64
  assumes "distinct (map mID el)"
  defines "ch \<equiv> applyHysteresis (take k el) el sc margin"
  shows "distinct (map mID ch)" "set ch \<subseteq> set el" "length ch = min k (length el)"
proof -
  let ?ds = "sort_by (\<lambda>a b. mID a < mID b) (displaced_of sc (take k el) el)"
  note d = displaced_facts[OF assms(1), of sc k]
  have "distinct (map mID (take k el))"
    using assms(1) by (simp add: distinct_take flip: take_map)
  then show "distinct (map mID ch)" "set ch \<subseteq> set el" "length ch = min k (length el)"
    using reseat_ids[OF d(1), of sc margin] d(2) set_take_subset[of k el]
    by (auto simp: ch_def applyHysteresis_reseat min.commute)
qed

lemma electorate_distinct: "distinct (map mID (Members v)) \<Longrightarrow> distinct (map mID (electorate v))"
  by (simp add: electorate_def distinct_map_filter)

lemma seats_facts:
  assumes "distinct (map mID (Members v))"
  shows "distinct (map mID (seats v scores cfg))" "set (seats v scores cfg) \<subseteq> set (electorate v)"
    "\<forall>m\<in>set (seats v scores cfg). IsValidScore (scoreOf scores (mID m))"
    "length (seats v scores cfg) = nat (min
       (LeaderCount (int (length (electorate v))) (Threshold (Config_withDefaults cfg)))
       (int (length (eligible_of (scoreOf scores) (electorate v)))))"
proof -
  let ?sc = "scoreOf scores"
  let ?el = "eligible_of ?sc (ranked_of ?sc (electorate v))"
  have d: "distinct (map mID ?el)"
    using electorate_distinct[OF assms] by (intro distinct_eligible) simp
  have len: "length ?el = length (eligible_of ?sc (electorate v))"
    unfolding eligible_of_def ranked_of_def
    by (metis mset_filter mset_sort_by size_mset)
  note f = applyHysteresis_facts[OF d]
  show "distinct (map mID (seats v scores cfg))" "set (seats v scores cfg) \<subseteq> set (electorate v)"
    "\<forall>m\<in>set (seats v scores cfg). IsValidScore (?sc (mID m))"
    using f(1,2) by (auto simp: seats_def Let_def set_eligible, blast+)
  show "length (seats v scores cfg) = nat (min
       (LeaderCount (int (length (electorate v))) (Threshold (Config_withDefaults cfg)))
       (int (length (eligible_of ?sc (electorate v)))))"
    by (simp add: seats_def Let_def f(3) len min_def nat_le_iff)
qed

lemma sort_by_ID_filter:
  assumes "distinct (map mID xs)"
  shows "sort_by (\<lambda>a b. mID a < mID b) (filter P xs) = filter P (sort_by (\<lambda>a b. mID a < mID b) xs)"
proof (rule by_ID.ordered_unique)
  show "mset (sort_by (\<lambda>a b. mID a < mID b) (filter P xs)) = mset (filter P (sort_by (\<lambda>a b. mID a < mID b) xs))"
    by (simp only: mset_sort_by mset_filter)
  show "distinct (map mID (sort_by (\<lambda>a b. mID a < mID b) (filter P xs)))"
    using assms by (simp add: distinct_map_filter)
qed (simp_all only: by_ID.ordered_sort_by by_ID.ordered_filter)

lemma displaced_replay:
  assumes d: "distinct (map mID el)" and LE: "L \<subseteq> mID ` (set ds \<union> set (take k el))"
    and ds: "set ds = set (displaced_of sc (take k el) el)"
  shows "displaced_of sc (take k (map (with_roles L) el)) (map (with_roles L) el) =
         map (with_roles L) (filter (\<lambda>m. mID m \<in> L) (displaced_of sc (take k el) el))"
proof -
  have same: "m = c" if "m \<in> set el" "c \<in> set el" "mID m = mID c" for m c
    using d that by (simp add: distinct_map inj_on_def)
  have "m \<in> set (displaced_of sc (take k el) el)"
    if "m \<in> set el" "mID m \<in> L" "mID m \<notin> mID ` set (take k el)" for m
  proof -
    have "mID m \<in> mID ` set ds" using that LE unfolding image_Un by blast
    then obtain c where "c \<in> set ds" "mID c = mID m" by force
    moreover from this(1) have "c \<in> set el" using ds by (auto simp: displaced_of_def)
    ultimately show ?thesis using same[of m c] that(1) ds by metis
  qed
  then have eq: "(mID m \<in> L \<and> mID m \<notin> mID ` set (take k el) \<and> IsValidScore (sc (mID m))) =
      (mID m \<in> L \<and> mRole m = RoleLeader \<and> mID m \<notin> mID ` set (take k el) \<and> IsValidScore (sc (mID m)))"
    if "m \<in> set el" for m
    using that by (force simp: displaced_of_def)
  have "displaced_of sc (take k (map (with_roles L) el)) (map (with_roles L) el) =
      map (with_roles L) (filter (\<lambda>m. mID m \<in> L \<and> mID m \<notin> mID ` set (take k el) \<and>
        IsValidScore (sc (mID m))) el)"
    by (simp add: displaced_of_def take_map filter_map image_image o_def)
  also have "\<dots> = map (with_roles L) (filter (\<lambda>m. mID m \<in> L \<and> mRole m = RoleLeader \<and>
        mID m \<notin> mID ` set (take k el) \<and> IsValidScore (sc (mID m))) el)"
    using eq by (intro arg_cong[where f = "map (with_roles L)"] filter_cong) simp_all
  also have "\<dots> = map (with_roles L) (filter (\<lambda>m. mID m \<in> L) (displaced_of sc (take k el) el))"
    by (simp add: displaced_of_def conj_ac)
  finally show ?thesis .
qed

lemma applyHysteresis_replay:
  assumes d: "distinct (map mID el)"
    and L: "L = mID ` set (applyHysteresis (take k el) el sc margin)"
  shows "applyHysteresis (take k (map (with_roles L) el)) (map (with_roles L) el) sc margin =
         map (with_roles L) (applyHysteresis (take k el) el sc margin)"
proof (cases "margin \<le> Fin 0")
  case True
  then show ?thesis unfolding applyHysteresis_reseat by (simp add: take_map)
next
  case False
  let ?ds = "sort_by (\<lambda>a b. mID a < mID b) (displaced_of sc (take k el) el)"
  note f = displaced_facts[OF d, of sc k]
  have R: "applyHysteresis (take k el) el sc margin = reseat sc margin ?ds (take k el)"
    using False by (simp add: applyHysteresis_reseat)
  have LE: "L \<subseteq> mID ` (set ?ds \<union> set (take k el))"
    using reseat_ids(2)[OF f(1), of sc margin] unfolding L R by auto
  have dd: "distinct (map mID (displaced_of sc (take k el) el))"
    using d by (simp add: displaced_of_def distinct_map_filter)
  have "sort_by (\<lambda>a b. mID a < mID b)
      (displaced_of sc (take k (map (with_roles L) el)) (map (with_roles L) el)) =
      map (with_roles L) (filter (\<lambda>m. mID m \<in> L) ?ds)"
    by (simp add: displaced_replay[OF d LE] sort_by_map[of _ _ "\<lambda>a b. mID a < mID b"] sort_by_ID_filter[OF dd])
  moreover have "reseat sc margin (map (with_roles L) (filter (\<lambda>m. mID m \<in> L) ?ds))
      (map (with_roles L) (take k el)) = map (with_roles L) (reseat sc margin ?ds (take k el))"
    using f(3) L R by (intro reseat_replay[OF f(1)]) simp_all
  ultimately show ?thesis
    using False unfolding R unfolding applyHysteresis_reseat by (simp add: take_map)
qed

section \<open>Properties\<close>

text \<open>A three-node swarm used by the witnesses: \<open>a\<close> leads with score 5, \<open>b\<close> is a worker with score 4,
  \<open>c\<close> a worker nobody could measure.\<close>

definition ex_member :: "NodeID \<Rightarrow> Role \<Rightarrow> f64 \<Rightarrow> Member" where
  "ex_member i r s = \<lparr>mID = i, mAddr = i, mRole = r, mState = StateAlive, mIncarnation = 1,
     mScore = s, mSeq = 1\<rparr>"

definition ex_view :: View where
  "ex_view = \<lparr>Members = [ex_member ''a'' RoleLeader (Fin 5), ex_member ''b'' RoleWorker (Fin 4),
     ex_member ''c'' RoleWorker NaN], vVersion = 3\<rparr>"

definition ex_scores :: "(NodeID, f64) fmap" where
  "ex_scores = View_Scores ex_view"

definition ex_cfg :: Config where
  "ex_cfg = \<lparr>Threshold = DefaultThreshold, Hysteresis = DefaultHysteresis\<rparr>"

lemma ex_view_ok: "distinct (map mID (Members ex_view))"
    "\<forall>m\<in>set (Members ex_view). mState m = StateAlive"
  by (simp_all add: ex_view_def ex_member_def)

text \<open>C2: An election staffs the swarm: its leaders are distinct and sorted members of the electorate,
  there is at least one as soon as the electorate is not empty, the wanted count lies between 1
  and N, and the number of leaders is that count capped by the measurable candidates (or the one
  fallback leader when nobody is measurable).\<close>

theorem elect_staffed:
  assumes "distinct (map mID (Members v))" and "r = Elect v scores cfg"
    and "n = length (eligible_of (scoreOf scores) (electorate v))"
  shows "sorted_wrt (<) (Leaders r) \<and> set (Leaders r) \<subseteq> mID ` set (electorate v) \<and>
    (Leaders r = [] \<longleftrightarrow> electorate v = []) \<and> Size r = int (length (electorate v)) \<and>
    (electorate v \<noteq> [] \<longrightarrow> 1 \<le> Want r \<and> Want r \<le> Size r \<and>
       int (length (Leaders r)) = (if n = 0 then 1 else min (Want r) (int n)))"
proof -
  let ?sc = "scoreOf scores"
  let ?ranked = "ranked_of ?sc (electorate v)"
  note f = seats_facts[OF assms(1), of scores cfg]
  have len: "length (eligible_of ?sc ?ranked) = n"
    unfolding assms(3) eligible_of_def ranked_of_def by (metis mset_filter mset_sort_by size_mset)
  have W: "electorate v \<noteq> [] \<Longrightarrow> 1 \<le> Want r \<and> Want r \<le> Size r"
    using LeaderCount_bounds[of "int (length (electorate v))"]
    by (simp add: assms(2) Elect_Size_Want)
  have hd: "electorate v \<noteq> [] \<Longrightarrow> hd ?ranked \<in> set (electorate v)"
    by (metis hd_in_set length_0_conv length_ranked set_ranked)
  consider "electorate v = []" | "electorate v \<noteq> []" "n = 0" | "electorate v \<noteq> []" "0 < n" by auto
  then show ?thesis
  proof cases
    case 1
    then show ?thesis by (simp add: assms(2) Elect_Leaders Elect_Size_Want)
  next
    case 2
    then show ?thesis using W hd len by (auto simp: assms(2) Elect_Leaders Elect_Size_Want)
  next
    case 3
    then have "eligible_of ?sc ?ranked \<noteq> []" using len by auto
    then have L: "Leaders r = sort (map mID (seats v scores cfg))"
      using 3 by (simp add: assms(2) Elect_Leaders)
    have "int (length (seats v scores cfg)) = min (Want r) (int n)"
      using f(4) W 3 by (simp add: assms(2,3) Elect_Size_Want)
    moreover have "0 < int (length (seats v scores cfg))"
      unfolding calculation using W[OF 3(1)] 3(2) by (simp only: min_less_iff_conj) simp
    then have "sort (map mID (seats v scores cfg)) \<noteq> []"
      by (auto dest: arg_cong[where f = set])
    moreover have "set (Leaders r) \<subseteq> mID ` set (electorate v)"
      using f(2) unfolding L by auto
    ultimately show ?thesis
      using L W 3 f(1) by (simp add: strict_sorted_iff assms(2) Elect_Size_Want)
  qed
qed

theorem elect_staffed_witness:
  "Leaders (Elect ex_view ex_scores ex_cfg) \<noteq> [] \<and> 1 \<le> Want (Elect ex_view ex_scores ex_cfg)"
  using elect_staffed[OF ex_view_ok(1) refl refl, of ex_scores ex_cfg]
  by (simp add: electorate_def ex_view_def ex_member_def)

text \<open>The election does not depend on the order in which the members are enumerated, nor on
  anything but the members, the scores and the configuration: two nodes holding the same records
  elect the same leaders.\<close>

theorem elect_order_independent:
  assumes "distinct (map mID (Members v))" and "mset (Members v) = mset (Members v')"
  shows "Elect v scores cfg = Elect v' scores cfg"
proof -
  have m: "mset (electorate v) = mset (electorate v')"
    using assms(2) by (simp add: electorate_def)
  then have len: "length (electorate v) = length (electorate v')" by (metis size_mset)
  have r: "ranked_of sc (electorate v) = ranked_of sc (electorate v')" for sc
    using m electorate_distinct[OF assms(1)] by (rule ranked_perm)
  have e: "electorate v = [] \<longleftrightarrow> electorate v' = []" using len by (metis length_0_conv)
  show ?thesis unfolding Elect_def Let_def r len e by (rule refl)
qed

theorem elect_order_independent_witness:
  "Elect (ex_view\<lparr>Members := rev (Members ex_view)\<rparr>) ex_scores ex_cfg = Elect ex_view ex_scores ex_cfg"
  using elect_order_independent[OF ex_view_ok(1), of "ex_view\<lparr>Members := rev (Members ex_view)\<rparr>"]
  by simp


lemma ex_elected: "Leaders (Elect ex_view ex_scores ex_cfg) = [''b'']"
  by code_simp


text \<open>Elections settle: once every alive node has taken the role an election gave it, running the
  election again on the same scores returns the same leaders, hysteresis included. Leadership
  moves only when a score or the membership does.\<close>

theorem elect_fixpoint:
  assumes "distinct (map mID (Members v))" and "\<forall>m\<in>set (Members v). mState m = StateAlive"
    and "L = set (Leaders (Elect v scores cfg))"
  shows "Leaders (Elect (v\<lparr>Members := map (with_roles L) (Members v)\<rparr>) scores cfg) =
         Leaders (Elect v scores cfg)"
proof -
  let ?sc = "scoreOf scores" and ?u = "with_roles L"
  let ?v' = "v\<lparr>Members := map ?u (Members v)\<rparr>"
  let ?el = "eligible_of ?sc (ranked_of ?sc (electorate v))"
  have e: "electorate v = Members v" using assms(2) by (simp add: electorate_def)
  have e': "electorate ?v' = map ?u (electorate v)"
    using assms(2) by (simp add: electorate_def filter_map o_def)
  have r': "ranked_of ?sc (electorate ?v') = map ?u (ranked_of ?sc (electorate v))"
    unfolding e' ranked_of_def by (rule sort_by_map) (simp add: rank_less_def)
  have el': "eligible_of ?sc (ranked_of ?sc (electorate ?v')) = map ?u ?el"
    unfolding r' by (simp add: eligible_of_def filter_map o_def)
  have dist: "distinct (map mID ?el)"
    using electorate_distinct[OF assms(1)] by (intro distinct_eligible) simp
  show ?thesis
  proof (cases "electorate v = [] \<or> ?el = []")
    case True
    then show ?thesis
    proof (cases "electorate v = []")
      case False
      then have "ranked_of ?sc (electorate v) \<noteq> []" by (metis length_0_conv length_ranked)
      then show ?thesis
        using True False r'[unfolded e'] unfolding Elect_Leaders el' by (simp add: e' hd_map)
    qed (simp add: Elect_Leaders e')
  next
    case False
    then have L: "L = mID ` set (seats v scores cfg)" using assms(3) by (simp add: Elect_Leaders)
    have "seats ?v' scores cfg = map ?u (seats v scores cfg)"
      using L unfolding seats_def Let_def el'[unfolded e'] e' length_map
      by (intro applyHysteresis_replay[OF dist])
    then have "map mID (seats ?v' scores cfg) = map mID (seats v scores cfg)" by (simp add: o_def)
    then show ?thesis using False unfolding Elect_Leaders e' el'[unfolded e'] by simp
  qed
qed

theorem elect_fixpoint_witness:
  "Leaders (Elect (ex_view\<lparr>Members := map (with_roles {''b''}) (Members ex_view)\<rparr>) ex_scores ex_cfg)
   = [''b'']"
  using elect_fixpoint[OF ex_view_ok refl, of ex_scores ex_cfg] by (simp add: ex_elected)

text \<open>An election without incumbents picks the best: when nobody sits on a seat, no node left out has a
  better score than an elected one (equal scores go to the lower ID), and nobody unmeasurable is
  elected while somebody is measurable.\<close>

theorem elect_picks_best:
  assumes "distinct (map mID (Members v))" and "\<forall>m\<in>set (electorate v). mRole m \<noteq> RoleLeader"
    and "\<exists>m\<in>set (electorate v). IsValidScore (scoreOf scores (mID m))"
    and "m \<in> set (electorate v)" "mID m \<in> set (Leaders (Elect v scores cfg))"
    and "d \<in> set (electorate v)" "mID d \<notin> set (Leaders (Elect v scores cfg))"
  shows "IsValidScore (scoreOf scores (mID m)) \<and> \<not> rank_less (scoreOf scores) d m"
proof -
  let ?sc = "scoreOf scores"
  let ?el = "eligible_of ?sc (ranked_of ?sc (electorate v))"
  have ne: "?el \<noteq> []" "electorate v \<noteq> []"
    using assms(3) by (auto simp: set_eligible filter_empty_conv eligible_of_def)
  have "displaced_of ?sc ch ?el = []" for ch
    using assms(2) by (auto simp: displaced_of_def filter_empty_conv set_eligible)
  then obtain k where S: "seats v scores cfg = take k ?el"
    unfolding seats_def Let_def applyHysteresis_reseat by simp
  have L: "set (Leaders (Elect v scores cfg)) = mID ` set (take k ?el)"
    using ne by (simp add: Elect_Leaders S)
  have same: "a = b" if "a \<in> set (electorate v)" "b \<in> set (electorate v)" "mID a = mID b" for a b
    using electorate_distinct[OF assms(1)] that by (simp add: distinct_map inj_on_def)
  obtain m' where "m' \<in> set (take k ?el)" "mID m' = mID m" using assms(5) L by auto
  moreover from this have "m' \<in> set (electorate v)" by (auto simp: set_eligible dest: in_set_takeD)
  ultimately have m: "m \<in> set (take k ?el)" using same[of m' m] assms(4) by simp
  then have valid: "IsValidScore (?sc (mID m))" by (auto simp: set_eligible dest: in_set_takeD)
  show ?thesis
  proof (cases "IsValidScore (?sc (mID d))")
    case True
    then have "d \<in> set ?el" using assms(6) by (simp add: set_eligible)
    moreover have "d \<notin> set (take k ?el)" using assms(7) L by auto
    ultimately have "d \<in> set (drop k ?el)" by (metis Un_iff append_take_drop_id set_append)
    then show ?thesis using ranking.ordered_take_drop[OF eligible_ordered m] valid by simp
  next
    case False
    then show ?thesis using valid by (simp add: rank_less_def)
  qed
qed

theorem elect_picks_best_witness:
  "\<not> rank_less (scoreOf ex_scores) (ex_member ''c'' RoleWorker NaN) (ex_member ''b'' RoleWorker (Fin 4))"
proof -
  let ?v = "\<lparr>Members = [ex_member ''b'' RoleWorker (Fin 4), ex_member ''c'' RoleWorker NaN], vVersion = 0\<rparr>"
  have e: "set (electorate ?v) = {ex_member ''b'' RoleWorker (Fin 4), ex_member ''c'' RoleWorker NaN}"
    by (simp add: electorate_def ex_member_def)
  have L: "Leaders (Elect ?v ex_scores ex_cfg) = [''b'']" by code_simp
  have s: "scoreOf ex_scores ''b'' = Fin 4" by code_simp
  have d: "distinct (map mID (Members ?v))" by (simp add: ex_member_def)
  show ?thesis
    using elect_picks_best[OF d, of ex_scores "ex_member ''b'' RoleWorker (Fin 4)" ex_cfg
        "ex_member ''c'' RoleWorker NaN"] L s
    by (simp add: e) (simp add: ex_member_def)
qed

text \<open>C22: A partition cannot leave two healthy halves: of two disjoint groups of a swarm of at least two
  nodes, at most one reaches quorum, so at least one knows it is degraded; and a majority side is
  never degraded.\<close>

theorem partition_at_most_one_healthy:
  assumes "2 \<le> n" and "0 < a" "0 < b" and "a + b \<le> n"
  shows "(Degraded a n \<or> Degraded b n) \<and> (n < 2 * a \<longrightarrow> \<not> Degraded a n)"
  using assms by (simp add: Degraded_def Quorum_def) linarith

theorem partition_at_most_one_healthy_witness:
  "Degraded 2 5 \<or> Degraded 3 5"
  using partition_at_most_one_healthy[of 5 2 3] by simp

text \<open>The leader count is the ceiling of the binary64 product, which can exceed the ceiling of the
  decimal product: with the threshold written 0.55, a swarm of 100 elects 56 leaders and not 55.\<close>

theorem leader_count_rounds_up:
  "LeaderCount 100 (f64_of_rat (55 / 100)) = 56 \<and> \<lceil>100 * (55 / 100 :: rat)\<rceil> = 55"
proof
  show "LeaderCount 100 (f64_of_rat (55 / 100)) = 56" by code_simp
qed simp

end
