(* ===== verification/Affinity.thy ===== *)
theory Affinity
  imports Election
begin

text \<open>
  Affinity clustering, \<open>pkg/cluster/affinity.go\<close>: which elected leader a worker joins, and when an
  attached worker may move. \<open>ChooseLeader\<close> is the loop of the source over the leader list;
  \<open>ShouldRehome\<close> its damped move rule.
\<close>

section \<open>Definitions\<close>

definition contains :: "NodeID list \<Rightarrow> NodeID \<Rightarrow> bool" where
  "contains ids i = list_ex (\<lambda>x. x = i) ids"

text \<open>One iteration of the loop; the state is \<open>(best, bestScore)\<close> once one is found.\<close>

definition choose_step ::
  "(NodeID, f64) fmap \<Rightarrow> (NodeID \<times> f64) option \<Rightarrow> NodeID \<Rightarrow> (NodeID \<times> f64) option" where
  "choose_step scores acc i =
     (case fmlookup scores i of
        None \<Rightarrow> acc
      | Some s \<Rightarrow>
          if \<not> IsValidScore s then acc
          else case acc of
            None \<Rightarrow> Some (i, s)
          | Some (best, bestScore) \<Rightarrow>
              if Better s bestScore then Some (i, s)
              else if \<not> Better bestScore s \<and> i < best then Some (i, s)
              else acc)"

definition ChooseLeader :: "(NodeID, f64) fmap \<Rightarrow> NodeID list \<Rightarrow> NodeID option" where
  "ChooseLeader scores leaders = map_option fst (foldl (choose_step scores) None leaders)"

definition ShouldRehome ::
  "NodeID \<Rightarrow> NodeID \<Rightarrow> (NodeID, f64) fmap \<Rightarrow> NodeID list \<Rightarrow> f64 \<Rightarrow> bool" where
  "ShouldRehome current best scores leaders margin0 =
     (let margin = (if margin0 < Fin 0 \<or> margin0 = NaN then Fin 0 else margin0) in
      case fmlookup scores best of
        None \<Rightarrow> False
      | Some bestScore \<Rightarrow>
          if \<not> IsValidScore bestScore \<or> \<not> contains leaders best then False
          else if best = current then False
          else case fmlookup scores current of
              None \<Rightarrow> True
            | Some curScore \<Rightarrow>
                if \<not> IsValidScore curScore \<or> \<not> contains leaders current then True
                else Better bestScore curScore \<and> margin \<le> curScore - bestScore)"

lemma contains_iff [simp]: "contains ids i \<longleftrightarrow> i \<in> set ids"
  by (auto simp: contains_def list_ex_iff)

section \<open>The loop picks the least key\<close>

text \<open>The pair the loop minimises: score first, then ID.\<close>

definition eligible_leader :: "(NodeID, f64) fmap \<Rightarrow> NodeID list \<Rightarrow> NodeID \<Rightarrow> rat \<Rightarrow> bool" where
  "eligible_leader scores leaders i x \<longleftrightarrow> i \<in> set leaders \<and> fmlookup scores i = Some (Fin x)"

definition is_best :: "(NodeID, f64) fmap \<Rightarrow> NodeID list \<Rightarrow> NodeID \<Rightarrow> rat \<Rightarrow> bool" where
  "is_best scores leaders i x \<longleftrightarrow> eligible_leader scores leaders i x \<and>
     (\<forall>j y. eligible_leader scores leaders j y \<longrightarrow> x < y \<or> x = y \<and> i \<le> j)"

lemma eligible_snoc:
  "eligible_leader scores (ls @ [l]) i x \<longleftrightarrow>
   eligible_leader scores ls i x \<or> i = l \<and> fmlookup scores l = Some (Fin x)"
  by (auto simp: eligible_leader_def)

lemma choose_fold:
  "case foldl (choose_step scores) None ls of
     None \<Rightarrow> \<forall>i x. \<not> eligible_leader scores ls i x
   | Some (b, s) \<Rightarrow> \<exists>x. s = Fin x \<and> is_best scores ls b x"
proof (induction ls rule: rev_induct)
  case Nil
  then show ?case by (simp add: eligible_leader_def)
next
  case (snoc l ls)
  let ?acc = "foldl (choose_step scores) None ls"
  show ?case
  proof (cases "\<exists>y. fmlookup scores l = Some (Fin y)")
    case False
    then have "choose_step scores ?acc l = ?acc"
      by (auto simp: choose_step_def split: option.splits elim: IsValidScoreE)
    moreover have e: "eligible_leader scores (ls @ [l]) = eligible_leader scores ls"
      using False by (intro ext) (auto simp: eligible_snoc)
    moreover have "is_best scores (ls @ [l]) = is_best scores ls"
      unfolding is_best_def[abs_def] e ..
    ultimately show ?thesis using snoc.IH by (simp split: option.splits prod.splits)
  next
    case True
    then obtain y where y: "fmlookup scores l = Some (Fin y)" by blast
    show ?thesis
    proof (cases ?acc)
      case None
      then have ne: "\<not> eligible_leader scores ls i x" for i x using snoc.IH by simp
      have "choose_step scores ?acc l = Some (l, Fin y)"
        unfolding None using y by (simp add: choose_step_def)
      moreover have "is_best scores (ls @ [l]) l y"
        using ne y by (auto simp: is_best_def eligible_snoc)
      ultimately show ?thesis by simp
    next
      case (Some p)
      then obtain b x where acc: "?acc = Some (b, Fin x)" and best: "is_best scores ls b x"
        using snoc.IH by (cases p) auto
      have step: "choose_step scores ?acc l =
          (if y < x \<or> y = x \<and> l < b then Some (l, Fin y) else Some (b, Fin x))"
        using y acc by (auto simp: choose_step_def)
      show ?thesis
      proof (cases "y < x \<or> y = x \<and> l < b")
        case True
        then have "is_best scores (ls @ [l]) l y"
          using best y unfolding is_best_def eligible_snoc by fastforce
        then show ?thesis using step True by simp
      next
        case False
        then have "is_best scores (ls @ [l]) b x"
          using best y unfolding is_best_def eligible_snoc by fastforce
        then show ?thesis using step False by simp
      qed
    qed
  qed
qed

lemma ChooseLeader_Some:
  "ChooseLeader scores ls = Some b \<longleftrightarrow> (\<exists>x. is_best scores ls b x)"
proof -
  have unique: "b = b'" if "is_best scores ls b x" "is_best scores ls b' x'" for b b' x x'
    using that unfolding is_best_def by fastforce
  show ?thesis
    using choose_fold[of scores ls] unique
    by (auto simp: ChooseLeader_def split: option.splits) (auto simp: is_best_def)
qed

section \<open>Properties\<close>

definition ex_map :: "(NodeID, f64) fmap" where
  "ex_map = fmupd ''a'' (Fin 4) (fmupd ''b'' (Fin 3) (fmupd ''c'' NaN fmempty))"

text \<open>ChooseLeader returns the measurable leader with the best score, the lowest ID among equals, and
  returns none exactly when no leader is measurable: a leader nobody could measure is never joined.\<close>

theorem choose_leader_best:
  "case ChooseLeader scores leaders of
     None \<Rightarrow> \<forall>i s. i \<in> set leaders \<and> fmlookup scores i = Some s \<longrightarrow> \<not> IsValidScore s
   | Some b \<Rightarrow> b \<in> set leaders \<and> (\<exists>s. fmlookup scores b = Some s \<and> IsValidScore s \<and>
       (\<forall>j s'. j \<in> set leaders \<and> fmlookup scores j = Some s' \<longrightarrow>
          \<not> Better s' s \<and> (IsValidScore s' \<and> \<not> Better s s' \<longrightarrow> b \<le> j)))"
proof (cases "ChooseLeader scores leaders")
  case None
  then have "\<not> eligible_leader scores leaders i x" for i x
    using choose_fold[of scores leaders] by (auto simp: ChooseLeader_def split: option.splits)
  then show ?thesis
    using None by (auto simp: eligible_leader_def elim!: IsValidScoreE)
next
  case (Some b)
  then obtain x where b: "is_best scores leaders b x" using ChooseLeader_Some by blast
  have "\<not> Better s' (Fin x) \<and> (IsValidScore s' \<and> \<not> Better (Fin x) s' \<longrightarrow> b \<le> j)"
    if "j \<in> set leaders" "fmlookup scores j = Some s'" for j s'
  proof (cases s')
    case (Fin y)
    then have "x < y \<or> x = y \<and> b \<le> j"
      using b that unfolding is_best_def eligible_leader_def by blast
    then show ?thesis using Fin by auto
  qed simp_all
  then show ?thesis
    using Some b by (auto simp: is_best_def eligible_leader_def)
qed

theorem choose_leader_best_witness:
  "ChooseLeader ex_map [''a'', ''b'', ''c''] = Some ''b'' \<and>
   \<not> Better (Fin 4) (Fin 3)"
proof -
  have "ChooseLeader ex_map [''a'', ''b'', ''c''] = Some ''b''" by code_simp
  then show ?thesis
    using choose_leader_best[where scores = ex_map and leaders = "[''a'', ''b'', ''c'']"]
    by (simp add: ex_map_def)
qed

text \<open>The choice is a function of the leader set: two workers that enumerate the same leaders in
  different orders, or with repetitions, join the same one.\<close>

theorem choose_leader_order_independent:
  assumes "set leaders = set leaders'"
  shows "ChooseLeader scores leaders = ChooseLeader scores leaders'"
proof -
  have "is_best scores leaders = is_best scores leaders'"
    using assms by (intro ext) (simp add: is_best_def eligible_leader_def)
  then have "ChooseLeader scores leaders = Some b \<longleftrightarrow> ChooseLeader scores leaders' = Some b" for b
    by (simp add: ChooseLeader_Some)
  then show ?thesis by (metis not_Some_eq)
qed

theorem choose_leader_order_independent_witness:
  "ChooseLeader ex_map [''a'', ''b''] = ChooseLeader ex_map [''b'', ''a'', ''b'']"
  by (rule choose_leader_order_independent) auto

text \<open>A worker cannot ping-pong: between two leaders that are both measurable and both elected, at most
  one direction of the move is allowed, and none is when the scores differ by less than the
  margin; but a worker always leaves a leader that lost its seat or its score when a usable
  destination exists.\<close>

theorem rehome_damped:
  assumes "fmlookup scores a = Some x" "IsValidScore x" "a \<in> set leaders"
    and "fmlookup scores b = Some y" "IsValidScore y" "b \<in> set leaders"
  shows "\<not> (ShouldRehome a b scores leaders margin \<and> ShouldRehome b a scores leaders margin) \<and>
    (ShouldRehome a b scores leaders margin \<longrightarrow> Better y x \<and> (margin \<le> x - y \<or> margin < Fin 0 \<or> margin = NaN)) \<and>
    (a \<noteq> b \<and> c \<noteq> b \<and> (c \<notin> set leaders \<or> fmlookup scores c = None) \<longrightarrow>
       ShouldRehome c b scores leaders margin)"
  using assms better.asym[of x y]
  by (auto simp: ShouldRehome_def Let_def split: option.splits if_splits)

theorem rehome_damped_witness:
  "ShouldRehome ''z'' ''b'' ex_map [''a'', ''b''] (Fin 2) \<and> \<not> ShouldRehome ''b'' ''a'' ex_map [''a'', ''b''] (Fin 0)"
  using rehome_damped[of ex_map "''a''" "Fin 4" "[''a'', ''b'']" "''b''" "Fin 3" "Fin 2" "''z''"]
    rehome_damped[of ex_map "''b''" "Fin 3" "[''a'', ''b'']" "''a''" "Fin 4" "Fin 0" "''z''"]
  by (simp add: ex_map_def)

end
