(* ===== verification/Json.thy ===== *)
theory Json
  imports Float64 "HOL-Library.Monad_Syntax"
begin

text \<open>
  What the program uses of \<open>encoding/json\<close>: JSON values, the text \<open>json.Marshal\<close> writes for a
  value, and the rules by which \<open>json.Unmarshal\<close> fills Go values. A number literal without
  fraction or exponent is a \<open>JInt\<close> (only those decode into Go integers); any other literal is a
  \<open>JDec\<close>, represented by the binary64 it denotes, which is all a Go \<open>float64\<close> field keeps of it.
  Strings are byte strings assumed to be valid UTF-8, so bytes above 127 are written verbatim.
  A decoder takes the value already held and the JSON value: \<open>null\<close> leaves the former in place.
\<close>

datatype json = JNull | JBool bool | JInt int | JDec f64 | JStr string | JArr "json list"
  | JObj "(string \<times> json) list"

section \<open>Rendering\<close>

definition digit :: "nat \<Rightarrow> char" where
  "digit n = char_of (48 + n mod 10)"

fun nat_digits :: "nat \<Rightarrow> string" where
  "nat_digits n = (if n < 10 then [digit n] else nat_digits (n div 10) @ [digit n])"

declare nat_digits.simps [simp del]

definition render_int :: "int \<Rightarrow> string" where
  "render_int i = (if i < 0 then ''-'' @ nat_digits (nat (- i)) else nat_digits (nat i))"

definition hex_digit :: "nat \<Rightarrow> char" where
  "hex_digit n = (if n < 10 then char_of (48 + n) else char_of (87 + n))"

text \<open>The HTML-safe escaping \<open>json.Marshal\<close> applies to one byte of a string.\<close>

definition esc_char :: "char \<Rightarrow> string" where
  "esc_char c =
     (if c = CHR 0x22 then [CHR 0x5C, CHR 0x22]
      else if c = CHR 0x5C then [CHR 0x5C, CHR 0x5C]
      else if c = CHR 0x08 then [CHR 0x5C, CHR ''b'']
      else if c = CHR 0x0C then [CHR 0x5C, CHR ''f'']
      else if c = CHR 0x0A then [CHR 0x5C, CHR ''n'']
      else if c = CHR 0x0D then [CHR 0x5C, CHR ''r'']
      else if c = CHR 0x09 then [CHR 0x5C, CHR ''t'']
      else if of_char c < (32 :: nat) \<or> c = CHR ''<'' \<or> c = CHR ''>'' \<or> c = CHR ''&''
      then [CHR 0x5C, CHR ''u'', CHR ''0'', CHR ''0'', hex_digit (of_char c div 16), hex_digit (of_char c mod 16)]
      else [c])"

definition render_str :: "string \<Rightarrow> string" where
  "render_str s = [CHR 0x22] @ concat (map esc_char s) @ [CHR 0x22]"

text \<open>
  \<open>strconv.FormatFloat\<close> with the shortest precision, in the layout \<open>encoding/json\<close> chooses:
  positional between 1e-6 and 1e21, scientific outside.
\<close>

definition log10_floor :: "rat \<Rightarrow> int" where
  "log10_floor x =
     (let up = length (filter (\<lambda>k. (10 :: rat) ^ Suc k \<le> x) [0..<310]);
          down = length (filter (\<lambda>k. x < (1 / 10 :: rat) ^ k) [0..<330])
      in if 1 \<le> x then int up else - int down)"

definition p10 :: "int \<Rightarrow> rat" where
  "p10 e = (if 0 \<le> e then 10 ^ nat e else (1 / 10) ^ nat (- e))"

fun shortest_from :: "rat \<Rightarrow> int \<Rightarrow> nat \<Rightarrow> nat \<Rightarrow> nat \<times> int" where
  "shortest_from x e p 0 = (nat \<lfloor>x / p10 (e - int p + 1)\<rfloor>, e - int p + 1)"
| "shortest_from x e p (Suc fuel) =
     (let s = p10 (e - int p + 1); lo = \<lfloor>x / s\<rfloor>; hi = lo + 1;
          ok = (\<lambda>m. f64_of_rat (of_int m * s) = Fin x);
          near_lo = (x - of_int lo * s \<le> of_int hi * s - x)
      in if near_lo \<and> ok lo then (nat lo, e - int p + 1)
         else if ok hi then (nat hi, e - int p + 1)
         else if ok lo then (nat lo, e - int p + 1)
         else shortest_from x e (Suc p) fuel)"

fun strip_zeros :: "nat \<Rightarrow> nat \<Rightarrow> int \<Rightarrow> nat \<times> int" where
  "strip_zeros 0 m e = (m, e)"
| "strip_zeros (Suc fuel) m e = (if m mod 10 = 0 \<and> m \<noteq> 0 then strip_zeros fuel (m div 10) (e + 1) else (m, e))"

definition render_pos_f64 :: "rat \<Rightarrow> string" where
  "render_pos_f64 x =
     (let (m0, e0) = shortest_from x (log10_floor x) 1 17; (m, e) = strip_zeros 25 m0 e0;
          ds = nat_digits m; n = int (length ds); point = n + e
      in if 1 / 10 ^ 6 \<le> x \<and> x < 10 ^ 21 then
           (if 0 \<le> e then ds @ replicate (nat e) (CHR ''0'')
            else if 0 < point then take (nat point) ds @ ''.'' @ drop (nat point) ds
            else ''0.'' @ replicate (nat (- point)) (CHR ''0'') @ ds)
         else
           (take 1 ds @ (if length ds = 1 then [] else ''.'' @ drop 1 ds) @ ''e'' @
            (if 0 \<le> point - 1 then ''+'' @ (if point - 1 < 10 then ''0'' else []) @ nat_digits (nat (point - 1))
             else ''-'' @ nat_digits (nat (1 - point)))))"

definition render_f64 :: "f64 \<Rightarrow> string" where
  "render_f64 f =
     (case f of
        Fin x \<Rightarrow> if x = 0 then ''0'' else if x < 0 then ''-'' @ render_pos_f64 (- x) else render_pos_f64 x
      | _ \<Rightarrow> ''null'')"

definition commas :: "string list \<Rightarrow> string" where
  "commas xs = (case xs of [] \<Rightarrow> [] | y # ys \<Rightarrow> y @ concat (map (\<lambda>z. CHR '','' # z) ys))"

fun render :: "json \<Rightarrow> string" where
  "render JNull = ''null''"
| "render (JBool b) = (if b then ''true'' else ''false'')"
| "render (JInt i) = render_int i"
| "render (JDec f) = render_f64 f"
| "render (JStr s) = render_str s"
| "render (JArr js) = ''['' @ commas (map render js) @ '']''"
| "render (JObj kvs) = ''{'' @ commas (map (\<lambda>(k, j). render_str k @ '':'' @ render j) kvs) @ ''}''"

definition jlen :: "json \<Rightarrow> nat" where
  "jlen j = length (render j)"

section \<open>Encoding Go values\<close>

text \<open>\<open>json.Marshal\<close> of a float64 fails on NaN and infinities; an integral value below 1e21 is
  written without fraction or exponent.\<close>

definition enc_f64 :: "f64 \<Rightarrow> json option" where
  "enc_f64 f =
     (case f of
        Fin x \<Rightarrow> Some (if of_int \<lfloor>x\<rfloor> = x \<and> \<bar>x\<bar> < 10 ^ 21 then JInt \<lfloor>x\<rfloor> else JDec f)
      | _ \<Rightarrow> None)"

definition enc_u64 :: "uint64 \<Rightarrow> json" where
  "enc_u64 w = JInt (uint w)"

text \<open>A field tagged \<open>omitempty\<close>: absent when it holds the zero value.\<close>

definition omitempty :: "bool \<Rightarrow> string \<Rightarrow> json \<Rightarrow> (string \<times> json) list" where
  "omitempty zero k j = (if zero then [] else [(k, j)])"

section \<open>Decoding into Go values\<close>

definition lower :: "char \<Rightarrow> char" where
  "lower c = (let n = of_char c :: nat in if 65 \<le> n \<and> n \<le> 90 then char_of (n + 32) else c)"

text \<open>Keys match struct fields case-insensitively; of several, the last one is kept.\<close>

definition find_field :: "string \<Rightarrow> (string \<times> json) list \<Rightarrow> json option" where
  "find_field name kvs =
     map_option snd (find (\<lambda>(k, j). map lower k = map lower name) (rev kvs))"

definition fld :: "('a \<Rightarrow> json \<Rightarrow> 'a option) \<Rightarrow> 'a \<Rightarrow> string \<Rightarrow> (string \<times> json) list \<Rightarrow> 'a option" where
  "fld dec zero name kvs =
     (case find_field name kvs of None \<Rightarrow> Some zero | Some j \<Rightarrow> dec zero j)"

definition dec_str :: "string \<Rightarrow> json \<Rightarrow> string option" where
  "dec_str d j = (case j of JNull \<Rightarrow> Some d | JStr s \<Rightarrow> Some s | _ \<Rightarrow> None)"

definition dec_bool :: "bool \<Rightarrow> json \<Rightarrow> bool option" where
  "dec_bool d j = (case j of JNull \<Rightarrow> Some d | JBool b \<Rightarrow> Some b | _ \<Rightarrow> None)"

definition dec_int64 :: "int \<Rightarrow> json \<Rightarrow> int option" where
  "dec_int64 d j =
     (case j of JNull \<Rightarrow> Some d
      | JInt i \<Rightarrow> if - (2 ^ 63) \<le> i \<and> i < 2 ^ 63 then Some i else None
      | _ \<Rightarrow> None)"

definition dec_u64 :: "uint64 \<Rightarrow> json \<Rightarrow> uint64 option" where
  "dec_u64 d j =
     (case j of JNull \<Rightarrow> Some d
      | JInt i \<Rightarrow> if 0 \<le> i \<and> i < 2 ^ 64 then Some (word_of_int i) else None
      | _ \<Rightarrow> None)"

definition dec_u8 :: "byte \<Rightarrow> json \<Rightarrow> byte option" where
  "dec_u8 d j =
     (case j of JNull \<Rightarrow> Some d
      | JInt i \<Rightarrow> if 0 \<le> i \<and> i < 2 ^ 8 then Some (word_of_int i) else None
      | _ \<Rightarrow> None)"

definition dec_f64 :: "f64 \<Rightarrow> json \<Rightarrow> f64 option" where
  "dec_f64 d j =
     (case j of JNull \<Rightarrow> Some d
      | JInt i \<Rightarrow> (case f64_of_int i of Fin x \<Rightarrow> Some (Fin x) | _ \<Rightarrow> None)
      | JDec f \<Rightarrow> (case f of Fin x \<Rightarrow> Some (Fin x) | _ \<Rightarrow> None)
      | _ \<Rightarrow> None)"

text \<open>A \<open>json.RawMessage\<close> keeps whatever is there, \<open>null\<close> included.\<close>

definition dec_raw :: "json option \<Rightarrow> json \<Rightarrow> json option option" where
  "dec_raw d j = Some (Some j)"

fun opt_all :: "('a \<Rightarrow> 'b option) \<Rightarrow> 'a list \<Rightarrow> 'b list option" where
  "opt_all f [] = Some []"
| "opt_all f (x # xs) = do { y \<leftarrow> f x; ys \<leftarrow> opt_all f xs; Some (y # ys) }"

definition dec_list :: "(json \<Rightarrow> 'a option) \<Rightarrow> 'a list \<Rightarrow> json \<Rightarrow> 'a list option" where
  "dec_list dec d j =
     (case j of JNull \<Rightarrow> Some [] | JArr js \<Rightarrow> opt_all dec js | _ \<Rightarrow> None)"

definition dec_map :: "(json \<Rightarrow> 'a option) \<Rightarrow> (string, 'a) fmap \<Rightarrow> json \<Rightarrow> (string, 'a) fmap option" where
  "dec_map dec d j =
     (case j of
        JNull \<Rightarrow> Some fmempty
      | JObj kvs \<Rightarrow> map_option (\<lambda>vs. foldl (\<lambda>m (k, v). fmupd k v m) d (zip (map fst kvs) vs)) (opt_all (dec \<circ> snd) kvs)
      | _ \<Rightarrow> None)"

text \<open>A struct: an object, or \<open>null\<close>, which leaves every field at its zero value.\<close>

definition dec_struct :: "((string \<times> json) list \<Rightarrow> 'a option) \<Rightarrow> json \<Rightarrow> 'a option" where
  "dec_struct dec j = (case j of JNull \<Rightarrow> dec [] | JObj kvs \<Rightarrow> dec kvs | _ \<Rightarrow> None)"

section \<open>Field access on literal objects\<close>

lemma find_field_simps [simp]:
  "find_field name [] = None"
  "find_field name (kvs @ [(k, j)]) =
     (if map lower k = map lower name then Some j else find_field name kvs)"
  by (simp_all add: find_field_def)

lemma find_field_append:
  "find_field name (xs @ ys) = (case find_field name ys of None \<Rightarrow> find_field name xs | Some j \<Rightarrow> Some j)"
  by (induction ys rule: rev_induct) (auto simp flip: append_assoc)

lemma find_field_Cons [simp]:
  "find_field name ((k, j) # kvs) =
     (case find_field name kvs of
        None \<Rightarrow> (if map lower k = map lower name then Some j else None) | Some i \<Rightarrow> Some i)"
  using find_field_append[of name "[(k, j)]" kvs] find_field_simps(2)[of name "[]" k j]
  by (simp split: option.splits)

lemma dec_simps [simp]:
  "dec_str d (JStr s) = Some s" "dec_bool d0 (JBool b) = Some b"
  "dec_raw r j = Some (Some j)" "dec_u64 w (enc_u64 v) = Some v"
  by (simp_all add: dec_str_def dec_bool_def dec_raw_def dec_u64_def enc_u64_def uint_lt2p[of v, simplified])

lemma dec_enc_int64: "- (2 ^ 63) \<le> i \<Longrightarrow> i < 2 ^ 63 \<Longrightarrow> dec_int64 d (JInt i) = Some i"
  by (simp add: dec_int64_def)

lemma opt_all_map:
  "(\<And>x. x \<in> set xs \<Longrightarrow> f (g x) = Some (h x)) \<Longrightarrow> opt_all f (map g xs) = Some (map h xs)"
  by (induction xs) auto

lemma f64_of_int_wf: "f64_wf (Fin (of_int i)) \<Longrightarrow> f64_of_int i = Fin (of_int i)"
  unfolding f64_of_int_def by (rule f64_of_rat_wf_Fin)

text \<open>A binary64 value survives the round trip through its literal.\<close>

lemma dec_enc_f64: "f64_wf f \<Longrightarrow> enc_f64 f = Some j \<Longrightarrow> dec_f64 d j = Some f"
  using f64_of_int_wf
proof (cases f)
  case (Fin x)
  assume wf: "f64_wf f" and e: "enc_f64 f = Some j"
  show ?thesis
  proof (cases "of_int \<lfloor>x\<rfloor> = x \<and> \<bar>x\<bar> < 10 ^ 21")
    case True
    then have "of_int \<lfloor>x\<rfloor> = x" by (rule conjunct1)
    then have "f64_of_int \<lfloor>x\<rfloor> = Fin x" using f64_of_int_wf[of "\<lfloor>x\<rfloor>"] wf unfolding Fin by (simp only:)
    moreover have "j = JInt \<lfloor>x\<rfloor>" using e True Fin by (simp add: enc_f64_def)
    ultimately show ?thesis using Fin by (simp add: dec_f64_def)
  next
    case False
    then have "j = JDec (Fin x)"
      using e unfolding Fin enc_f64_def f64.case by (simp only: if_False option.inject)
    then show ?thesis using Fin by (simp add: dec_f64_def)
  qed
qed (simp_all add: enc_f64_def)

lemma enc_f64_iff: "(\<exists>j. enc_f64 f = Some j) \<longleftrightarrow> (\<exists>x. f = Fin x)"
  by (cases f) (simp_all add: enc_f64_def)

end
