(* ===== verification/Wire.thy ===== *)
theory Wire
  imports Json
begin

text \<open>
  \<open>pkg/protocol/message.go\<close>: message types and their plane, the envelope, the typed payloads with
  the JSON each is encoded as and decoded from, and the construction of envelopes. A message type
  is a string, as in the source, so a type this build has never heard of is a value of the model.
\<close>

section \<open>Message types\<close>

type_synonym MessageType = string

definition TypeHello :: MessageType where "TypeHello = ''HELLO''"
definition TypeHelloAck :: MessageType where "TypeHelloAck = ''HELLO_ACK''"
definition TypePing :: MessageType where "TypePing = ''PING''"
definition TypePong :: MessageType where "TypePong = ''PONG''"
definition TypeHeartbeat :: MessageType where "TypeHeartbeat = ''HEARTBEAT''"
definition TypeHeartbeatAck :: MessageType where "TypeHeartbeatAck = ''HEARTBEAT_ACK''"
definition TypeMembershipDelta :: MessageType where "TypeMembershipDelta = ''MEMBERSHIP_DELTA''"
definition TypeElectionResult :: MessageType where "TypeElectionResult = ''ELECTION_RESULT''"
definition TypeJoinCluster :: MessageType where "TypeJoinCluster = ''JOIN_CLUSTER''"
definition TypeJoinAck :: MessageType where "TypeJoinAck = ''JOIN_ACK''"
definition TypeLeave :: MessageType where "TypeLeave = ''LEAVE''"
definition TypeStateSync :: MessageType where "TypeStateSync = ''STATE_SYNC''"
definition TypeChaos :: MessageType where "TypeChaos = ''CHAOS''"
definition TypeSimConfig :: MessageType where "TypeSimConfig = ''SIM_CONFIG''"
definition TypeTask :: MessageType where "TypeTask = ''TASK''"
definition TypeTaskResult :: MessageType where "TypeTaskResult = ''TASK_RESULT''"
definition TypeTelemetry :: MessageType where "TypeTelemetry = ''TELEMETRY''"

lemmas message_types = TypeHello_def TypeHelloAck_def TypePing_def TypePong_def TypeHeartbeat_def
  TypeHeartbeatAck_def TypeMembershipDelta_def TypeElectionResult_def TypeJoinCluster_def
  TypeJoinAck_def TypeLeave_def TypeStateSync_def TypeChaos_def TypeSimConfig_def TypeTask_def
  TypeTaskResult_def TypeTelemetry_def

datatype plane = planeUnknown | planeControl | planeData

definition knownTypes :: "(MessageType \<times> plane) list" where
  "knownTypes =
     [(TypeHello, planeControl), (TypeHelloAck, planeControl), (TypePing, planeControl),
      (TypePong, planeControl), (TypeHeartbeat, planeControl), (TypeHeartbeatAck, planeControl),
      (TypeMembershipDelta, planeControl), (TypeElectionResult, planeControl),
      (TypeJoinCluster, planeControl), (TypeJoinAck, planeControl), (TypeLeave, planeControl),
      (TypeStateSync, planeControl), (TypeChaos, planeControl), (TypeSimConfig, planeControl),
      (TypeTask, planeData), (TypeTaskResult, planeData), (TypeTelemetry, planeData)]"

definition Valid :: "MessageType \<Rightarrow> bool" where
  "Valid t = (map_of knownTypes t \<noteq> None)"

definition plane_of :: "MessageType \<Rightarrow> plane" where
  "plane_of t = (case map_of knownTypes t of None \<Rightarrow> planeUnknown | Some p \<Rightarrow> p)"

definition IsControlPlane :: "MessageType \<Rightarrow> bool" where
  "IsControlPlane t = (plane_of t = planeControl)"

definition IsDataPlane :: "MessageType \<Rightarrow> bool" where
  "IsDataPlane t = (plane_of t = planeData)"

section \<open>The envelope\<close>

definition CurrentVersion :: byte where "CurrentVersion = 1"

text \<open>\<open>ePayload = None\<close> is the empty \<open>json.RawMessage\<close>.\<close>

record Envelope =
  eVersion :: byte
  eType :: MessageType
  eFrom :: NodeID
  eTo :: NodeID
  eID :: string
  eSentAt :: int
  ePayload :: "json option"

definition enc_Envelope :: "Envelope \<Rightarrow> json" where
  "enc_Envelope e = JObj
     ([(''version'', JInt (uint (eVersion e))), (''type'', JStr (eType e)), (''from'', JStr (eFrom e))] @
      omitempty (eTo e = '''') ''to'' (JStr (eTo e)) @
      omitempty (eID e = '''') ''id'' (JStr (eID e)) @
      [(''sent_at_unix_nano'', JInt (eSentAt e))] @
      (case ePayload e of None \<Rightarrow> [] | Some j \<Rightarrow> [(''payload'', j)]))"

definition dec_Envelope :: "json \<Rightarrow> Envelope option" where
  "dec_Envelope = dec_struct (\<lambda>o1. do {
     ver \<leftarrow> fld dec_u8 0 ''version'' o1; t \<leftarrow> fld dec_str '''' ''type'' o1;
     f \<leftarrow> fld dec_str '''' ''from'' o1; to \<leftarrow> fld dec_str '''' ''to'' o1;
     i \<leftarrow> fld dec_str '''' ''id'' o1; s \<leftarrow> fld dec_int64 0 ''sent_at_unix_nano'' o1;
     p \<leftarrow> fld dec_raw None ''payload'' o1;
     Some \<lparr>eVersion = ver, eType = t, eFrom = f, eTo = to, eID = i, eSentAt = s, ePayload = p\<rparr> })"

section \<open>Typed payloads\<close>

record MemberRecord =
  rID :: NodeID
  rAdvertise :: NodeAddress
  rIncarnation :: int
  rRole :: string
  rState :: string
  rScore :: f64
  rSeq :: uint64

definition UnmeasuredScore :: f64 where "UnmeasuredScore = Fin (- 1)"

text \<open>\<open>MemberRecord.MarshalJSON\<close>: NaN, infinities and negative scores become the sentinel.\<close>

definition sanitised_score :: "f64 \<Rightarrow> f64" where
  "sanitised_score s =
     (case s of NaN \<Rightarrow> UnmeasuredScore | Inf b \<Rightarrow> UnmeasuredScore
      | Fin x \<Rightarrow> if x < 0 then UnmeasuredScore else s)"

definition enc_MemberRecord :: "MemberRecord \<Rightarrow> json option" where
  "enc_MemberRecord r = do {
     s \<leftarrow> enc_f64 (sanitised_score (rScore r));
     Some (JObj ([(''id'', JStr (rID r)), (''advertise'', JStr (rAdvertise r)),
       (''incarnation'', JInt (rIncarnation r)), (''role'', JStr (rRole r)),
       (''state'', JStr (rState r)), (''score'', s)] @
       omitempty (rSeq r = 0) ''seq'' (enc_u64 (rSeq r)))) }"

definition dec_MemberRecord :: "json \<Rightarrow> MemberRecord option" where
  "dec_MemberRecord = dec_struct (\<lambda>o1. do {
     i \<leftarrow> fld dec_str '''' ''id'' o1; a \<leftarrow> fld dec_str '''' ''advertise'' o1;
     inc \<leftarrow> fld dec_int64 0 ''incarnation'' o1; r \<leftarrow> fld dec_str '''' ''role'' o1;
     st \<leftarrow> fld dec_str '''' ''state'' o1; sc \<leftarrow> fld dec_f64 (Fin 0) ''score'' o1;
     q \<leftarrow> fld dec_u64 0 ''seq'' o1;
     Some \<lparr>rID = i, rAdvertise = a, rIncarnation = inc, rRole = r, rState = st, rScore = sc, rSeq = q\<rparr> })"

definition Measured :: "MemberRecord \<Rightarrow> bool" where
  "Measured r = (Fin 0 \<le> rScore r \<and> (case rScore r of Fin x \<Rightarrow> True | _ \<Rightarrow> False))"

record MembershipDeltaPayload =
  dMembers :: "MemberRecord list"
  dViewVersion :: uint64

definition enc_MembershipDelta :: "MembershipDeltaPayload \<Rightarrow> json option" where
  "enc_MembershipDelta p = do {
     ms \<leftarrow> opt_all enc_MemberRecord (dMembers p);
     Some (JObj [(''members'', JArr ms), (''view_version'', enc_u64 (dViewVersion p))]) }"

definition dec_MembershipDelta :: "json \<Rightarrow> MembershipDeltaPayload option" where
  "dec_MembershipDelta = dec_struct (\<lambda>o1. do {
     ms \<leftarrow> fld (dec_list dec_MemberRecord) [] ''members'' o1;
     v \<leftarrow> fld dec_u64 0 ''view_version'' o1;
     Some \<lparr>dMembers = ms, dViewVersion = v\<rparr> })"

definition enc_ids :: "NodeID list \<Rightarrow> json" where
  "enc_ids ids = JArr (map JStr ids)"

definition dec_ids :: "NodeID list \<Rightarrow> json \<Rightarrow> NodeID list option" where
  "dec_ids = dec_list (dec_str '''')"

record ElectionResultPayload =
  erTerm :: uint64
  erLeaders :: "NodeID list"
  erClusterSize :: int

definition enc_ElectionResult :: "ElectionResultPayload \<Rightarrow> json" where
  "enc_ElectionResult p = JObj [(''term'', enc_u64 (erTerm p)),
     (''leaders'', enc_ids (erLeaders p)), (''cluster_size'', JInt (erClusterSize p))]"

definition dec_ElectionResult :: "json \<Rightarrow> ElectionResultPayload option" where
  "dec_ElectionResult = dec_struct (\<lambda>o1. do {
     t \<leftarrow> fld dec_u64 0 ''term'' o1; l \<leftarrow> fld dec_ids [] ''leaders'' o1;
     c \<leftarrow> fld dec_int64 0 ''cluster_size'' o1;
     Some \<lparr>erTerm = t, erLeaders = l, erClusterSize = c\<rparr> })"

record JoinClusterPayload =
  jcWorker :: NodeID
  jcScore :: f64

definition enc_JoinCluster :: "JoinClusterPayload \<Rightarrow> json option" where
  "enc_JoinCluster p = do {
     s \<leftarrow> enc_f64 (jcScore p); Some (JObj [(''worker'', JStr (jcWorker p)), (''score'', s)]) }"

definition dec_JoinCluster :: "json \<Rightarrow> JoinClusterPayload option" where
  "dec_JoinCluster = dec_struct (\<lambda>o1. do {
     w \<leftarrow> fld dec_str '''' ''worker'' o1; s \<leftarrow> fld dec_f64 (Fin 0) ''score'' o1;
     Some \<lparr>jcWorker = w, jcScore = s\<rparr> })"

record JoinAckPayload =
  jaAccepted :: bool
  jaReason :: string
  jaLeader :: NodeID

definition enc_JoinAck :: "JoinAckPayload \<Rightarrow> json" where
  "enc_JoinAck p = JObj ([(''accepted'', JBool (jaAccepted p))] @
     omitempty (jaReason p = '''') ''reason'' (JStr (jaReason p)) @
     [(''leader'', JStr (jaLeader p))])"

definition dec_JoinAck :: "json \<Rightarrow> JoinAckPayload option" where
  "dec_JoinAck = dec_struct (\<lambda>o1. do {
     a \<leftarrow> fld dec_bool False ''accepted'' o1; r \<leftarrow> fld dec_str '''' ''reason'' o1;
     l \<leftarrow> fld dec_str '''' ''leader'' o1;
     Some \<lparr>jaAccepted = a, jaReason = r, jaLeader = l\<rparr> })"

record LeavePayload =
  lvReason :: string

definition enc_Leave :: "LeavePayload \<Rightarrow> json" where
  "enc_Leave p = JObj (omitempty (lvReason p = '''') ''reason'' (JStr (lvReason p)))"

record HeartbeatPayload =
  hbSeq :: uint64
  hbTerm :: uint64
  hbLeaderID :: NodeID
  hbClusterSize :: int

definition enc_Heartbeat :: "HeartbeatPayload \<Rightarrow> json" where
  "enc_Heartbeat p = JObj [(''seq'', enc_u64 (hbSeq p)), (''term'', enc_u64 (hbTerm p)),
     (''leader_id'', JStr (hbLeaderID p)), (''cluster_size'', JInt (hbClusterSize p))]"

definition dec_Heartbeat :: "json \<Rightarrow> HeartbeatPayload option" where
  "dec_Heartbeat = dec_struct (\<lambda>o1. do {
     s \<leftarrow> fld dec_u64 0 ''seq'' o1; t \<leftarrow> fld dec_u64 0 ''term'' o1;
     l \<leftarrow> fld dec_str '''' ''leader_id'' o1; c \<leftarrow> fld dec_int64 0 ''cluster_size'' o1;
     Some \<lparr>hbSeq = s, hbTerm = t, hbLeaderID = l, hbClusterSize = c\<rparr> })"

record HeartbeatAckPayload =
  haSeq :: uint64
  haTerm :: uint64
  haObservedLeader :: NodeID

definition enc_HeartbeatAck :: "HeartbeatAckPayload \<Rightarrow> json" where
  "enc_HeartbeatAck p = JObj [(''seq'', enc_u64 (haSeq p)), (''term'', enc_u64 (haTerm p)),
     (''observed_leader'', JStr (haObservedLeader p))]"

definition dec_HeartbeatAck :: "json \<Rightarrow> HeartbeatAckPayload option" where
  "dec_HeartbeatAck = dec_struct (\<lambda>o1. do {
     s \<leftarrow> fld dec_u64 0 ''seq'' o1; t \<leftarrow> fld dec_u64 0 ''term'' o1;
     l \<leftarrow> fld dec_str '''' ''observed_leader'' o1;
     Some \<lparr>haSeq = s, haTerm = t, haObservedLeader = l\<rparr> })"

record TaskRecord =
  trTaskID :: string
  trAssignedTo :: NodeID
  trState :: string
  trResult :: string
  trKind :: string
  trBody :: "json option"

definition enc_TaskRecord :: "TaskRecord \<Rightarrow> json" where
  "enc_TaskRecord r = JObj ([(''task_id'', JStr (trTaskID r)), (''assigned_to'', JStr (trAssignedTo r)),
     (''state'', JStr (trState r))] @
     omitempty (trResult r = '''') ''result'' (JStr (trResult r)) @
     omitempty (trKind r = '''') ''kind'' (JStr (trKind r)) @
     (case trBody r of None \<Rightarrow> [] | Some j \<Rightarrow> [(''body'', j)]))"

definition dec_TaskRecord :: "json \<Rightarrow> TaskRecord option" where
  "dec_TaskRecord = dec_struct (\<lambda>o1. do {
     i \<leftarrow> fld dec_str '''' ''task_id'' o1; a \<leftarrow> fld dec_str '''' ''assigned_to'' o1;
     s \<leftarrow> fld dec_str '''' ''state'' o1; r \<leftarrow> fld dec_str '''' ''result'' o1;
     k \<leftarrow> fld dec_str '''' ''kind'' o1; b \<leftarrow> fld dec_raw None ''body'' o1;
     Some \<lparr>trTaskID = i, trAssignedTo = a, trState = s, trResult = r, trKind = k, trBody = b\<rparr> })"

record StateSyncPayload =
  ssTerm :: uint64
  ssLeader :: NodeID
  ssWorkers :: "NodeID list"
  ssLedger :: "TaskRecord list"
  ssVersion :: uint64

text \<open>\<open>StateSyncPayload.MarshalJSON\<close>: nil collections are written as \<open>[]\<close>, as any empty list here.\<close>

definition enc_StateSync :: "StateSyncPayload \<Rightarrow> json" where
  "enc_StateSync p = JObj [(''term'', enc_u64 (ssTerm p)), (''leader'', JStr (ssLeader p)),
     (''workers'', enc_ids (ssWorkers p)), (''ledger'', JArr (map enc_TaskRecord (ssLedger p))),
     (''version'', enc_u64 (ssVersion p))]"

definition dec_StateSync :: "json \<Rightarrow> StateSyncPayload option" where
  "dec_StateSync = dec_struct (\<lambda>o1. do {
     t \<leftarrow> fld dec_u64 0 ''term'' o1; l \<leftarrow> fld dec_str '''' ''leader'' o1;
     w \<leftarrow> fld dec_ids [] ''workers'' o1; lg \<leftarrow> fld (dec_list dec_TaskRecord) [] ''ledger'' o1;
     v \<leftarrow> fld dec_u64 0 ''version'' o1;
     Some \<lparr>ssTerm = t, ssLeader = l, ssWorkers = w, ssLedger = lg, ssVersion = v\<rparr> })"

record TaskPayload =
  tTaskID :: string
  tKind :: string
  tBody :: "json option"

definition enc_Task :: "TaskPayload \<Rightarrow> json" where
  "enc_Task t = JObj ([(''task_id'', JStr (tTaskID t)), (''kind'', JStr (tKind t))] @
     (case tBody t of None \<Rightarrow> [] | Some j \<Rightarrow> [(''body'', j)]))"

definition dec_Task :: "json \<Rightarrow> TaskPayload option" where
  "dec_Task = dec_struct (\<lambda>o1. do {
     i \<leftarrow> fld dec_str '''' ''task_id'' o1; k \<leftarrow> fld dec_str '''' ''kind'' o1;
     b \<leftarrow> fld dec_raw None ''body'' o1;
     Some \<lparr>tTaskID = i, tKind = k, tBody = b\<rparr> })"

record TaskResultPayload =
  resTaskID :: string
  resWorker :: NodeID
  resOK :: bool
  resOutput :: string
  resDurationMS :: f64

definition enc_TaskResult :: "TaskResultPayload \<Rightarrow> json option" where
  "enc_TaskResult p = do {
     d \<leftarrow> enc_f64 (resDurationMS p);
     Some (JObj [(''task_id'', JStr (resTaskID p)), (''worker'', JStr (resWorker p)),
       (''ok'', JBool (resOK p)), (''output'', JStr (resOutput p)), (''duration_ms'', d)]) }"

definition dec_TaskResult :: "json \<Rightarrow> TaskResultPayload option" where
  "dec_TaskResult = dec_struct (\<lambda>o1. do {
     i \<leftarrow> fld dec_str '''' ''task_id'' o1; w \<leftarrow> fld dec_str '''' ''worker'' o1;
     k \<leftarrow> fld dec_bool False ''ok'' o1; u \<leftarrow> fld dec_str '''' ''output'' o1;
     d \<leftarrow> fld dec_f64 (Fin 0) ''duration_ms'' o1;
     Some \<lparr>resTaskID = i, resWorker = w, resOK = k, resOutput = u, resDurationMS = d\<rparr> })"

section \<open>Envelope construction and payload access\<close>

text \<open>
  The correlation ID (\<open>NewMessageID\<close>, random) and the wall clock are arguments. A payload argument
  of \<open>None\<close> is a payload \<open>json.Marshal\<close> refuses, and the result is then an error.
\<close>

definition NewEnvelope ::
  "string \<Rightarrow> int \<Rightarrow> MessageType \<Rightarrow> NodeID \<Rightarrow> NodeID \<Rightarrow> json option \<Rightarrow> Envelope option" where
  "NewEnvelope mid wall t from to payload =
     (case payload of
        None \<Rightarrow> None
      | Some j \<Rightarrow> Some \<lparr>eVersion = CurrentVersion, eType = t, eFrom = from, eTo = to, eID = mid,
                   eSentAt = wall, ePayload = Some j\<rparr>)"

definition NewReply ::
  "string \<Rightarrow> int \<Rightarrow> Envelope \<Rightarrow> MessageType \<Rightarrow> NodeID \<Rightarrow> json option \<Rightarrow> Envelope option" where
  "NewReply mid wall req t from payload =
     map_option (\<lambda>e. e\<lparr>eID := eID req\<rparr>) (NewEnvelope mid wall t from (eFrom req) payload)"

definition PayloadOf :: "(json \<Rightarrow> 'a option) \<Rightarrow> Envelope \<Rightarrow> 'a option" where
  "PayloadOf dec e = (case ePayload e of None \<Rightarrow> None | Some j \<Rightarrow> dec j)"

section \<open>Round trips\<close>

lemmas dec_defs = fld_def dec_struct_def omitempty_def lower_def

lemma dec_enc_ids [simp]: "dec_ids d (enc_ids ids) = Some ids"
  unfolding dec_ids_def enc_ids_def dec_list_def json.case
  using opt_all_map[of ids "dec_str ''''" JStr id] by simp

lemma dec_enc_u8 [simp]: "dec_u8 d (JInt (uint (w :: byte))) = Some w"
  using uint_lt2p[of w] by (simp add: dec_u8_def)

lemma dec_enc_Task: "dec_Task (enc_Task t) = Some t"
  by (cases "tBody t") (simp_all add: dec_Task_def enc_Task_def dec_defs)

lemma dec_enc_TaskRecord: "dec_TaskRecord (enc_TaskRecord r) = Some r"
  by (cases "trBody r"; cases "trKind r = ''''"; cases "trResult r = ''''")
    (simp_all add: dec_TaskRecord_def enc_TaskRecord_def dec_defs)

lemma dec_enc_StateSync: "dec_StateSync (enc_StateSync p) = Some p"
  using opt_all_map[of "ssLedger p" dec_TaskRecord enc_TaskRecord id] dec_enc_TaskRecord
  by (simp add: dec_StateSync_def enc_StateSync_def dec_defs dec_list_def)

lemma dec_enc_JoinAck: "dec_JoinAck (enc_JoinAck p) = Some p"
  by (simp add: dec_JoinAck_def enc_JoinAck_def dec_defs)

lemma dec_enc_HeartbeatAck: "dec_HeartbeatAck (enc_HeartbeatAck p) = Some p"
  by (simp add: dec_HeartbeatAck_def enc_HeartbeatAck_def dec_defs)

definition int64_ok :: "int \<Rightarrow> bool" where
  "int64_ok i \<longleftrightarrow> - (2 ^ 63) \<le> i \<and> i < 2 ^ 63"

lemma dec_enc_Heartbeat:
  "int64_ok (hbClusterSize p) \<Longrightarrow> dec_Heartbeat (enc_Heartbeat p) = Some p"
  by (simp add: dec_Heartbeat_def enc_Heartbeat_def dec_defs int64_ok_def dec_enc_int64)

lemma dec_enc_ElectionResult:
  "int64_ok (erClusterSize p) \<Longrightarrow> dec_ElectionResult (enc_ElectionResult p) = Some p"
  by (simp add: dec_ElectionResult_def enc_ElectionResult_def dec_defs int64_ok_def dec_enc_int64)

lemma dec_enc_JoinCluster:
  assumes "f64_wf (jcScore p)" "jcScore p = Fin x"
  obtains j where "enc_JoinCluster p = Some j" "dec_JoinCluster j = Some p"
proof -
  obtain s where s: "enc_f64 (jcScore p) = Some s" using enc_f64_iff assms(2) by blast
  then have d: "dec_f64 d s = Some (jcScore p)" for d using dec_enc_f64 assms(1) by blast
  have e: "enc_JoinCluster p = Some (JObj [(''worker'', JStr (jcWorker p)), (''score'', s)])"
    using s by (simp add: enc_JoinCluster_def)
  show ?thesis
    by (rule that[OF e]) (simp add: dec_JoinCluster_def dec_defs d)
qed

lemma dec_enc_TaskResult:
  assumes "f64_wf (resDurationMS p)" "resDurationMS p = Fin x"
  obtains j where "enc_TaskResult p = Some j" "dec_TaskResult j = Some p"
proof -
  obtain s where s: "enc_f64 (resDurationMS p) = Some s" using enc_f64_iff assms(2) by blast
  then have d: "dec_f64 d s = Some (resDurationMS p)" for d using dec_enc_f64 assms(1) by blast
  have e: "enc_TaskResult p = Some (JObj [(''task_id'', JStr (resTaskID p)), (''worker'', JStr (resWorker p)),
      (''ok'', JBool (resOK p)), (''output'', JStr (resOutput p)), (''duration_ms'', s)])"
    using s by (simp add: enc_TaskResult_def)
  show ?thesis
    by (rule that[OF e]) (simp add: dec_TaskResult_def dec_defs d)
qed

lemma sanitised_finite: "\<exists>x. sanitised_score s = Fin x"
  by (cases s) (simp_all add: sanitised_score_def UnmeasuredScore_def)

lemma f64_wf_minus_one: "f64_wf (Fin (- 1))"
  by code_simp

lemma sanitised_wf: "f64_wf s \<Longrightarrow> f64_wf (sanitised_score s)"
  using f64_wf_minus_one by (cases s) (simp_all add: sanitised_score_def UnmeasuredScore_def del: f64_wf.simps)

lemma dec_enc_MemberRecord:
  assumes "f64_wf (rScore r)" "int64_ok (rIncarnation r)"
  obtains j where "enc_MemberRecord r = Some j"
    "dec_MemberRecord j = Some (r\<lparr>rScore := sanitised_score (rScore r)\<rparr>)"
proof -
  obtain s where s: "enc_f64 (sanitised_score (rScore r)) = Some s"
    using enc_f64_iff sanitised_finite by blast
  then have d: "dec_f64 d s = Some (sanitised_score (rScore r))" for d
    using dec_enc_f64 sanitised_wf assms(1) by blast
  have e: "enc_MemberRecord r = Some (JObj ([(''id'', JStr (rID r)), (''advertise'', JStr (rAdvertise r)),
      (''incarnation'', JInt (rIncarnation r)), (''role'', JStr (rRole r)), (''state'', JStr (rState r)),
      (''score'', s)] @ omitempty (rSeq r = 0) ''seq'' (enc_u64 (rSeq r))))"
    using s by (simp add: enc_MemberRecord_def)
  have i: "dec_int64 d (JInt (rIncarnation r)) = Some (rIncarnation r)" for d
    using assms(2) by (simp add: int64_ok_def dec_enc_int64)
  show ?thesis
    by (rule that[OF e], cases "rSeq r = 0") (simp_all add: dec_MemberRecord_def dec_defs d i)
qed

lemma opt_all_some:
  "(\<And>x. x \<in> set xs \<Longrightarrow> \<exists>y. f x = Some y \<and> g y = Some (h x)) \<Longrightarrow>
   \<exists>ys. opt_all f xs = Some ys \<and> opt_all g ys = Some (map h xs)"
proof (induction xs)
  case (Cons x xs)
  obtain ys where ys: "opt_all f xs = Some ys" "opt_all g ys = Some (map h xs)"
    using Cons.IH Cons.prems by auto
  obtain y where "f x = Some y" "g y = Some (h x)" using Cons.prems[of x] by auto
  with ys show ?case by (intro exI[of _ "y # ys"]) simp
qed simp

section \<open>Properties\<close>

text \<open>A membership delta survives the wire: encoding it never fails, whatever the scores, and the receiver
  reads back the same records, with every score that is not a measurement (NaN, infinite,
  negative) replaced by one that \<open>Measured\<close> rejects, so an unmeasured node is never read as an
  excellent one.\<close>

theorem membership_delta_roundtrip:
  assumes "\<forall>r\<in>set (dMembers p). f64_wf (rScore r) \<and> int64_ok (rIncarnation r)"
  shows "\<exists>j ms. enc_MembershipDelta p = Some j \<and>
    dec_MembershipDelta j = Some \<lparr>dMembers = ms, dViewVersion = dViewVersion p\<rparr> \<and>
    list_all2 (\<lambda>r r'. r' = r\<lparr>rScore := rScore r'\<rparr> \<and>
      (if Measured r then rScore r' = rScore r else \<not> Measured r')) (dMembers p) ms"
proof -
  let ?san = "\<lambda>r. r\<lparr>rScore := sanitised_score (rScore r)\<rparr>"
  obtain ys where ys: "opt_all enc_MemberRecord (dMembers p) = Some ys"
    "opt_all dec_MemberRecord ys = Some (map ?san (dMembers p))"
    using opt_all_some[of "dMembers p" enc_MemberRecord dec_MemberRecord ?san] assms
    by (metis (no_types, lifting) dec_enc_MemberRecord)
  have san: "if Measured r then sanitised_score (rScore r) = rScore r else \<not> Measured (?san r)" for r
    by (cases "rScore r") (auto simp: Measured_def sanitised_score_def UnmeasuredScore_def)
  let ?j = "JObj [(''members'', JArr ys), (''view_version'', enc_u64 (dViewVersion p))]"
  have "enc_MembershipDelta p = Some ?j"
    using ys(1) by (simp add: enc_MembershipDelta_def)
  moreover have "dec_MembershipDelta ?j =
      Some \<lparr>dMembers = map ?san (dMembers p), dViewVersion = dViewVersion p\<rparr>"
    using ys(2) by (simp add: dec_MembershipDelta_def dec_defs dec_list_def)
  moreover have "list_all2 (\<lambda>r r'. r' = r\<lparr>rScore := rScore r'\<rparr> \<and>
      (if Measured r then rScore r' = rScore r else \<not> Measured r')) (dMembers p) (map ?san (dMembers p))"
    unfolding list_all2_map2 using san by (intro list.rel_refl_strong) simp
  ultimately show ?thesis by blast
qed

definition ex_record :: MemberRecord where
  "ex_record = \<lparr>rID = ''a'', rAdvertise = ''h:1'', rIncarnation = 7, rRole = ''leader'', rState = ''alive'',
     rScore = NaN, rSeq = 3\<rparr>"

theorem membership_delta_roundtrip_witness:
  "\<exists>j. enc_MembershipDelta \<lparr>dMembers = [ex_record], dViewVersion = 1\<rparr> = Some j"
  using membership_delta_roundtrip[of "\<lparr>dMembers = [ex_record], dViewVersion = 1\<rparr>"]
  by (auto simp: ex_record_def int64_ok_def)

text \<open>The control and state-transfer payloads survive the wire unchanged: what a receiver decodes from an
  encoded JOIN_ACK, HEARTBEAT, HEARTBEAT_ACK, ELECTION_RESULT, STATE_SYNC or TASK is exactly what
  was sent, task bodies verbatim.\<close>

theorem payload_roundtrip:
  assumes "int64_ok (hbClusterSize hb)" "int64_ok (erClusterSize er)"
  shows "dec_JoinAck (enc_JoinAck ja) = Some ja \<and> dec_Heartbeat (enc_Heartbeat hb) = Some hb \<and>
    dec_HeartbeatAck (enc_HeartbeatAck ha) = Some ha \<and> dec_ElectionResult (enc_ElectionResult er) = Some er \<and>
    dec_StateSync (enc_StateSync ss) = Some ss \<and> dec_Task (enc_Task t) = Some t"
  using assms
  by (simp add: dec_enc_JoinAck dec_enc_Heartbeat dec_enc_HeartbeatAck dec_enc_ElectionResult
      dec_enc_StateSync dec_enc_Task)

theorem payload_roundtrip_witness:
  "dec_Task (enc_Task \<lparr>tTaskID = ''t'', tKind = ''echo'', tBody = Some JNull\<rparr>) =
   Some \<lparr>tTaskID = ''t'', tKind = ''echo'', tBody = Some JNull\<rparr>"
  using payload_roundtrip[of "\<lparr>hbSeq = 0, hbTerm = 0, hbLeaderID = '''', hbClusterSize = 0\<rparr>"
      "\<lparr>erTerm = 0, erLeaders = [], erClusterSize = 0\<rparr>"]
  by (simp add: int64_ok_def)

text \<open>C25: An envelope survives the wire whatever its type: an unknown message type decodes like any other
  (and belongs to neither plane), every known type belongs to exactly one, and a reply carries the
  request's correlation ID back to its sender.\<close>

theorem envelope_roundtrip:
  assumes "int64_ok (eSentAt e)"
  shows "dec_Envelope (enc_Envelope e) = Some e \<and>
    (Valid (eType e) \<longleftrightarrow> IsControlPlane (eType e) \<noteq> IsDataPlane (eType e)) \<and>
    \<not> (IsControlPlane (eType e) \<and> IsDataPlane (eType e)) \<and>
    (\<forall>mid wall t from j r. NewReply mid wall e t from (Some j) = Some r \<longrightarrow>
       eID r = eID e \<and> eTo r = eFrom e \<and> ePayload r = Some j)"
proof (intro conjI allI impI)
  show "dec_Envelope (enc_Envelope e) = Some e"
    using assms
    by (cases "ePayload e"; cases "eTo e = ''''"; cases "eID e = ''''")
      (simp_all add: dec_Envelope_def enc_Envelope_def dec_defs dec_enc_int64 int64_ok_def)
  have "map_of knownTypes t \<noteq> Some planeUnknown" for t
    by (auto simp: knownTypes_def dest!: map_of_SomeD)
  then show "Valid (eType e) \<longleftrightarrow> IsControlPlane (eType e) \<noteq> IsDataPlane (eType e)"
    by (cases "map_of knownTypes (eType e)"; cases "the (map_of knownTypes (eType e))")
      (auto simp: Valid_def IsControlPlane_def IsDataPlane_def plane_of_def)
  show "\<not> (IsControlPlane (eType e) \<and> IsDataPlane (eType e))"
    by (simp add: IsControlPlane_def IsDataPlane_def)
qed (auto simp: NewReply_def NewEnvelope_def)

definition ex_env :: Envelope where
  "ex_env = \<lparr>eVersion = 1, eType = ''FROM_THE_FUTURE'', eFrom = ''a'', eTo = ''b'', eID = ''0f'', eSentAt = 5,
     ePayload = Some (JObj [])\<rparr>"

theorem envelope_roundtrip_witness:
  "dec_Envelope (enc_Envelope ex_env) = Some ex_env"
  using envelope_roundtrip[of ex_env] by (simp add: ex_env_def int64_ok_def)

end
