(* ===== verification/NodeState.thy ===== *)
theory NodeState
  imports Affinity Wire
begin

text \<open>
  The state of a node, \<open>pkg/cluster/node.go\<close>: its configuration with defaults, the fields the event
  loop owns, the snapshot it publishes, and the small operations every handler is made of. The
  loop is the sole owner of this state, so a handler is a function from state to state. What a
  handler does to the outside is appended to \<open>nTrace\<close>, newest first; what the outside answers comes
  from an environment indexed by the number of effects so far: the outcome of \<open>Transport.Send\<close>, the
  random correlation IDs, the clocks and the gossip shuffle. Log lines are not modelled.
\<close>

section \<open>Configuration\<close>

definition DefaultProbeInterval :: duration where "DefaultProbeInterval = 1 * Second"
definition DefaultElectionFloor :: duration where "DefaultElectionFloor = 30 * Second"
definition DefaultGossipInterval :: duration where "DefaultGossipInterval = 2 * Second"
definition DefaultRoundTimeout :: duration where "DefaultRoundTimeout = 2 * DefaultProbeTimeout"
definition DefaultQueueDepth :: int where "DefaultQueueDepth = 256"
definition DefaultHeartbeatInterval :: duration where "DefaultHeartbeatInterval = 500 * Millisecond"
definition DefaultHeartbeatMisses :: int where "DefaultHeartbeatMisses = 3"
definition DefaultSuspectAfter :: int where "DefaultSuspectAfter = 3"
definition DefaultDeadAfter :: int where "DefaultDeadAfter = 6"
definition DefaultSuspicionTimeout :: duration where "DefaultSuspicionTimeout = 3 * Second"
definition DefaultTombstoneTTL :: duration where "DefaultTombstoneTTL = 60 * Second"
definition DefaultStateSyncInterval :: duration where "DefaultStateSyncInterval = 2 * Second"
definition DefaultLedgerSize :: int where "DefaultLedgerSize = 500"
definition maxRejectionsPerRound :: int where "maxRejectionsPerRound = 3"

text \<open>
  The interfaces of \<open>NodeConfig\<close> appear as whether they are set: \<open>ncTransport\<close>, \<open>ncHealth\<close>,
  \<open>ncConnect\<close>, \<open>ncRetainer\<close> (the strategy implements \<open>HealthRetainer\<close>) and \<open>ncOnTaskResult\<close>.
\<close>

record NodeConfig =
  ncSelf :: NodeID
  ncAdvertise :: NodeAddress
  ncIncarnation :: int
  ncTransport :: bool
  ncHealth :: bool
  ncElection :: Config
  ncProbeInterval :: duration
  ncElectionFloor :: duration
  ncProbeTimeout :: duration
  ncRehome :: f64
  ncQueueDepth :: int
  ncGossipInterval :: duration
  ncConnect :: bool
  ncRetainer :: bool
  ncOnTaskResult :: bool
  ncHeartbeatInterval :: duration
  ncHeartbeatMisses :: int
  ncSuspectAfter :: int
  ncDeadAfter :: int
  ncSuspicionTimeout :: duration
  ncTombstoneTTL :: duration
  ncStateSyncInterval :: duration
  ncLedgerSize :: int

definition pos_or :: "int \<Rightarrow> int \<Rightarrow> int" where
  "pos_or d x = (if x \<le> 0 then d else x)"

definition NodeConfig_withDefaults :: "NodeConfig \<Rightarrow> NodeConfig" where
  "NodeConfig_withDefaults c =
     c\<lparr>ncProbeInterval := pos_or DefaultProbeInterval (ncProbeInterval c),
       ncElectionFloor := pos_or DefaultElectionFloor (ncElectionFloor c),
       ncGossipInterval := pos_or DefaultGossipInterval (ncGossipInterval c),
       ncProbeTimeout := (if ncProbeTimeout c = 0 then DefaultRoundTimeout else ncProbeTimeout c),
       ncRehome := (if feq (ncRehome c) (Fin 0) then DefaultHysteresis else ncRehome c),
       ncElection := (if feq (Hysteresis (ncElection c)) (Fin 0)
                      then (ncElection c)\<lparr>Hysteresis := DefaultHysteresis\<rparr> else ncElection c),
       ncQueueDepth := pos_or DefaultQueueDepth (ncQueueDepth c),
       ncHeartbeatInterval := pos_or DefaultHeartbeatInterval (ncHeartbeatInterval c),
       ncHeartbeatMisses := pos_or DefaultHeartbeatMisses (ncHeartbeatMisses c),
       ncSuspectAfter := pos_or DefaultSuspectAfter (ncSuspectAfter c),
       ncDeadAfter := pos_or DefaultDeadAfter (ncDeadAfter c),
       ncSuspicionTimeout := pos_or DefaultSuspicionTimeout (ncSuspicionTimeout c),
       ncTombstoneTTL := pos_or DefaultTombstoneTTL (ncTombstoneTTL c),
       ncStateSyncInterval := pos_or DefaultStateSyncInterval (ncStateSyncInterval c),
       ncLedgerSize := pos_or DefaultLedgerSize (ncLedgerSize c)\<rparr>"

section \<open>Loop-owned state\<close>

record suspicion =
  sSince :: duration
  sIncarnation :: int
  sRound :: uint64
  sSilent :: bool

record tombstone =
  tsSince :: duration
  tsIncarnation :: int

record replica =
  ledger :: "TaskRecord list"
  rVersion :: uint64
  rDirty :: bool
  sentWorkers :: "NodeID list"
  sentTerm :: uint64
  rHeld :: bool
  rTerm :: uint64
  rPub :: "TaskRecord list"
  pubStale :: bool

record taskState =
  inflight :: int
  tNext :: nat
  reissueDue :: bool
  handoff :: "TaskPayload list"

record electionTuning =
  tuThreshold :: "f64 option"
  tuHysteresis :: "f64 option"

record Status =
  stSelf :: NodeID
  stIncarnation :: int
  stRole :: Role
  stTerm :: uint64
  stLeader :: NodeID
  stLeaders :: "NodeID list"
  stView :: View
  stScores :: "(NodeID, f64) fmap"
  stReported :: "(NodeID, f64) fmap"
  stMissed :: "(NodeID, int) fmap"
  stDegraded :: bool
  stHighWater :: int
  stAttached :: "NodeID list"
  stClaims :: "(NodeID, ElectionResultPayload) fmap"
  stThreshold :: f64
  stHysteresis :: f64
  stLedger :: "TaskRecord list"
  stSyncVersion :: uint64

text \<open>What a handler does to the world: the outcome of a \<open>Send\<close> is recorded with it.\<close>

datatype effect =
    Sent NodeID Envelope bool
  | Broadcasted Envelope
  | Connected NodeAddress
  | Retained "NodeAddress fset"
  | Launched TaskPayload NodeID
  | Reported TaskResultPayload
  | ProbeStarted uint64 "(NodeID \<times> NodeAddress) list"
  | Delayed NodeID Envelope duration

record node =
  nCfg :: NodeConfig
  nTable :: Table
  nIncarnation :: int
  nTerm :: uint64
  nLeaders :: "NodeID list"
  nLeader :: NodeID
  nHint :: NodeID
  nJoinID :: string
  nRejections :: int
  nAttached :: "NodeID fset"
  nLocal :: "(NodeID, f64) fmap"
  nReported :: "(NodeID, f64) fmap"
  nDialed :: "NodeAddress fset"
  nMissed :: "(NodeID, int) fmap"
  nClaims :: "(NodeID, ElectionResultPayload) fmap"
  nHighWater :: int
  nDegraded :: bool
  nProbing :: bool
  nUnknownLogged :: "MessageType fset"
  nGossipOrder :: "NodeID list"
  nGossipNext :: nat
  nGossipSet :: "NodeID fset"
  nGossipVersion :: uint64
  nSuspects :: "(NodeID, suspicion) fmap"
  nProbeSeq :: uint64
  nTombstones :: "(NodeID, tombstone) fmap"
  nTombVersion :: uint64
  nBeatSeq :: "(NodeID, uint64) fmap"
  nSinceBeat :: int
  nRepl :: replica
  nTasks :: taskState
  nChaosDelay :: duration
  nTunePending :: electionTuning
  nStatus :: "Status option"
  nTrace :: "effect list"
  nHung :: bool

text \<open>The environment: the answers of the outside world to effect number \<open>length (nTrace n)\<close>.\<close>

record env =
  envSendOK :: "nat \<Rightarrow> NodeID \<Rightarrow> bool"
  envNewID :: "nat \<Rightarrow> string"
  envClock :: "nat \<Rightarrow> duration"
  envWall :: "nat \<Rightarrow> int"
  envShuffle :: "nat \<Rightarrow> NodeID list \<Rightarrow> NodeID list"

section \<open>Primitive operations\<close>

definition self :: "node \<Rightarrow> NodeID" where "self n = ncSelf (nCfg n)"

definition isLeader :: "node \<Rightarrow> bool" where "isLeader n = contains (nLeaders n) (self n)"

definition snapshot :: "node \<Rightarrow> View" where "snapshot n = Snapshot (nTable n)"

definition emit :: "effect \<Rightarrow> node \<Rightarrow> node" where "emit ef n = n\<lparr>nTrace := ef # nTrace n\<rparr>"

definition Now :: "env \<Rightarrow> node \<Rightarrow> duration" where "Now e n = envClock e (length (nTrace n))"

definition Send :: "env \<Rightarrow> NodeID \<Rightarrow> Envelope \<Rightarrow> node \<Rightarrow> node \<times> bool" where
  "Send e to x n = (let ok = envSendOK e (length (nTrace n)) to in (emit (Sent to x ok) n, ok))"

definition newEnvelope ::
  "env \<Rightarrow> node \<Rightarrow> MessageType \<Rightarrow> NodeID \<Rightarrow> json option \<Rightarrow> Envelope option" where
  "newEnvelope e n t to payload =
     NewEnvelope (envNewID e (length (nTrace n))) (envWall e (length (nTrace n))) t (self n) to payload"

definition newReply :: "env \<Rightarrow> node \<Rightarrow> Envelope \<Rightarrow> MessageType \<Rightarrow> json option \<Rightarrow> Envelope option" where
  "newReply e n req t payload =
     NewReply (envNewID e (length (nTrace n))) (envWall e (length (nTrace n))) req t (self n) payload"

text \<open>\<open>if env, err := NewEnvelope(...); err == nil { Transport.Broadcast(env) }\<close>.\<close>

definition broadcast :: "env \<Rightarrow> MessageType \<Rightarrow> json option \<Rightarrow> node \<Rightarrow> node" where
  "broadcast e t payload n =
     (case newEnvelope e n t '''' payload of None \<Rightarrow> n | Some x \<Rightarrow> emit (Broadcasted x) n)"

text \<open>The same with \<open>Send\<close>; the result says whether the message went out.\<close>

definition sendTo :: "env \<Rightarrow> MessageType \<Rightarrow> NodeID \<Rightarrow> json option \<Rightarrow> node \<Rightarrow> node \<times> bool" where
  "sendTo e t to payload n =
     (case newEnvelope e n t to payload of None \<Rightarrow> (n, False) | Some x \<Rightarrow> Send e to x n)"

definition memberRecord :: "Member \<Rightarrow> MemberRecord" where
  "memberRecord m =
     \<lparr>rID = mID m, rAdvertise = mAddr m, rIncarnation = mIncarnation m, rRole = Role_String (mRole m),
      rState = State_String (mState m), rScore = mScore m, rSeq = mSeq m\<rparr>"

definition attachedIDs :: "node \<Rightarrow> NodeID list" where
  "attachedIDs n = sorted_list_of_fset (nAttached n)"

definition Resolve :: "node \<Rightarrow> NodeAddress \<Rightarrow> NodeID option" where
  "Resolve n addr =
     map_option mID (find (\<lambda>m. mAddr m = addr \<and> mState m \<noteq> StateDead) (Members (snapshot n)))"

definition connect :: "NodeAddress \<Rightarrow> node \<Rightarrow> node" where
  "connect addr n =
     (if addr = '''' \<or> \<not> ncConnect (nCfg n) then n
      else if addr |\<in>| nDialed n then n
      else if Resolve n addr \<noteq> None then n\<lparr>nDialed := finsert addr (nDialed n)\<rparr>
      else emit (Connected addr) (n\<lparr>nDialed := finsert addr (nDialed n)\<rparr>))"

definition pushRecord :: "env \<Rightarrow> NodeID \<Rightarrow> node \<Rightarrow> node" where
  "pushRecord e i n =
     (let view = snapshot n in
      case View_Get view i of
        None \<Rightarrow> n
      | Some m \<Rightarrow> broadcast e TypeMembershipDelta
          (enc_MembershipDelta \<lparr>dMembers = [memberRecord m], dViewVersion = vVersion view\<rparr>) n)"

definition announceSelf :: "env \<Rightarrow> node \<Rightarrow> node" where
  "announceSelf e n =
     (let view = snapshot n in
      case View_Get view (self n) of
        None \<Rightarrow> n
      | Some m \<Rightarrow> broadcast e TypeMembershipDelta
          (enc_MembershipDelta \<lparr>dMembers = [memberRecord m], dViewVersion = vVersion view\<rparr>) n)"

definition sendView :: "env \<Rightarrow> NodeID \<Rightarrow> View \<Rightarrow> node \<Rightarrow> node" where
  "sendView e to view n =
     fst (sendTo e TypeMembershipDelta to
       (enc_MembershipDelta \<lparr>dMembers = map memberRecord (Members view), dViewVersion = vVersion view\<rparr>) n)"

text \<open>\<open>replica.published\<close>: the published copy is rebuilt only when it is stale.\<close>

definition published :: "replica \<Rightarrow> replica \<times> TaskRecord list \<times> uint64" where
  "published r =
     (let r' = (if pubStale r then r\<lparr>rPub := ledger r, pubStale := False\<rparr> else r)
      in (r', rPub r', rVersion r'))"

definition effectiveThreshold :: "node \<Rightarrow> f64" where
  "effectiveThreshold n = Threshold (Config_withDefaults (ncElection (nCfg n)))"

definition publish :: "node \<Rightarrow> node" where
  "publish n =
     (let view = snapshot n;
          role = (case View_Get view (self n) of None \<Rightarrow> RoleWorker | Some m \<Rightarrow> mRole m);
          (repl, led, ver) = published (nRepl n)
      in n\<lparr>nRepl := repl,
           nStatus := Some \<lparr>stSelf = self n, stIncarnation = nIncarnation n, stRole = role,
             stTerm = nTerm n, stLeader = nLeader n, stLeaders = nLeaders n, stView = view,
             stScores = nLocal n, stReported = nReported n, stMissed = nMissed n,
             stDegraded = nDegraded n, stHighWater = nHighWater n, stAttached = attachedIDs n,
             stClaims = nClaims n, stThreshold = effectiveThreshold n,
             stHysteresis = Hysteresis (ncElection (nCfg n)), stLedger = led, stSyncVersion = ver\<rparr>\<rparr>)"

section \<open>Construction\<close>

datatype new_error = SelfRequired | AdvertiseRequired | TransportRequired | HealthRequired
  | ProbeTimeoutNotPositive

definition newState :: "NodeConfig \<Rightarrow> node" where
  "newState cfg =
     \<lparr>nCfg = cfg, nTable = fst (Upsert NewTable
      \<lparr>mID = ncSelf cfg, mAddr = ncAdvertise cfg, mRole = RoleWorker, mState = StateAlive,
      mIncarnation = ncIncarnation cfg, mScore = ScoreUnavailable, mSeq = 1\<rparr>), nIncarnation = ncIncarnation cfg, nTerm = 0, nLeaders = [],
      nLeader = '''', nHint = '''', nJoinID = '''', nRejections = 0, nAttached = {||},
      nLocal = fmempty, nReported = fmempty, nDialed = {|ncAdvertise cfg|}, nMissed = fmempty,
      nClaims = fmempty, nHighWater = 0, nDegraded = False, nProbing = False,
      nUnknownLogged = {||}, nGossipOrder = [], nGossipNext = 0, nGossipSet = {||},
      nGossipVersion = 0, nSuspects = fmempty, nProbeSeq = 0, nTombstones = fmempty,
      nTombVersion = 0, nBeatSeq = fmempty, nSinceBeat = 0,
      nRepl = \<lparr>ledger = [], rVersion = 0, rDirty = False, sentWorkers = [], sentTerm = 0,
      rHeld = False, rTerm = 0, rPub = [], pubStale = False\<rparr>,
      nTasks = \<lparr>inflight = 0, tNext = 0, reissueDue = False, handoff = []\<rparr>,
      nChaosDelay = 0, nTunePending = \<lparr>tuThreshold = None, tuHysteresis = None\<rparr>,
      nStatus = None, nTrace = [], nHung = False\<rparr>"

definition NewNode :: "NodeConfig \<Rightarrow> new_error + node" where
  "NewNode cfg0 =
     (if ncSelf cfg0 = '''' then Inl SelfRequired
      else if ncAdvertise cfg0 = '''' then Inl AdvertiseRequired
      else if \<not> ncTransport cfg0 then Inl TransportRequired
      else if \<not> ncHealth cfg0 then Inl HealthRequired
      else let cfg = NodeConfig_withDefaults cfg0 in
        if ncProbeTimeout cfg \<le> 0 then Inl ProbeTimeoutNotPositive
        else Inr (publish (newState cfg)))"

section \<open>What the primitives leave alone\<close>

text \<open>
  \<open>core\<close> forgets the trace, the published copies and the dialled addresses. Two states with the
  same core agree on every field the handlers decide on.
\<close>

definition core :: "node \<Rightarrow> node" where
  "core n = n\<lparr>nTrace := [], nStatus := None, nDialed := {||},
     nRepl := (nRepl n)\<lparr>rPub := [], pubStale := False\<rparr>\<rparr>"

lemma core_sel:
    "nCfg (core n) = nCfg n" "nTable (core n) = nTable n" "nIncarnation (core n) = nIncarnation n"
    "nTerm (core n) = nTerm n" "nLeaders (core n) = nLeaders n" "nLeader (core n) = nLeader n"
    "nHint (core n) = nHint n" "nJoinID (core n) = nJoinID n"
    "nRejections (core n) = nRejections n" "nAttached (core n) = nAttached n"
    "nLocal (core n) = nLocal n" "nReported (core n) = nReported n" "nMissed (core n) = nMissed n"
    "nClaims (core n) = nClaims n" "nHighWater (core n) = nHighWater n"
    "nDegraded (core n) = nDegraded n" "nProbing (core n) = nProbing n"
    "nUnknownLogged (core n) = nUnknownLogged n" "nGossipOrder (core n) = nGossipOrder n"
    "nGossipNext (core n) = nGossipNext n" "nGossipSet (core n) = nGossipSet n"
    "nGossipVersion (core n) = nGossipVersion n" "nSuspects (core n) = nSuspects n"
    "nProbeSeq (core n) = nProbeSeq n" "nTombstones (core n) = nTombstones n"
    "nTombVersion (core n) = nTombVersion n" "nBeatSeq (core n) = nBeatSeq n"
    "nSinceBeat (core n) = nSinceBeat n" "nTasks (core n) = nTasks n"
    "nChaosDelay (core n) = nChaosDelay n" "nTunePending (core n) = nTunePending n"
    "nHung (core n) = nHung n" "ledger (nRepl (core n)) = ledger (nRepl n)"
    "rVersion (nRepl (core n)) = rVersion (nRepl n)" "rDirty (nRepl (core n)) = rDirty (nRepl n)"
    "sentWorkers (nRepl (core n)) = sentWorkers (nRepl n)"
    "sentTerm (nRepl (core n)) = sentTerm (nRepl n)" "rHeld (nRepl (core n)) = rHeld (nRepl n)"
    "rTerm (nRepl (core n)) = rTerm (nRepl n)"
  by (simp_all add: core_def)

lemma core_fields:
  assumes "core a = core b"
  shows
    "nCfg a = nCfg b" "nTable a = nTable b" "nIncarnation a = nIncarnation b" "nTerm a = nTerm b"
    "nLeaders a = nLeaders b" "nLeader a = nLeader b" "nHint a = nHint b" "nJoinID a = nJoinID b"
    "nRejections a = nRejections b" "nAttached a = nAttached b" "nLocal a = nLocal b"
    "nReported a = nReported b" "nMissed a = nMissed b" "nClaims a = nClaims b"
    "nHighWater a = nHighWater b" "nDegraded a = nDegraded b" "nProbing a = nProbing b"
    "nUnknownLogged a = nUnknownLogged b" "nGossipOrder a = nGossipOrder b"
    "nGossipNext a = nGossipNext b" "nGossipSet a = nGossipSet b"
    "nGossipVersion a = nGossipVersion b" "nSuspects a = nSuspects b" "nProbeSeq a = nProbeSeq b"
    "nTombstones a = nTombstones b" "nTombVersion a = nTombVersion b" "nBeatSeq a = nBeatSeq b"
    "nSinceBeat a = nSinceBeat b" "nTasks a = nTasks b" "nChaosDelay a = nChaosDelay b"
    "nTunePending a = nTunePending b" "nHung a = nHung b" "ledger (nRepl a) = ledger (nRepl b)"
    "rVersion (nRepl a) = rVersion (nRepl b)" "rDirty (nRepl a) = rDirty (nRepl b)"
    "sentWorkers (nRepl a) = sentWorkers (nRepl b)" "sentTerm (nRepl a) = sentTerm (nRepl b)"
    "rHeld (nRepl a) = rHeld (nRepl b)" "rTerm (nRepl a) = rTerm (nRepl b)"
  by (simp_all only: core_sel[of a, symmetric] core_sel[of b, symmetric] assms)

lemma core_emit [simp]: "core (emit ef n) = core n"
  by (simp add: core_def emit_def)

lemma core_Send [simp]: "core (fst (Send e to x n)) = core n"
  by (simp add: Send_def Let_def)

lemma core_broadcast [simp]: "core (broadcast e t p n) = core n"
  by (simp add: broadcast_def split: option.split)

lemma core_sendTo [simp]: "core (fst (sendTo e t to p n)) = core n"
  by (simp add: sendTo_def split: option.split)

lemma core_connect [simp]: "core (connect addr n) = core n"
  by (simp add: connect_def core_def emit_def)

lemma core_pushRecord [simp]: "core (pushRecord e i n) = core n"
  by (simp add: pushRecord_def Let_def split: option.split)

lemma core_announceSelf [simp]: "core (announceSelf e n) = core n"
  by (simp add: announceSelf_def Let_def split: option.split)

lemma core_sendView [simp]: "core (sendView e to v n) = core n"
  by (simp add: sendView_def)

lemma core_publish [simp]: "core (publish n) = core n"
  by (simp add: publish_def core_def published_def Let_def)

lemmas emit_frame [simp] = core_fields[OF core_emit]
lemmas Send_frame [simp] = core_fields[OF core_Send]
lemmas broadcast_frame [simp] = core_fields[OF core_broadcast]
lemmas sendTo_frame [simp] = core_fields[OF core_sendTo]
lemmas connect_frame [simp] = core_fields[OF core_connect]
lemmas pushRecord_frame [simp] = core_fields[OF core_pushRecord]
lemmas announceSelf_frame [simp] = core_fields[OF core_announceSelf]
lemmas sendView_frame [simp] = core_fields[OF core_sendView]
lemmas publish_frame [simp] = core_fields[OF core_publish]

lemma derived_core:
  assumes "core a = core b"
  shows "self a = self b" "isLeader a = isLeader b" "snapshot a = snapshot b" "attachedIDs a = attachedIDs b"
  using core_fields[OF assms] by (simp_all add: self_def isLeader_def snapshot_def attachedIDs_def)

lemmas emit_derived [simp] = derived_core[OF core_emit]
lemmas Send_derived [simp] = derived_core[OF core_Send]
lemmas broadcast_derived [simp] = derived_core[OF core_broadcast]
lemmas sendTo_derived [simp] = derived_core[OF core_sendTo]
lemmas connect_derived [simp] = derived_core[OF core_connect]
lemmas pushRecord_derived [simp] = derived_core[OF core_pushRecord]
lemmas announceSelf_derived [simp] = derived_core[OF core_announceSelf]
lemmas sendView_derived [simp] = derived_core[OF core_sendView]
lemmas publish_derived [simp] = derived_core[OF core_publish]

section \<open>The node invariant\<close>

text \<open>
  The parts of the state that must agree between two loop events. \<open>own_ok\<close>: the node's own record
  is alive at its own incarnation and address and claims the role the node holds. \<open>lead_ok\<close>: a
  node that leads is its own leader, and only a leader has attached workers. \<open>hold_ok\<close>: the ledger
  and the running tasks are bounded.
\<close>

definition own :: "node \<Rightarrow> Member option" where
  "own n = fmlookup (members (nTable n)) (self n)"

definition own_ok :: "node \<Rightarrow> bool" where
  "own_ok n \<longleftrightarrow> (\<exists>m. own n = Some m \<and> mState m = StateAlive \<and> mIncarnation m = nIncarnation n \<and>
     mAddr m = ncAdvertise (nCfg n) \<and> (mRole m = RoleLeader \<longleftrightarrow> isLeader n))"

definition lead_ok :: "node \<Rightarrow> bool" where
  "lead_ok n \<longleftrightarrow> (isLeader n \<longleftrightarrow> nLeader n = self n) \<and> (\<not> isLeader n \<longrightarrow> nAttached n = {||}) \<and> self n \<noteq> ''''"

definition hold_ok :: "node \<Rightarrow> bool" where
  "hold_ok n \<longleftrightarrow> 0 < ncLedgerSize (nCfg n) \<and> int (length (ledger (nRepl n))) \<le> ncLedgerSize (nCfg n)"

definition node_ok :: "node \<Rightarrow> bool" where
  "node_ok n \<longleftrightarrow> table_wf (nTable n) \<and> own_ok n \<and> lead_ok n \<and> hold_ok n \<and> self n |\<notin>| fmdom (nSuspects n)"

lemmas node_ok_defs = node_ok_def own_ok_def own_def lead_ok_def hold_ok_def self_def isLeader_def

text \<open>A step that leaves the deciding fields alone and the ledger bounded keeps the invariant.\<close>

lemma node_ok_frame:
  assumes "node_ok n" "hold_ok n'" "nCfg n' = nCfg n" "nTable n' = nTable n"
    "nIncarnation n' = nIncarnation n" "nLeaders n' = nLeaders n" "nLeader n' = nLeader n"
    "nAttached n' = nAttached n" "nSuspects n' = nSuspects n"
  shows "node_ok n'"
proof -
  have "self n' = self n" "isLeader n' = isLeader n"
    using assms(3,6) by (simp_all add: self_def isLeader_def)
  moreover from this have "own_ok n' = own_ok n" "lead_ok n' = lead_ok n"
    using assms(3-8) by (simp_all add: own_ok_def own_def lead_ok_def)
  ultimately show ?thesis using assms(1,2,4,9) by (simp add: node_ok_def)
qed

lemma hold_ok_same:
  "node_ok n \<Longrightarrow> nCfg n' = nCfg n \<Longrightarrow> ledger (nRepl n') = ledger (nRepl n) \<Longrightarrow> hold_ok n'"
  by (simp add: node_ok_def hold_ok_def)

lemma node_ok_core:
  assumes "core a = core b" shows "node_ok a = node_ok b"
  using core_fields[OF assms] derived_core[OF assms]
  by (simp add: node_ok_def own_ok_def own_def lead_ok_def hold_ok_def)

lemmas emit_ok [simp] = node_ok_core[OF core_emit]
lemmas Send_ok [simp] = node_ok_core[OF core_Send]
lemmas broadcast_ok [simp] = node_ok_core[OF core_broadcast]
lemmas sendTo_ok [simp] = node_ok_core[OF core_sendTo]
lemmas connect_ok [simp] = node_ok_core[OF core_connect]
lemmas pushRecord_ok [simp] = node_ok_core[OF core_pushRecord]
lemmas announceSelf_ok [simp] = node_ok_core[OF core_announceSelf]
lemmas sendView_ok [simp] = node_ok_core[OF core_sendView]
lemmas publish_ok [simp] = node_ok_core[OF core_publish]

lemma pos_or_pos: "0 < d \<Longrightarrow> 0 < pos_or d x"
  by (simp add: pos_or_def)

lemma withDefaults_identity [simp]:
  "ncSelf (NodeConfig_withDefaults c) = ncSelf c" "ncAdvertise (NodeConfig_withDefaults c) = ncAdvertise c"
  "ncIncarnation (NodeConfig_withDefaults c) = ncIncarnation c"
  by (simp_all add: NodeConfig_withDefaults_def)

lemma withDefaults_LedgerSize: "0 < ncLedgerSize (NodeConfig_withDefaults c)"
  by (simp add: NodeConfig_withDefaults_def pos_or_def DefaultLedgerSize_def)

lemma NewNode_ok: "NewNode cfg = Inr n \<Longrightarrow> node_ok n"
  using withDefaults_LedgerSize[of cfg]
  by (auto simp: NewNode_def newState_def Let_def node_ok_def own_ok_def own_def lead_ok_def hold_ok_def self_def
      isLeader_def Upsert_def NewTable_def store_def table_wf_def split: if_splits)

section \<open>A node for the examples\<close>

definition ex_cfgN :: NodeConfig where
  "ex_cfgN = \<lparr>ncSelf = ''w'', ncAdvertise = ''w:1'', ncIncarnation = 1, ncTransport = True, ncHealth = True,
     ncElection = \<lparr>Threshold = Fin 0, Hysteresis = Fin 0\<rparr>, ncProbeInterval = 0, ncElectionFloor = 0,
     ncProbeTimeout = 0, ncRehome = Fin 0, ncQueueDepth = 0, ncGossipInterval = 0, ncConnect = True,
     ncRetainer = True, ncOnTaskResult = True, ncHeartbeatInterval = 0, ncHeartbeatMisses = 0,
     ncSuspectAfter = 0, ncDeadAfter = 0, ncSuspicionTimeout = 0, ncTombstoneTTL = 0,
     ncStateSyncInterval = 0, ncLedgerSize = 2\<rparr>"

definition ex_node :: node where
  "ex_node = publish (newState (NodeConfig_withDefaults ex_cfgN))"

lemma ex_node_new: "NewNode ex_cfgN = Inr ex_node"
  by (simp add: NewNode_def Let_def ex_cfgN_def NodeConfig_withDefaults_def DefaultRoundTimeout_def
      DefaultProbeTimeout_def Second_def Millisecond_def ex_node_def)

lemma ex_node_ok: "node_ok ex_node"
  using NewNode_ok[OF ex_node_new] .

lemma ex_node_fields [simp]:
  "nLeaders ex_node = []" "nLeader ex_node = ''''" "nAttached ex_node = {||}" "self ex_node = ''w''"
  "ncLedgerSize (nCfg ex_node) = 2" "ledger (nRepl ex_node) = []" "rHeld (nRepl ex_node) = False"
  "nTerm ex_node = 0" "nIncarnation ex_node = 1" "nSuspects ex_node = fmempty" "nJoinID ex_node = ''''"
  "nTable ex_node = fst (Upsert NewTable \<lparr>mID = ''w'', mAddr = ''w:1'', mRole = RoleWorker,
     mState = StateAlive, mIncarnation = 1, mScore = ScoreUnavailable, mSeq = 1\<rparr>)"
  "nTasks ex_node = \<lparr>inflight = 0, tNext = 0, reissueDue = False, handoff = []\<rparr>"
  "\<not> nHung ex_node"
  by (simp_all add: ex_node_def newState_def self_def ex_cfgN_def NodeConfig_withDefaults_def pos_or_def)

text \<open>An environment whose sends all succeed and whose correlation IDs are all different.\<close>

definition ex_envr :: env where
  "ex_envr = \<lparr>envSendOK = (\<lambda>k to. True), envNewID = (\<lambda>k. replicate (Suc k) (CHR ''x'')),
     envClock = (\<lambda>k. 0), envWall = (\<lambda>k. 0), envShuffle = (\<lambda>k ids. ids)\<rparr>"

end
