(* ===== verification/Replication.thy ===== *)
theory Replication
  imports NodeState "HOL-Library.Sublist"
begin

text \<open>
  STATE_SYNC replication, \<open>pkg/cluster/replication.go\<close>: the bounded task ledger and its eviction
  rule, the encoding of a snapshot under the frame budget, the flush after every loop event, and
  the worker side that replaces its copy by a newer one. The trimming loop of \<open>syncPayload\<close> may
  not end, so it is a partial function and \<open>None\<close> is the loop that never returns; a node in that
  state is marked \<open>nHung\<close>. The length of a raw body is the length of its rendering.
\<close>

section \<open>Definitions\<close>

definition taskPending :: string where "taskPending = ''pending''"
definition taskDone :: string where "taskDone = ''done''"
definition taskFailed :: string where "taskFailed = ''failed''"

definition MaxFrameSize :: nat where "MaxFrameSize = 2 ^ 20"
definition maxRecordBody :: nat where "maxRecordBody = 2 ^ 10"
definition maxRecordResult :: nat where "maxRecordResult = 512"
definition syncBudget :: nat where "syncBudget = MaxFrameSize - 64 * 2 ^ 10"

definition RuneStart :: "char \<Rightarrow> bool" where
  "RuneStart c = (\<not> (128 \<le> (of_char c :: nat) \<and> (of_char c :: nat) < 192))"

fun rune_cut :: "string \<Rightarrow> nat \<Rightarrow> nat" where
  "rune_cut s 0 = 0"
| "rune_cut s (Suc n) = (if RuneStart (s ! Suc n) then Suc n else rune_cut s n)"

definition truncateUTF8 :: "string \<Rightarrow> nat \<Rightarrow> string" where
  "truncateUTF8 s n = (if length s \<le> n then s else take (rune_cut s n) s)"

definition changed :: "replica \<Rightarrow> replica" where
  "changed r = r\<lparr>rVersion := rVersion r + 1, rDirty := True, pubStale := True\<rparr>"

definition victim :: "TaskRecord list \<Rightarrow> nat" where
  "victim l = (case index_func (\<lambda>r. trState r \<noteq> taskPending) l of None \<Rightarrow> 0 | Some i \<Rightarrow> i)"

lemma victim_less: "l \<noteq> [] \<Longrightarrow> victim l < length l"
  using index_func_Some by (fastforce simp: victim_def split: option.splits)

text \<open>The eviction loop. A ledger size below 1 cannot occur (\<open>withDefaults\<close>).\<close>

function evict :: "int \<Rightarrow> TaskRecord list \<Rightarrow> TaskRecord list" where
  "evict cap l =
     (if l \<noteq> [] \<and> cap \<le> int (length l) then evict cap (delete_at (victim l) l) else l)"
  by pat_completeness auto

termination
proof (relation "measure (length \<circ> snd)")
  fix cap :: int and l :: "TaskRecord list"
  assume "l \<noteq> [] \<and> cap \<le> int (length l)"
  then show "((cap, delete_at (victim l) l), (cap, l)) \<in> measure (length \<circ> snd)"
    using length_delete_at[of "victim l" l] victim_less[of l] by simp
qed simp

declare evict.simps [simp del]

definition capped :: "TaskRecord \<Rightarrow> TaskRecord" where
  "capped rec =
     (case trBody rec of None \<Rightarrow> rec
      | Some b \<Rightarrow> if maxRecordBody < jlen b then rec\<lparr>trBody := None\<rparr> else rec)"

definition ledgerAppend :: "TaskRecord \<Rightarrow> node \<Rightarrow> node" where
  "ledgerAppend rec n =
     (let led = evict (ncLedgerSize (nCfg n)) (ledger (nRepl n))
      in n\<lparr>nRepl := changed ((nRepl n)\<lparr>ledger := led @ [capped rec]\<rparr>)\<rparr>)"

fun drop_records :: "nat \<Rightarrow> bool \<Rightarrow> TaskRecord list \<Rightarrow> TaskRecord list" where
  "drop_records d anyone [] = []"
| "drop_records d anyone (r # rs) =
     (if 0 < d \<and> (trState r \<noteq> taskPending \<or> anyone) then drop_records (d - 1) anyone rs
      else r # drop_records d anyone rs)"

text \<open>One round of trimming: the older half of the completed records, else of everything.\<close>

definition trim :: "TaskRecord list \<Rightarrow> TaskRecord list" where
  "trim l =
     (let finished = length (filter (\<lambda>r. trState r \<noteq> taskPending) l);
          d = (if finished = 0 then max (length l div 2) 1 else max (finished div 2) 1)
      in drop_records d (finished = 0) l)"

partial_function (option) sync_loop :: "StateSyncPayload \<Rightarrow> json option" where
  "sync_loop p =
     (let b = enc_StateSync p
      in if jlen b \<le> syncBudget then Some b
         else sync_loop (p\<lparr>ssLedger := trim (ssLedger p)\<rparr>))"

definition syncPayload :: "NodeID list \<Rightarrow> node \<Rightarrow> json option" where
  "syncPayload workers n =
     sync_loop \<lparr>ssTerm = nTerm n, ssLeader = self n, ssWorkers = workers, ssLedger = ledger (nRepl n),
       ssVersion = rVersion (nRepl n)\<rparr>"

definition sync_envelope :: "env \<Rightarrow> json \<Rightarrow> NodeID \<Rightarrow> node \<Rightarrow> Envelope" where
  "sync_envelope e payload w n =
     \<lparr>eVersion = CurrentVersion, eType = TypeStateSync, eFrom = self n, eTo = w,
      eID = envNewID e (length (nTrace n)), eSentAt = Now e n, ePayload = Some payload\<rparr>"

definition sendSync :: "env \<Rightarrow> NodeID list \<Rightarrow> node \<Rightarrow> node" where
  "sendSync e workers n =
     (if workers = [] then n
      else case syncPayload workers n of
        None \<Rightarrow> n\<lparr>nHung := True\<rparr>
      | Some payload \<Rightarrow> foldl (\<lambda>n w. fst (Send e w (sync_envelope e payload w n) n)) n workers)"

definition flushSync :: "env \<Rightarrow> node \<Rightarrow> node" where
  "flushSync e n =
     (if \<not> isLeader n then n
      else let workers = attachedIDs n;
               r1 = (if workers \<noteq> sentWorkers (nRepl n) then changed (nRepl n) else nRepl n);
               r2 = (if nTerm n \<noteq> sentTerm r1 then r1\<lparr>rDirty := True\<rparr> else r1)
           in if \<not> rDirty r2 then n\<lparr>nRepl := r2\<rparr>
              else publish (sendSync e workers
                     (n\<lparr>nRepl := r2\<lparr>rDirty := False, sentWorkers := workers, sentTerm := nTerm n\<rparr>\<rparr>)))"

definition periodicSync :: "env \<Rightarrow> node \<Rightarrow> node" where
  "periodicSync e n = (if isLeader n then sendSync e (attachedIDs n) n else n)"

definition newerSnapshot :: "uint64 \<Rightarrow> uint64 \<Rightarrow> uint64 \<Rightarrow> uint64 \<Rightarrow> bool" where
  "newerSnapshot term ver heldTerm heldVersion =
     (if term \<noteq> heldTerm then heldTerm < term else heldVersion < ver)"

definition newest :: "int \<Rightarrow> TaskRecord list \<Rightarrow> TaskRecord list" where
  "newest cap l =
     (let extra = int (length l) - cap in if 0 < extra then drop (nat extra) l else l)"

definition handleStateSync :: "NodeID \<Rightarrow> StateSyncPayload \<Rightarrow> node \<Rightarrow> node" where
  "handleStateSync from p n =
     (if isLeader n \<or> from \<noteq> nLeader n \<or> (ssLeader p \<noteq> '''' \<and> ssLeader p \<noteq> from) then n
      else let n1 = (if nTerm n < ssTerm p then n\<lparr>nTerm := ssTerm p\<rparr> else n) in
        if rHeld (nRepl n1) \<and>
           \<not> newerSnapshot (ssTerm p) (ssVersion p) (rTerm (nRepl n1)) (rVersion (nRepl n1))
        then publish n1
        else publish (n1\<lparr>nRepl := (nRepl n1)\<lparr>ledger := newest (ncLedgerSize (nCfg n1)) (ssLedger p),
               rVersion := ssVersion p, rTerm := ssTerm p, rHeld := True, pubStale := True\<rparr>\<rparr>))"

section \<open>The ledger\<close>

lemma subseq_delete_at: "subseq (delete_at i l) l"
proof -
  have "subseq (drop (Suc i) l) (drop i l)"
    by (metis Suc_n_not_le_n drop_Suc drop_drop plus_1_eq_Suc suffix_drop suffix_imp_subseq)
  then have "subseq (take i l @ drop (Suc i) l) (take i l @ drop i l)"
    by (intro list_emb_append_mono) simp_all
  then show ?thesis by (simp add: delete_at_def)
qed

lemma evict_bound: "0 < cap \<Longrightarrow> int (length (evict cap l)) < cap"
proof (induction cap l rule: evict.induct)
  case (1 cap l)
  then show ?case by (subst evict.simps) auto
qed

lemma evict_small [simp]: "int (length l) < cap \<Longrightarrow> evict cap l = l"
  by (subst evict.simps) simp

lemma evict_subseq: "subseq (evict cap l) l"
proof (induction cap l rule: evict.induct)
  case (1 cap l)
  then show ?case
    using subseq_delete_at[of "victim l" l] subseq_order.order_trans
    by (subst evict.simps) auto
qed

lemma set_delete_at: "i < length l \<Longrightarrow> set l = insert (l ! i) (set (delete_at i l))"
  by (subst id_take_nth_drop[of i l]) (auto simp: delete_at_def)

text \<open>A pending record goes only when nothing else is left to go.\<close>

lemma evict_pending:
  assumes "r \<in> set l" "r \<notin> set (evict cap l)" "trState r = taskPending"
  shows "\<forall>k\<in>set (evict cap l). trState k = taskPending"
  using assms
proof (induction cap l rule: evict.induct)
  case (1 cap l)
  show ?case
  proof (cases "l \<noteq> [] \<and> cap \<le> int (length l)")
    case True
    then have ev: "evict cap l = evict cap (delete_at (victim l) l)"
      by (subst evict.simps) simp
    show ?thesis
    proof (cases "r \<in> set (delete_at (victim l) l)")
      case r: True
      then show ?thesis using "1.IH"[OF True r] "1.prems"(2,3) ev by simp
    next
      case False
      then have "l ! victim l = r"
        using "1.prems"(1) True set_delete_at[of "victim l" l] victim_less[of l] by auto
      then have "index_func (\<lambda>r. trState r \<noteq> taskPending) l = None"
        using "1.prems"(3) index_func_Some[of "\<lambda>r. trState r \<noteq> taskPending" l]
        by (cases "index_func (\<lambda>r. trState r \<noteq> taskPending) l") (auto simp: victim_def)
      then have "\<forall>k\<in>set l. trState k = taskPending" by simp
      then show ?thesis
        using evict_subseq[of cap l] list_emb_set[of "(=)"] by metis
    qed
  next
    case False
    then show ?thesis using "1.prems" by (subst (asm) evict.simps) auto
  qed
qed

lemma capped_fields [simp]:
  "trTaskID (capped r) = trTaskID r" "trState (capped r) = trState r" "trKind (capped r) = trKind r"
  "trAssignedTo (capped r) = trAssignedTo r" "trResult (capped r) = trResult r"
  by (auto simp: capped_def split: option.split)

lemma changed_fields [simp]:
  "ledger (changed r) = ledger r" "rVersion (changed r) = rVersion r + 1" "rDirty (changed r)"
  "pubStale (changed r)" "sentWorkers (changed r) = sentWorkers r" "sentTerm (changed r) = sentTerm r"
  "rHeld (changed r) = rHeld r" "rTerm (changed r) = rTerm r"
  by (simp_all add: changed_def)

section \<open>The trimming loop\<close>

lemma drop_records_subseq: "subseq (drop_records d a l) l"
  by (induction d a l rule: drop_records.induct) (auto intro: subseq_order.order_trans)

lemma drop_records_none: "(\<forall>r\<in>set l. trState r = taskPending) \<Longrightarrow> drop_records d True l = drop d l"
  by (induction l arbitrary: d) (auto simp: drop_Cons' )

lemma drop_records_pending:
  "r \<in> set l \<Longrightarrow> trState r = taskPending \<Longrightarrow> r \<in> set (drop_records d False l)"
  by (induction d False l rule: drop_records.induct) auto

lemma drop_records_shorter:
  assumes "0 < d" "\<exists>r\<in>set l. trState r \<noteq> taskPending \<or> a"
  shows "length (drop_records d a l) < length l"
  using assms
proof (induction d a l rule: drop_records.induct)
  case (2 d a r rs)
  show ?case
  proof (cases "trState r \<noteq> taskPending \<or> a")
    case True
    have "length (drop_records (d - 1) a rs) \<le> length rs"
      by (rule list_emb_length[OF drop_records_subseq])
    then show ?thesis using True "2.prems"(1) by simp
  next
    case False
    then show ?thesis using 2 by auto
  qed
qed simp

lemma trim_subseq: "subseq (trim l) l"
  by (simp add: trim_def Let_def drop_records_subseq)

lemma trim_shorter: "l \<noteq> [] \<Longrightarrow> length (trim l) < length l"
  unfolding trim_def Let_def
  by (intro drop_records_shorter) (auto simp: filter_empty_conv dest: hd_in_set)

lemma trim_pending:
  assumes "r \<in> set l" "r \<notin> set (trim l)" "trState r = taskPending"
  shows "\<forall>k\<in>set l. trState k = taskPending"
proof (cases "\<forall>k\<in>set l. trState k = taskPending")
  case False
  then have "length (filter (\<lambda>r. trState r \<noteq> taskPending) l) = 0 \<longleftrightarrow> False"
    by (auto simp: filter_empty_conv)
  then have "trim l = drop_records (max (length (filter (\<lambda>r. trState r \<noteq> taskPending) l) div 2) 1) False l"
    unfolding trim_def Let_def by (simp only: if_False)
  then show ?thesis using assms drop_records_pending by simp
qed simp

text \<open>What the loop returns: the snapshot with a thinned ledger, within the budget.\<close>

definition trimmed_of :: "TaskRecord list \<Rightarrow> TaskRecord list \<Rightarrow> bool" where
  "trimmed_of l l0 \<longleftrightarrow> subseq l l0 \<and>
     (\<forall>r\<in>set l0. r \<notin> set l \<and> trState r = taskPending \<longrightarrow> (\<forall>k\<in>set l. trState k = taskPending))"

lemma trimmed_of_refl: "trimmed_of l l"
  by (simp add: trimmed_of_def)

lemma trimmed_of_trim: "trimmed_of l (trim l0) \<Longrightarrow> trimmed_of l l0"
  unfolding trimmed_of_def
proof (intro conjI ballI impI)
  assume t: "subseq l (trim l0) \<and> (\<forall>r\<in>set (trim l0). r \<notin> set l \<and> trState r = taskPending \<longrightarrow>
    (\<forall>k\<in>set l. trState k = taskPending))"
  then show "subseq l l0" using trim_subseq subseq_order.order_trans by blast
  then have sub: "set l \<subseteq> set l0" using list_emb_set[of "(=)" l l0] by auto
  fix r k assume "r \<in> set l0" "r \<notin> set l \<and> trState r = taskPending" "k \<in> set l"
  then show "trState k = taskPending"
    using t trim_pending[of r l0] sub by (cases "r \<in> set (trim l0)") auto
qed

lemma sync_loop_returns:
  assumes "jlen (enc_StateSync (p\<lparr>ssLedger := []\<rparr>)) \<le> syncBudget"
  shows "\<exists>l. sync_loop p = Some (enc_StateSync (p\<lparr>ssLedger := l\<rparr>)) \<and> trimmed_of l (ssLedger p) \<and>
    jlen (enc_StateSync (p\<lparr>ssLedger := l\<rparr>)) \<le> syncBudget"
  using assms
proof (induction "length (ssLedger p)" arbitrary: p rule: less_induct)
  case less
  have same: "p\<lparr>ssLedger := ssLedger p\<rparr> = p" by simp
  show ?case
  proof (cases "jlen (enc_StateSync p) \<le> syncBudget")
    case True
    then have "sync_loop p = Some (enc_StateSync p)" by (simp add: sync_loop.simps)
    then show ?thesis using True trimmed_of_refl same by (intro exI[of _ "ssLedger p"]) simp
  next
    case False
    then have step: "sync_loop p = sync_loop (p\<lparr>ssLedger := trim (ssLedger p)\<rparr>)"
      by (subst sync_loop.simps) (simp add: Let_def)
    have "ssLedger p \<noteq> []"
    proof
      assume "ssLedger p = []"
      then have "p\<lparr>ssLedger := []\<rparr> = p" by simp
      then show False using False less.prems by simp
    qed
    then have "length (ssLedger (p\<lparr>ssLedger := trim (ssLedger p)\<rparr>)) < length (ssLedger p)"
      by (simp add: trim_shorter)
    from less.hyps[OF this] less.prems obtain l where
      "sync_loop (p\<lparr>ssLedger := trim (ssLedger p)\<rparr>) = Some (enc_StateSync (p\<lparr>ssLedger := l\<rparr>))"
      "trimmed_of l (trim (ssLedger p))" "jlen (enc_StateSync (p\<lparr>ssLedger := l\<rparr>)) \<le> syncBudget"
      by auto
    then show ?thesis using step trimmed_of_trim by (intro exI[of _ l]) simp
  qed
qed

lemma sync_loop_Some:
  assumes "sync_loop p = Some b"
  shows "(\<exists>l. b = enc_StateSync (p\<lparr>ssLedger := l\<rparr>)) \<and> jlen b \<le> syncBudget"
proof (rule sync_loop.raw_induct[OF _ assms])
  fix f :: "StateSyncPayload \<Rightarrow> json option" and p b
  assume IH: "\<And>x y. f x = Some y \<Longrightarrow> (\<exists>l. y = enc_StateSync (x\<lparr>ssLedger := l\<rparr>)) \<and> jlen y \<le> syncBudget"
    and step: "(let b = enc_StateSync p in if jlen b \<le> syncBudget then Some b
      else f (p\<lparr>ssLedger := trim (ssLedger p)\<rparr>)) = Some b"
  show "(\<exists>l. b = enc_StateSync (p\<lparr>ssLedger := l\<rparr>)) \<and> jlen b \<le> syncBudget"
  proof (cases "jlen (enc_StateSync p) \<le> syncBudget")
    case True
    then have "b = enc_StateSync p" using step by (simp add: Let_def)
    moreover have "p = p\<lparr>ssLedger := ssLedger p\<rparr>" by simp
    ultimately show ?thesis using True by metis
  next
    case False
    then have "f (p\<lparr>ssLedger := trim (ssLedger p)\<rparr>) = Some b" using step by (simp add: Let_def)
    from IH[OF this] obtain l where "b = enc_StateSync (p\<lparr>ssLedger := trim (ssLedger p), ssLedger := l\<rparr>)"
      "jlen b \<le> syncBudget" by blast
    then show ?thesis by auto
  qed
qed

lemma commas_length: "length (commas xs) \<ge> (\<Sum>x\<leftarrow>xs. length x)"
  by (cases xs) (simp_all add: commas_def length_concat o_def sum_list_Suc)

lemma jlen_ledger: "jlen (enc_StateSync (p\<lparr>ssLedger := []\<rparr>)) \<le> jlen (enc_StateSync p)"
  by (simp add: jlen_def enc_StateSync_def commas_def)

text \<open>The loop never returns exactly when the roster alone is over the budget.\<close>

lemma sync_loop_hangs:
  "sync_loop p = None \<longleftrightarrow> syncBudget < jlen (enc_StateSync (p\<lparr>ssLedger := []\<rparr>))"
proof
  assume "sync_loop p = None"
  then show "syncBudget < jlen (enc_StateSync (p\<lparr>ssLedger := []\<rparr>))"
    using sync_loop_returns[of p] by (cases "jlen (enc_StateSync (p\<lparr>ssLedger := []\<rparr>)) \<le> syncBudget") auto
next
  assume big: "syncBudget < jlen (enc_StateSync (p\<lparr>ssLedger := []\<rparr>))"
  show "sync_loop p = None"
  proof (rule ccontr)
    assume "sync_loop p \<noteq> None"
    then obtain b where "sync_loop p = Some b" by auto
    then obtain l where "jlen (enc_StateSync (p\<lparr>ssLedger := l\<rparr>)) \<le> syncBudget"
      using sync_loop_Some by metis
    then show False using jlen_ledger[of "p\<lparr>ssLedger := l\<rparr>"] big by simp
  qed
qed

section \<open>What replication leaves alone\<close>

lemma core_sends [simp]: "core (foldl (\<lambda>n w. fst (Send e w (f w n) n)) n ws) = core n"
  by (induction ws arbitrary: n) simp_all

lemma sendSync_cases: "core (sendSync e ws n) = core n \<or> core (sendSync e ws n) = core (n\<lparr>nHung := True\<rparr>)"
  by (auto simp: sendSync_def split: option.split)

lemma node_ok_hung [simp]: "node_ok (n\<lparr>nHung := True\<rparr>) = node_ok n"
  by (simp add: node_ok_defs)

lemma sendSync_ok [simp]: "node_ok (sendSync e ws n) = node_ok n"
  using sendSync_cases[of e ws n] node_ok_core[of "sendSync e ws n" n]
    node_ok_core[of "sendSync e ws n" "n\<lparr>nHung := True\<rparr>"] by auto

lemma node_ok_repl:
  "ledger r = ledger (nRepl n) \<Longrightarrow> node_ok (n\<lparr>nRepl := r\<rparr>) = node_ok n"
  by (simp add: node_ok_defs)

lemma flushSync_ok [simp]: "node_ok (flushSync e n) = node_ok n"
  by (simp add: flushSync_def Let_def node_ok_repl)

lemma periodicSync_ok [simp]: "node_ok (periodicSync e n) = node_ok n"
  by (simp add: periodicSync_def)

lemma newest_length: "0 < cap \<Longrightarrow> int (length (newest cap l)) \<le> cap"
  by (simp add: newest_def Let_def)

lemma handleStateSync_ok:
  assumes "node_ok n" shows "node_ok (handleStateSync from p n)"
proof -
  have "0 < ncLedgerSize (nCfg n)" using assms by (simp add: node_ok_def hold_ok_def)
  from newest_length[OF this, of "ssLedger p"] show ?thesis
    using assms
    by (auto simp: handleStateSync_def Let_def hold_ok_def node_ok_def[of n] intro!: node_ok_frame[OF assms])
qed

lemma ledgerAppend_ok:
  assumes "node_ok n" shows "node_ok (ledgerAppend rec n)"
proof -
  have "0 < ncLedgerSize (nCfg n)" using assms by (simp add: node_ok_def hold_ok_def)
  from evict_bound[OF this, of "ledger (nRepl n)"] show ?thesis
    by (intro node_ok_frame[OF assms]) (simp_all add: ledgerAppend_def hold_ok_def)
qed

lemma handleStateSync_frame [simp]:
  "nLeaders (handleStateSync from p n) = nLeaders n" "nLeader (handleStateSync from p n) = nLeader n"
  "nCfg (handleStateSync from p n) = nCfg n" "nTable (handleStateSync from p n) = nTable n"
  "nTasks (handleStateSync from p n) = nTasks n" "nAttached (handleStateSync from p n) = nAttached n"
  by (simp_all add: handleStateSync_def Let_def)

lemma handleStateSync_isLeader [simp]: "isLeader (handleStateSync from p n) = isLeader n"
  by (simp add: isLeader_def self_def)

lemma newerSnapshot_trans:
  "\<not> newerSnapshot t1 v1 t2 v2 \<Longrightarrow> newerSnapshot t3 v3 t2 v2 \<Longrightarrow> \<not> newerSnapshot t1 v1 t3 v3"
  by (auto simp: newerSnapshot_def not_less split: if_splits)

lemma newerSnapshot_irrefl [simp]: "\<not> newerSnapshot t v t v"
  by (simp add: newerSnapshot_def)

section \<open>Properties\<close>

definition ex_task :: "string \<Rightarrow> string \<Rightarrow> TaskRecord" where
  "ex_task i s = \<lparr>trTaskID = i, trAssignedTo = '''', trState = s, trResult = '''', trKind = ''echo'', trBody = None\<rparr>"

text \<open>The ledger is bounded and forgets in the right order: an append leaves at most LedgerSize records
  with the new one last, keeps the others in order, and loses a pending task only when every
  record it keeps of the old ledger is pending.\<close>

theorem ledger_append_bounded:
  assumes "0 < ncLedgerSize (nCfg n)"
  shows "\<exists>kept. ledger (nRepl (ledgerAppend rec n)) = kept @ [capped rec] \<and> subseq kept (ledger (nRepl n)) \<and>
    int (length (ledger (nRepl (ledgerAppend rec n)))) \<le> ncLedgerSize (nCfg n) \<and>
    (\<forall>r\<in>set (ledger (nRepl n)). trState r = taskPending \<and> r \<notin> set kept \<longrightarrow>
       (\<forall>k\<in>set kept. trState k = taskPending))"
proof -
  let ?kept = "evict (ncLedgerSize (nCfg n)) (ledger (nRepl n))"
  have "ledger (nRepl (ledgerAppend rec n)) = ?kept @ [capped rec]"
    by (simp add: ledgerAppend_def)
  then show ?thesis
    using evict_bound[OF assms, of "ledger (nRepl n)"] evict_subseq
      evict_pending[of _ "ledger (nRepl n)" "ncLedgerSize (nCfg n)"]
    by (intro exI[of _ ?kept]) auto
qed

theorem ledger_append_bounded_witness:
  "length (ledger (nRepl (ledgerAppend (ex_task ''t'' taskPending) ex_node))) \<le> 2"
  using ledger_append_bounded[of ex_node "ex_task ''t'' taskPending"] by auto

text \<open>C24: Encoding a snapshot ends, within the frame budget, unless the roster alone exceeds it: the snapshot
  sent is the whole ledger when that fits, and otherwise a thinned copy from which a pending task
  is missing only if everything kept is pending.\<close>

theorem sync_payload_fits:
  assumes "p = \<lparr>ssTerm = nTerm n, ssLeader = self n, ssWorkers = ws, ssLedger = [], ssVersion = rVersion (nRepl n)\<rparr>"
    and "jlen (enc_StateSync p) \<le> syncBudget"
  shows "\<exists>l. syncPayload ws n = Some (enc_StateSync (p\<lparr>ssLedger := l\<rparr>)) \<and>
    jlen (enc_StateSync (p\<lparr>ssLedger := l\<rparr>)) \<le> syncBudget \<and> trimmed_of l (ledger (nRepl n)) \<and>
    (jlen (enc_StateSync (p\<lparr>ssLedger := ledger (nRepl n)\<rparr>)) \<le> syncBudget \<longrightarrow> l = ledger (nRepl n))"
proof (cases "jlen (enc_StateSync (p\<lparr>ssLedger := ledger (nRepl n)\<rparr>)) \<le> syncBudget")
  case True
  then have "syncPayload ws n = Some (enc_StateSync (p\<lparr>ssLedger := ledger (nRepl n)\<rparr>))"
    unfolding syncPayload_def by (subst sync_loop.simps) (simp add: assms(1) Let_def)
  then show ?thesis using True trimmed_of_refl by (intro exI[of _ "ledger (nRepl n)"]) simp
next
  case False
  have "p\<lparr>ssLedger := []\<rparr> = p" using assms(1) by simp
  then show ?thesis
    using sync_loop_returns[of "p\<lparr>ssLedger := ledger (nRepl n)\<rparr>"] assms(2) False
    by (auto simp: syncPayload_def assms(1))
qed

theorem sync_payload_fits_witness:
  "\<exists>l. syncPayload [] ex_node = Some (enc_StateSync
     \<lparr>ssTerm = 0, ssLeader = ''w'', ssWorkers = [], ssLedger = l, ssVersion = rVersion (nRepl ex_node)\<rparr>)"
proof -
  have v: "rVersion (nRepl ex_node) = 0"
    by (simp add: ex_node_def newState_def)
  have "jlen (enc_StateSync \<lparr>ssTerm = 0, ssLeader = ''w'', ssWorkers = [], ssLedger = [], ssVersion = 0\<rparr>) \<le> 100"
    by code_simp
  then have "jlen (enc_StateSync \<lparr>ssTerm = 0, ssLeader = ''w'', ssWorkers = [], ssLedger = [], ssVersion = 0\<rparr>) \<le> syncBudget"
    by (rule order_trans) (simp add: syncBudget_def MaxFrameSize_def)
  then show ?thesis using sync_payload_fits[OF refl, of ex_node "[]"] v by auto
qed

text \<open>C8: The newest snapshot wins, whatever the delivery: after any replayed, reordered or repeated delivery
  of its leader's snapshots, an attached worker holds (the newest LedgerSize records of) one that
  no other delivered snapshot is newer than, and its term has caught up with all of them.\<close>

theorem state_sync_newest_wins:
  assumes "\<not> isLeader n" "\<not> rHeld (nRepl n)" "ps \<noteq> []"
    and "\<forall>p\<in>set ps. ssLeader p = '''' \<or> ssLeader p = nLeader n"
    and "n' = foldl (\<lambda>n p. handleStateSync (nLeader n) p n) n ps"
  shows "\<exists>p\<in>set ps. ledger (nRepl n') = newest (ncLedgerSize (nCfg n)) (ssLedger p) \<and>
    rVersion (nRepl n') = ssVersion p \<and> rTerm (nRepl n') = ssTerm p \<and>
    (\<forall>q\<in>set ps. \<not> newerSnapshot (ssTerm q) (ssVersion q) (ssTerm p) (ssVersion p) \<and> ssTerm q \<le> nTerm n')"
proof -
  define run where "run = foldl (\<lambda>n p. handleStateSync (nLeader n) p n) n"
  have frame: "isLeader (run ps) = isLeader n \<and> nLeader (run ps) = nLeader n \<and> nCfg (run ps) = nCfg n" for ps
    by (induction ps rule: rev_induct) (simp_all add: run_def)
  have "rHeld (nRepl (run ps)) \<and> (\<exists>p\<in>set ps. ledger (nRepl (run ps)) = newest (ncLedgerSize (nCfg n)) (ssLedger p) \<and>
    rVersion (nRepl (run ps)) = ssVersion p \<and> rTerm (nRepl (run ps)) = ssTerm p \<and>
    (\<forall>q\<in>set ps. \<not> newerSnapshot (ssTerm q) (ssVersion q) (ssTerm p) (ssVersion p) \<and> ssTerm q \<le> nTerm (run ps)))"
    using assms(3,4)
  proof (induction ps rule: rev_nonempty_induct)
    case (single p)
    then show ?case using assms(1,2) by (auto simp: run_def handleStateSync_def Let_def not_less)
  next
    case (snoc p ps)
    let ?n = "run ps"
    have step: "run (ps @ [p]) = handleStateSync (nLeader ?n) p ?n" by (simp add: run_def)
    have ok: "\<not> isLeader ?n" "ssLeader p = '''' \<or> ssLeader p = nLeader ?n"
      using frame[of ps] assms(1) snoc.prems by auto
    obtain b where b: "b \<in> set ps" "ledger (nRepl ?n) = newest (ncLedgerSize (nCfg n)) (ssLedger b)"
      "rVersion (nRepl ?n) = ssVersion b" "rTerm (nRepl ?n) = ssTerm b" "rHeld (nRepl ?n)"
      "\<forall>q\<in>set ps. \<not> newerSnapshot (ssTerm q) (ssVersion q) (ssTerm b) (ssVersion b) \<and> ssTerm q \<le> nTerm ?n"
      using snoc by auto
    show ?case
    proof (cases "newerSnapshot (ssTerm p) (ssVersion p) (ssTerm b) (ssVersion b)")
      case True
      then have "\<forall>q\<in>set ps. \<not> newerSnapshot (ssTerm q) (ssVersion q) (ssTerm p) (ssVersion p)"
        using b(6) newerSnapshot_trans by blast
      then show ?thesis
        using ok True b(3-6) frame[of ps] unfolding step
        by (intro conjI bexI[of _ p]) (auto simp: handleStateSync_def Let_def not_less intro: order_trans)
    next
      case False
      then show ?thesis
        using ok b frame[of ps] unfolding step
        by (intro conjI bexI[of _ b]) (auto simp: handleStateSync_def Let_def not_less intro: order_trans)
    qed
  qed
  then show ?thesis using assms(5) by (simp add: run_def)
qed

definition ex_snap :: "uint64 \<Rightarrow> StateSyncPayload" where
  "ex_snap v = \<lparr>ssTerm = 1, ssLeader = '''', ssWorkers = [], ssLedger = [ex_task ''t'' taskPending], ssVersion = v\<rparr>"

theorem state_sync_newest_wins_witness:
  "rVersion (nRepl (foldl (\<lambda>n p. handleStateSync (nLeader n) p n) ex_node [ex_snap 2, ex_snap 1])) \<in> {1, 2}"
proof -
  have "\<not> isLeader ex_node" by (simp add: isLeader_def)
  then show ?thesis
    using state_sync_newest_wins[OF _ _ _ _ refl, of ex_node "[ex_snap 2, ex_snap 1]"]
    by (auto simp: ex_snap_def)
qed

end
