(* ===== verification/Tasks.thy ===== *)
theory Tasks
  imports Replication
begin

text \<open>
  Tasks, \<open>pkg/cluster/tasks.go\<close>: submission, assignment to attached workers in turn, execution
  bookkeeping, results, and the three failover paths (re-assignment of a dead worker's tasks,
  re-issue after a promotion, hand-over to the next leader). A task goroutine is the effect
  \<open>Launched\<close>; its outcome comes back as a later loop event.
\<close>

section \<open>Sending and the ledger\<close>

definition maxInflightTasks :: int where "maxInflightTasks = 256"

definition sendTask :: "env \<Rightarrow> NodeID \<Rightarrow> TaskPayload \<Rightarrow> node \<Rightarrow> node \<times> bool" where
  "sendTask e to t n = sendTo e TypeTask to (Some (enc_Task t)) n"

definition ledgerIndex :: "string \<Rightarrow> node \<Rightarrow> nat option" where
  "ledgerIndex taskID n = index_func (\<lambda>r. trTaskID r = taskID) (ledger (nRepl n))"

definition setAssignee :: "string \<Rightarrow> NodeID \<Rightarrow> node \<Rightarrow> node" where
  "setAssignee taskID w n =
     (case ledgerIndex taskID n of
        None \<Rightarrow> n
      | Some i \<Rightarrow>
          if trAssignedTo (ledger (nRepl n) ! i) \<noteq> w
          then n\<lparr>nRepl := changed ((nRepl n)\<lparr>ledger :=
                 (ledger (nRepl n))[i := (ledger (nRepl n) ! i)\<lparr>trAssignedTo := w\<rparr>]\<rparr>)\<rparr>
          else n)"

section \<open>Results\<close>

definition sendResultTo :: "env \<Rightarrow> NodeID \<Rightarrow> TaskResultPayload \<Rightarrow> node \<Rightarrow> node \<times> bool" where
  "sendResultTo e to res n = sendTo e TypeTaskResult to (enc_TaskResult res) n"

text \<open>The record a result leaves behind.\<close>

definition finished :: "TaskResultPayload \<Rightarrow> TaskRecord \<Rightarrow> TaskRecord" where
  "finished res r =
     r\<lparr>trState := (if resOK res then taskDone else taskFailed),
       trResult := truncateUTF8 (resOutput res) maxRecordResult, trBody := None,
       trAssignedTo := (if resWorker res \<noteq> '''' then resWorker res else trAssignedTo r)\<rparr>"

definition completeTask :: "TaskResultPayload \<Rightarrow> node \<Rightarrow> node" where
  "completeTask res n =
     (if \<not> isLeader n then n
      else case ledgerIndex (resTaskID res) n of
        None \<Rightarrow> n
      | Some i \<Rightarrow>
          let r = ledger (nRepl n) ! i in
          if trState r \<noteq> taskPending then n
          else let n' = n\<lparr>nRepl := changed ((nRepl n)\<lparr>ledger := (ledger (nRepl n))[i := finished res r]\<rparr>)\<rparr>
               in if ncOnTaskResult (nCfg n) then emit (Reported res) n' else n')"

definition sendResult :: "env \<Rightarrow> NodeID \<Rightarrow> TaskResultPayload \<Rightarrow> node \<Rightarrow> node" where
  "sendResult e to res n =
     (let (n1, ok) = sendResultTo e to res n in
      if ok then n1
      else if nLeader n1 = self n1 then completeTask res n1
      else if nLeader n1 \<noteq> '''' \<and> nLeader n1 \<noteq> to then fst (sendResultTo e (nLeader n1) res n1)
      else n1)"

text \<open>\<open>origin\<close> is the leader to report to, empty for a task this node ran as its own leader.\<close>

definition handleTaskOutcome :: "env \<Rightarrow> NodeID \<Rightarrow> TaskResultPayload \<Rightarrow> node \<Rightarrow> node" where
  "handleTaskOutcome e origin res n =
     (let n1 = n\<lparr>nTasks := (nTasks n)\<lparr>inflight := inflight (nTasks n) - 1\<rparr>\<rparr> in
      if origin = '''' then completeTask res n1 else sendResult e origin res n1)"

definition handleOutcomeNow :: "env \<Rightarrow> NodeID \<Rightarrow> TaskResultPayload \<Rightarrow> node \<Rightarrow> node" where
  "handleOutcomeNow e origin res n =
     handleTaskOutcome e origin res (n\<lparr>nTasks := (nTasks n)\<lparr>inflight := inflight (nTasks n) + 1\<rparr>\<rparr>)"

definition busy_result :: "TaskPayload \<Rightarrow> node \<Rightarrow> TaskResultPayload" where
  "busy_result t n = \<lparr>resTaskID = tTaskID t, resWorker = self n, resOK = False,
     resOutput = ''busy: too many running tasks'', resDurationMS = Fin 0\<rparr>"

definition launch :: "env \<Rightarrow> TaskPayload \<Rightarrow> NodeID \<Rightarrow> node \<Rightarrow> node" where
  "launch e t origin n =
     (if maxInflightTasks \<le> inflight (nTasks n) then handleOutcomeNow e origin (busy_result t n) n
      else emit (Launched t origin) (n\<lparr>nTasks := (nTasks n)\<lparr>inflight := inflight (nTasks n) + 1\<rparr>\<rparr>))"

text \<open>
  The task goroutine around the executor: a panic becomes a failed result, the identity and the
  duration (on the node's clock, in milliseconds) are filled in here.
\<close>

definition execute ::
  "node \<Rightarrow> duration \<Rightarrow> duration \<Rightarrow> TaskPayload \<Rightarrow> string + TaskResultPayload \<Rightarrow> TaskResultPayload" where
  "execute n start finish t outcome =
     (let res = (case outcome of
                   Inl panic \<Rightarrow> \<lparr>resTaskID = '''', resWorker = '''', resOK = False,
                                 resOutput = ''task panicked: '' @ panic, resDurationMS = Fin 0\<rparr>
                 | Inr r \<Rightarrow> r)
      in res\<lparr>resTaskID := tTaskID t, resWorker := self n,
             resDurationMS := f64_of_int (finish - start) / Fin 1000000\<rparr>)"

section \<open>Assignment\<close>

text \<open>The loop over the attached workers: the first that takes the task, and its offset.\<close>

fun try_workers ::
  "env \<Rightarrow> TaskPayload \<Rightarrow> NodeID list \<Rightarrow> nat \<Rightarrow> nat list \<Rightarrow> node \<Rightarrow> node \<times> nat option" where
  "try_workers e t workers next [] n = (n, None)"
| "try_workers e t workers next (k # ks) n =
     (let (n1, ok) = sendTask e (workers ! ((next + k) mod length workers)) t n in
      if ok then (n1, Some k) else try_workers e t workers next ks n1)"

definition assign :: "env \<Rightarrow> TaskPayload \<Rightarrow> node \<Rightarrow> node" where
  "assign e t n =
     (let workers = attachedIDs n; next = tNext (nTasks n) in
      case try_workers e t workers next [0..<length workers] n of
        (n1, Some k) \<Rightarrow>
          setAssignee (tTaskID t) (workers ! ((next + k) mod length workers))
            (n1\<lparr>nTasks := (nTasks n1)\<lparr>tNext := (next + k + 1) mod length workers\<rparr>\<rparr>)
      | (n1, None) \<Rightarrow> launch e t '''' (setAssignee (tTaskID t) (self n1) n1))"

definition leadTask :: "env \<Rightarrow> TaskPayload \<Rightarrow> node \<Rightarrow> node" where
  "leadTask e t n =
     (if ledgerIndex (tTaskID t) n \<noteq> None then n
      else assign e t (ledgerAppend
             \<lparr>trTaskID = tTaskID t, trAssignedTo = '''', trState = taskPending, trResult = '''',
              trKind = tKind t, trBody = tBody t\<rparr> n))"

datatype submit_result = Accepted | ErrNoLeader | ErrForward | ErrNoTaskID | ErrStopped

definition submit :: "env \<Rightarrow> TaskPayload \<Rightarrow> node \<Rightarrow> node \<times> submit_result" where
  "submit e t n =
     (if isLeader n then (leadTask e t n, Accepted)
      else if nLeader n = '''' then (n, ErrNoLeader)
      else let (n1, ok) = sendTask e (nLeader n) t n in (n1, if ok then Accepted else ErrForward))"

definition SubmitTask :: "env \<Rightarrow> TaskPayload \<Rightarrow> node \<Rightarrow> node \<times> submit_result" where
  "SubmitTask e t n = (if tTaskID t = '''' then (n, ErrNoTaskID) else submit e t n)"

text \<open>A TASK frame means what the sender's relationship to this node makes it mean.\<close>

definition handleTask :: "env \<Rightarrow> NodeID \<Rightarrow> TaskPayload \<Rightarrow> node \<Rightarrow> node" where
  "handleTask e from t n =
     (if tTaskID t = '''' then n
      else if from = nLeader n \<and> \<not> isLeader n then launch e t from n
      else if isLeader n \<and> from |\<in>| nAttached n then leadTask e t n
      else if contains (nLeaders n) from then launch e t from n
      else if isLeader n then leadTask e t n
      else n)"

definition handleTaskResult :: "NodeID \<Rightarrow> TaskResultPayload \<Rightarrow> node \<Rightarrow> node" where
  "handleTaskResult from res n =
     completeTask (if resWorker res = '''' then res\<lparr>resWorker := from\<rparr> else res) n"

section \<open>Failover\<close>


definition pendingTasks :: "(TaskRecord \<Rightarrow> bool) \<Rightarrow> node \<Rightarrow> TaskPayload list" where
  "pendingTasks keep n =
     map (\<lambda>r. \<lparr>tTaskID = trTaskID r, tKind = trKind r, tBody = trBody r\<rparr>)
       (filter (\<lambda>r. \<not> (trState r \<noteq> taskPending \<or> \<not> keep r) \<and> trKind r \<noteq> '''') (ledger (nRepl n)))"

definition assign_all :: "env \<Rightarrow> TaskPayload list \<Rightarrow> node \<Rightarrow> node" where
  "assign_all e ts n = foldl (\<lambda>n t. assign e t n) n ts"

definition reassignFrom :: "env \<Rightarrow> NodeID \<Rightarrow> node \<Rightarrow> node" where
  "reassignFrom e worker n =
     (if \<not> isLeader n then n
      else assign_all e (pendingTasks (\<lambda>r. trAssignedTo r = worker) n) n)"

definition tasksRoleChanged :: "bool \<Rightarrow> node \<Rightarrow> node" where
  "tasksRoleChanged leading n =
     (if leading then n\<lparr>nTasks := (nTasks n)\<lparr>reissueDue := True, handoff := []\<rparr>\<rparr>
      else n\<lparr>nTasks := (nTasks n)\<lparr>reissueDue := False, handoff := pendingTasks (\<lambda>r. True) n\<rparr>\<rparr>)"

definition adoptOrphans :: "node \<Rightarrow> node" where
  "adoptOrphans n =
     (if \<not> rHeld (nRepl n) then n
      else n\<lparr>nTasks := (nTasks n)\<lparr>handoff := pendingTasks (\<lambda>r. True) n\<rparr>\<rparr>)"

definition reissueIfDue :: "env \<Rightarrow> node \<Rightarrow> node" where
  "reissueIfDue e n =
     (if \<not> reissueDue (nTasks n) then n
      else let n1 = n\<lparr>nTasks := (nTasks n)\<lparr>reissueDue := False\<rparr>\<rparr>
           in assign_all e (pendingTasks (\<lambda>r. True) n1) n1)"

definition handOff :: "env \<Rightarrow> node \<Rightarrow> node" where
  "handOff e n =
     (if handoff (nTasks n) = [] \<or> nLeader n = '''' \<or> nLeader n = self n then n
      else let n1 = foldl (\<lambda>n' t. fst (sendTask e (nLeader n) t n')) n (handoff (nTasks n))
           in n1\<lparr>nTasks := (nTasks n1)\<lparr>handoff := []\<rparr>\<rparr>)"

section \<open>What the task operations leave alone\<close>

definition no_tasks :: "node \<Rightarrow> node" where
  "no_tasks n = (core n)\<lparr>nRepl := \<lparr>ledger = [], rVersion = 0, rDirty = False, sentWorkers = [],
     sentTerm = 0, rHeld = False, rTerm = 0, rPub = [], pubStale = False\<rparr>,
     nTasks := \<lparr>inflight = 0, tNext = 0, reissueDue = False, handoff = []\<rparr>\<rparr>"

lemma no_tasks_sel:
    "nCfg (no_tasks n) = nCfg n" "nTable (no_tasks n) = nTable n"
    "nIncarnation (no_tasks n) = nIncarnation n" "nTerm (no_tasks n) = nTerm n"
    "nLeaders (no_tasks n) = nLeaders n" "nLeader (no_tasks n) = nLeader n"
    "nHint (no_tasks n) = nHint n" "nJoinID (no_tasks n) = nJoinID n"
    "nRejections (no_tasks n) = nRejections n" "nAttached (no_tasks n) = nAttached n"
    "nLocal (no_tasks n) = nLocal n" "nReported (no_tasks n) = nReported n"
    "nMissed (no_tasks n) = nMissed n" "nClaims (no_tasks n) = nClaims n"
    "nHighWater (no_tasks n) = nHighWater n" "nDegraded (no_tasks n) = nDegraded n"
    "nProbing (no_tasks n) = nProbing n" "nUnknownLogged (no_tasks n) = nUnknownLogged n"
    "nGossipOrder (no_tasks n) = nGossipOrder n" "nGossipNext (no_tasks n) = nGossipNext n"
    "nGossipSet (no_tasks n) = nGossipSet n" "nGossipVersion (no_tasks n) = nGossipVersion n"
    "nSuspects (no_tasks n) = nSuspects n" "nProbeSeq (no_tasks n) = nProbeSeq n"
    "nTombstones (no_tasks n) = nTombstones n" "nTombVersion (no_tasks n) = nTombVersion n"
    "nBeatSeq (no_tasks n) = nBeatSeq n" "nSinceBeat (no_tasks n) = nSinceBeat n"
    "nChaosDelay (no_tasks n) = nChaosDelay n" "nTunePending (no_tasks n) = nTunePending n"
    "nHung (no_tasks n) = nHung n"
  by (simp_all add: no_tasks_def core_def)

lemma no_tasks_fields:
  assumes "no_tasks a = no_tasks b"
  shows
    "nCfg a = nCfg b" "nTable a = nTable b" "nIncarnation a = nIncarnation b" "nTerm a = nTerm b"
    "nLeaders a = nLeaders b" "nLeader a = nLeader b" "nHint a = nHint b" "nJoinID a = nJoinID b"
    "nRejections a = nRejections b" "nAttached a = nAttached b" "nLocal a = nLocal b"
    "nReported a = nReported b" "nMissed a = nMissed b" "nClaims a = nClaims b"
    "nHighWater a = nHighWater b" "nDegraded a = nDegraded b" "nProbing a = nProbing b"
    "nUnknownLogged a = nUnknownLogged b" "nGossipOrder a = nGossipOrder b"
    "nGossipNext a = nGossipNext b" "nGossipSet a = nGossipSet b"
    "nGossipVersion a = nGossipVersion b" "nSuspects a = nSuspects b" "nProbeSeq a = nProbeSeq b"
    "nTombstones a = nTombstones b" "nTombVersion a = nTombVersion b" "nBeatSeq a = nBeatSeq b"
    "nSinceBeat a = nSinceBeat b" "nChaosDelay a = nChaosDelay b"
    "nTunePending a = nTunePending b" "nHung a = nHung b"
  by (simp_all only: no_tasks_sel[of a, symmetric] no_tasks_sel[of b, symmetric] assms)

lemma no_tasks_core: "core a = core b \<Longrightarrow> no_tasks a = no_tasks b"
  by (simp add: no_tasks_def)

lemma no_tasks_derived:
  assumes "no_tasks a = no_tasks b"
  shows "self a = self b" "isLeader a = isLeader b" "attachedIDs a = attachedIDs b" "snapshot a = snapshot b"
  using no_tasks_fields[OF assms] by (simp_all add: self_def isLeader_def attachedIDs_def snapshot_def)

lemma no_tasks_repl [simp]:
  "no_tasks (n\<lparr>nRepl := r\<rparr>) = no_tasks n" "no_tasks (n\<lparr>nTasks := ts\<rparr>) = no_tasks n"
  by (simp_all add: no_tasks_def core_def)

lemma no_tasks_prims [simp]:
  "no_tasks (emit ef n) = no_tasks n" "no_tasks (fst (Send e to x n)) = no_tasks n"
  "no_tasks (fst (sendTo e ty to p n)) = no_tasks n" "no_tasks (publish n) = no_tasks n"
  by (simp_all add: no_tasks_def)

lemma no_tasks_ledgerAppend [simp]: "no_tasks (ledgerAppend r n) = no_tasks n"
  by (simp add: ledgerAppend_def Let_def)

lemma no_tasks_setAssignee [simp]: "no_tasks (setAssignee i w n) = no_tasks n"
  by (simp add: setAssignee_def split: option.split)

lemma no_tasks_completeTask [simp]: "no_tasks (completeTask res n) = no_tasks n"
  by (simp add: completeTask_def Let_def split: option.split)

lemma no_tasks_sendTask [simp]: "no_tasks (fst (sendTask e to t n)) = no_tasks n"
  by (simp add: sendTask_def)

lemma no_tasks_sendResult [simp]: "no_tasks (sendResult e to res n) = no_tasks n"
  by (simp add: sendResult_def sendResultTo_def case_prod_beta Let_def)

lemma no_tasks_launch [simp]: "no_tasks (launch e t origin n) = no_tasks n"
  by (simp add: launch_def handleOutcomeNow_def handleTaskOutcome_def Let_def)

lemma no_tasks_handleTaskOutcome [simp]: "no_tasks (handleTaskOutcome e origin res n) = no_tasks n"
  by (simp add: handleTaskOutcome_def Let_def)

lemma no_tasks_try [simp]: "no_tasks (fst (try_workers e t ws nx ks n)) = no_tasks n"
  by (induction ks arbitrary: n) (simp_all add: case_prod_beta Let_def)

lemma try_core: "core (fst (try_workers e t ws nx ks n)) = core n"
  by (induction ks arbitrary: n) (simp_all add: case_prod_beta Let_def sendTask_def)

lemma assign_cases:
  obtains n1 k where "try_workers e t (attachedIDs n) (tNext (nTasks n)) [0..<length (attachedIDs n)] n = (n1, Some k)"
    "core n1 = core n"
    "assign e t n = setAssignee (tTaskID t) (attachedIDs n ! ((tNext (nTasks n) + k) mod length (attachedIDs n)))
       (n1\<lparr>nTasks := (nTasks n1)\<lparr>tNext := (tNext (nTasks n) + k + 1) mod length (attachedIDs n)\<rparr>\<rparr>)"
  | n1 where "try_workers e t (attachedIDs n) (tNext (nTasks n)) [0..<length (attachedIDs n)] n = (n1, None)"
    "core n1 = core n" "assign e t n = launch e t '''' (setAssignee (tTaskID t) (self n1) n1)"
proof -
  obtain n1 r where tr: "try_workers e t (attachedIDs n) (tNext (nTasks n)) [0..<length (attachedIDs n)] n = (n1, r)"
    by fastforce
  then have "core n1 = core n" using try_core by (metis fst_conv)
  then show ?thesis using that tr by (cases r) (simp_all add: assign_def Let_def)
qed

lemma no_tasks_assign [simp]: "no_tasks (assign e t n) = no_tasks n"
proof (cases rule: assign_cases[of e t n])
  case (1 n1 k)
  then show ?thesis using no_tasks_core[OF 1(2)] by simp
next
  case (2 n1)
  then show ?thesis using no_tasks_core[OF 2(2)] by simp
qed

lemma no_tasks_leadTask [simp]: "no_tasks (leadTask e t n) = no_tasks n"
  by (simp add: leadTask_def)

lemma no_tasks_assign_all [simp]: "no_tasks (assign_all e ts n) = no_tasks n"
  by (induction ts arbitrary: n) (simp_all add: assign_all_def)

lemma no_tasks_others [simp]:
  "no_tasks (reassignFrom e w n) = no_tasks n" "no_tasks (tasksRoleChanged b n) = no_tasks n"
  "no_tasks (adoptOrphans n) = no_tasks n" "no_tasks (reissueIfDue e n) = no_tasks n"
  "no_tasks (handleTask e from t n) = no_tasks n" "no_tasks (handleTaskResult from res n) = no_tasks n"
  "no_tasks (fst (submit e t n)) = no_tasks n"
  by (simp_all add: reassignFrom_def tasksRoleChanged_def adoptOrphans_def reissueIfDue_def Let_def
      handleTask_def handleTaskResult_def submit_def case_prod_beta)

lemma core_sendTasks [simp]: "core (foldl (\<lambda>n t. fst (sendTask e to t n)) n ts) = core n"
  by (induction ts arbitrary: n) (simp_all add: sendTask_def)

lemma no_tasks_handOff [simp]: "no_tasks (handOff e n) = no_tasks n"
  using no_tasks_core[OF core_sendTasks, of e "nLeader n" n "handoff (nTasks n)"]
  by (simp add: handOff_def Let_def)

lemmas reassignFrom_frame [simp] = no_tasks_fields[OF no_tasks_others(1)]
lemmas adoptOrphans_frame [simp] = no_tasks_fields[OF no_tasks_others(3)]
lemmas tasksRoleChanged_frame [simp] = no_tasks_fields[OF no_tasks_others(2)]
lemmas reissueIfDue_frame [simp] = no_tasks_fields[OF no_tasks_others(4)]
lemmas completeTask_frame [simp] = no_tasks_fields[OF no_tasks_completeTask]
lemmas assign_frame [simp] = no_tasks_fields[OF no_tasks_assign]
lemmas launch_frame [simp] = no_tasks_fields[OF no_tasks_launch]
lemmas setAssignee_frame [simp] = no_tasks_fields[OF no_tasks_setAssignee]
lemmas ledgerAppend_frame [simp] = no_tasks_fields[OF no_tasks_ledgerAppend]
lemmas handOff_frame [simp] = no_tasks_fields[OF no_tasks_handOff]
lemmas task_derived [simp] = no_tasks_derived[OF no_tasks_completeTask] no_tasks_derived[OF no_tasks_others(1)]
  no_tasks_derived[OF no_tasks_others(2)] no_tasks_derived[OF no_tasks_others(3)]
  no_tasks_derived[OF no_tasks_others(4)] no_tasks_derived[OF no_tasks_assign]
  no_tasks_derived[OF no_tasks_launch] no_tasks_derived[OF no_tasks_setAssignee]
  no_tasks_derived[OF no_tasks_ledgerAppend] no_tasks_derived[OF no_tasks_handOff]

section \<open>Ledger identities\<close>

definition ids :: "node \<Rightarrow> string list" where
  "ids n = map trTaskID (ledger (nRepl n))"

lemma ledgerIndex_Some: "ledgerIndex i n = Some k \<Longrightarrow> k < length (ledger (nRepl n)) \<and> trTaskID (ledger (nRepl n) ! k) = i"
  by (auto simp: ledgerIndex_def dest: index_func_Some)

lemma ledgerIndex_None: "ledgerIndex i n = None \<longleftrightarrow> i \<notin> set (ids n)"
  by (auto simp: ledgerIndex_def ids_def)

lemma index_func_map: "index_func P (map f xs) = index_func (\<lambda>x. P (f x)) xs"
  by (induction xs) auto

lemma index_func_last: "(\<forall>x\<in>set xs. \<not> P x) \<Longrightarrow> P y \<Longrightarrow> index_func P (xs @ [y]) = Some (length xs)"
  by (induction xs) auto

lemma nTasks_update [simp]:
  "self (n\<lparr>nTasks := ts\<rparr>) = self n" "isLeader (n\<lparr>nTasks := ts\<rparr>) = isLeader n"
  "ledgerIndex i (n\<lparr>nTasks := ts\<rparr>) = ledgerIndex i n"
  by (simp_all add: self_def isLeader_def ledgerIndex_def)

lemma ledgerIndex_ids: "ledgerIndex i n = index_func (\<lambda>x. x = i) (ids n)"
  by (simp add: ledgerIndex_def ids_def index_func_map)

lemma ids_core: "core a = core b \<Longrightarrow> ids a = ids b"
  using core_fields(33)[of a b] by (simp add: ids_def)

lemma ids_prims [simp]:
  "ids (emit ef n) = ids n" "ids (fst (Send e to x n)) = ids n" "ids (fst (sendTo e ty to p n)) = ids n"
  "ids (n\<lparr>nTasks := ts\<rparr>) = ids n" "ids (fst (sendTask e to t n)) = ids n"
  by (simp_all add: ids_def sendTask_def)

lemma map_update_same: "k < length xs \<Longrightarrow> f y = f (xs ! k) \<Longrightarrow> map f (xs[k := y]) = map f xs"
  by (simp add: map_update list_update_same_conv)

lemma ids_setAssignee [simp]: "ids (setAssignee i w n) = ids n"
  using ledgerIndex_Some[of i n]
  by (auto simp: setAssignee_def ids_def map_update_same split: option.split)

lemma ids_completeTask [simp]: "ids (completeTask res n) = ids n"
proof (cases "ledgerIndex (resTaskID res) n")
  case (Some k)
  with ledgerIndex_Some[OF Some] show ?thesis
    by (simp add: completeTask_def Let_def) (simp add: ids_def map_update_same finished_def)
qed (simp add: completeTask_def)

lemma ids_sendResult [simp]: "ids (sendResult e to res n) = ids n"
  by (simp add: sendResult_def sendResultTo_def case_prod_beta Let_def)

lemma ids_launch [simp]: "ids (launch e t origin n) = ids n"
  by (simp add: launch_def handleOutcomeNow_def handleTaskOutcome_def Let_def)

lemma ids_assign [simp]: "ids (assign e t n) = ids n"
proof (cases rule: assign_cases[of e t n])
  case (1 n1 k)
  then show ?thesis using ids_core[OF 1(2)] by simp
next
  case (2 n1)
  then show ?thesis using ids_core[OF 2(2)] by simp
qed

lemma ids_assign_all [simp]: "ids (assign_all e ts n) = ids n"
  by (induction ts arbitrary: n) (simp_all add: assign_all_def)

lemma ids_others [simp]:
  "ids (reassignFrom e w n) = ids n" "ids (tasksRoleChanged b n) = ids n" "ids (adoptOrphans n) = ids n"
  "ids (reissueIfDue e n) = ids n" "ids (handleTaskResult from res n) = ids n"
  "ids (handleTaskOutcome e origin res n) = ids n"
  by (simp_all add: reassignFrom_def tasksRoleChanged_def adoptOrphans_def reissueIfDue_def Let_def
      handleTaskResult_def handleTaskOutcome_def)

lemma ids_handOff [simp]: "ids (handOff e n) = ids n"
  using ids_core[OF core_sendTasks, of e "nLeader n" n "handoff (nTasks n)"]
  by (simp add: handOff_def Let_def)

text \<open>The invariant through any operation that keeps the identities of the ledger.\<close>

lemma node_ok_tasks:
  assumes "no_tasks n' = no_tasks n" "ids n' = ids n"
  shows "node_ok n' = node_ok n"
proof -
  have "length (ledger (nRepl n')) = length (ledger (nRepl n))"
    using assms(2) by (metis ids_def length_map)
  then show ?thesis
    using no_tasks_fields[OF assms(1)] no_tasks_derived[OF assms(1)]
    by (simp add: node_ok_def own_ok_def own_def lead_ok_def hold_ok_def)
qed

lemma task_ok [simp]:
  "node_ok (completeTask res n) = node_ok n" "node_ok (launch e t origin n) = node_ok n"
  "node_ok (assign e t n) = node_ok n" "node_ok (reassignFrom e w n) = node_ok n"
  "node_ok (tasksRoleChanged b n) = node_ok n" "node_ok (adoptOrphans n) = node_ok n"
  "node_ok (reissueIfDue e n) = node_ok n" "node_ok (handleTaskResult from res n) = node_ok n"
  "node_ok (handleTaskOutcome e origin res n) = node_ok n" "node_ok (handOff e n) = node_ok n"
  by (rule node_ok_tasks; simp)+

lemma leadTask_ok: "node_ok n \<Longrightarrow> node_ok (leadTask e t n)"
  by (simp add: leadTask_def ledgerAppend_ok)

lemma handleTask_ok: "node_ok n \<Longrightarrow> node_ok (handleTask e from t n)"
  by (simp add: handleTask_def leadTask_ok)

lemma submit_ok: "node_ok n \<Longrightarrow> node_ok (fst (SubmitTask e t n))"
  by (simp add: SubmitTask_def submit_def leadTask_ok case_prod_beta sendTask_def)

section \<open>What an assignment does\<close>

text \<open>An effect that hands task \<open>t\<close> to somebody.\<close>

definition hands :: "TaskPayload \<Rightarrow> effect \<Rightarrow> bool" where
  "hands t ef \<longleftrightarrow> (\<exists>w x. ef = Sent w x True \<and> eType x = TypeTask \<and> ePayload x = Some (enc_Task t)) \<or> ef = Launched t ''''"

lemma sendTask_trace:
  "\<exists>x. nTrace (fst (sendTask e to t n)) = Sent to x (snd (sendTask e to t n)) # nTrace n \<and>
     eType x = TypeTask \<and> ePayload x = Some (enc_Task t) \<and> eTo x = to"
  by (auto simp: sendTask_def sendTo_def newEnvelope_def NewEnvelope_def Send_def emit_def Let_def)

lemma try_workers_trace:
  assumes "try_workers e t ws nx ks n = (n1, r)"
  shows "\<exists>new. nTrace n1 = new @ nTrace n \<and>
    (case r of None \<Rightarrow> \<forall>ef\<in>set new. \<not> hands t ef
     | Some k \<Rightarrow> k \<in> set ks \<and> (\<exists>x. hd new = Sent (ws ! ((nx + k) mod length ws)) x True \<and> hands t (hd new) \<and> new \<noteq> []))"
  using assms
proof (induction ks arbitrary: n)
  case Nil
  then show ?case by auto
next
  case (Cons k ks)
  let ?w = "ws ! ((nx + k) mod length ws)"
  obtain n2 ok where s: "sendTask e ?w t n = (n2, ok)" by fastforce
  then obtain x where x: "nTrace n2 = Sent ?w x ok # nTrace n" "eType x = TypeTask" "ePayload x = Some (enc_Task t)"
    using sendTask_trace[of e ?w t n] by auto
  show ?case
  proof (cases ok)
    case True
    then have "n1 = n2" "r = Some k" using Cons.prems s by (simp_all add: Let_def)
    then show ?thesis using x True by (intro exI[of _ "[Sent ?w x ok]"]) (simp add: hands_def)
  next
    case False
    then have "try_workers e t ws nx ks n2 = (n1, r)" using Cons.prems s by (simp add: Let_def)
    from Cons.IH[OF this] obtain new where new: "nTrace n1 = new @ nTrace n2"
      "case r of None \<Rightarrow> \<forall>ef\<in>set new. \<not> hands t ef
       | Some k \<Rightarrow> k \<in> set ks \<and> (\<exists>x. hd new = Sent (ws ! ((nx + k) mod length ws)) x True \<and> hands t (hd new) \<and> new \<noteq> [])"
      by auto
    then show ?thesis using x False
      by (intro exI[of _ "new @ [Sent ?w x ok]"]) (auto simp: hands_def split: option.splits)
  qed
qed

lemma setAssignee_simps [simp]:
  "nTrace (setAssignee i w n) = nTrace n" "nTasks (setAssignee i w n) = nTasks n"
  by (simp_all add: setAssignee_def split: option.split)

lemma setAssignee_ledger:
  "ledgerIndex i n = Some k \<Longrightarrow>
   ledger (nRepl (setAssignee i w n)) = (ledger (nRepl n))[k := (ledger (nRepl n) ! k)\<lparr>trAssignedTo := w\<rparr>]"
  by (auto simp: setAssignee_def intro: TaskRecord.equality dest!: ledgerIndex_Some intro!: list_update_id[symmetric])

lemma completeTask_ledger:
  "isLeader n \<Longrightarrow> ledgerIndex (resTaskID res) n = Some k \<Longrightarrow> trState (ledger (nRepl n) ! k) = taskPending \<Longrightarrow>
   ledger (nRepl (completeTask res n)) = (ledger (nRepl n))[k := finished res (ledger (nRepl n) ! k)]"
  by (simp add: completeTask_def Let_def emit_def)

lemma busy_result_ID [simp]: "resTaskID (busy_result t n) = tTaskID t" "\<not> resOK (busy_result t n)"
  by (simp_all add: busy_result_def)

text \<open>With room for one more running task, an assignment hands the task to a worker or runs it here.\<close>

lemma assign_hands:
  assumes "inflight (nTasks n) < maxInflightTasks"
  shows "\<exists>new. nTrace (assign e t n) = new @ nTrace n \<and> (\<exists>ef\<in>set new. hands t ef)"
    and "inflight (nTasks (assign e t n)) \<le> inflight (nTasks n) + 1"
proof -
  have "(\<exists>new. nTrace (assign e t n) = new @ nTrace n \<and> (\<exists>ef\<in>set new. hands t ef)) \<and>
      inflight (nTasks (assign e t n)) \<le> inflight (nTasks n) + 1"
  proof (cases rule: assign_cases[of e t n])
    case (1 n1 k)
    then obtain new where new: "nTrace n1 = new @ nTrace n" "new \<noteq> []" "hands t (hd new)"
      using try_workers_trace by fastforce
    have "nTasks n1 = nTasks n" using core_fields[OF 1(2)] by simp
    then show ?thesis using new 1(3) by auto
  next
    case (2 n1)
    then obtain new where new: "nTrace n1 = new @ nTrace n" using try_workers_trace by blast
    have "nTasks n1 = nTasks n" using core_fields[OF 2(2)] by simp
    then show ?thesis
      using new 2(3) assms
      by (auto simp: launch_def emit_def hands_def intro!: exI[of _ "Launched t '''' # new"])
  qed
  then show "\<exists>new. nTrace (assign e t n) = new @ nTrace n \<and> (\<exists>ef\<in>set new. hands t ef)"
    and "inflight (nTasks (assign e t n)) \<le> inflight (nTasks n) + 1" by auto
qed

lemma assign_all_hands:
  assumes "inflight (nTasks n) + int (length ts) \<le> maxInflightTasks"
  shows "\<exists>new. nTrace (assign_all e ts n) = new @ nTrace n \<and> (\<forall>t\<in>set ts. \<exists>ef\<in>set new. hands t ef)"
  using assms
proof (induction ts arbitrary: n)
  case Nil
  then show ?case by (simp add: assign_all_def)
next
  case (Cons t ts)
  have room: "inflight (nTasks n) < maxInflightTasks" using Cons.prems by simp
  obtain new1 where n1: "nTrace (assign e t n) = new1 @ nTrace n" "\<exists>ef\<in>set new1. hands t ef"
    using assign_hands(1)[OF room] by blast
  have "inflight (nTasks (assign e t n)) + int (length ts) \<le> maxInflightTasks"
    using assign_hands(2)[OF room, of e t] Cons.prems by simp
  from Cons.IH[OF this] obtain new2 where
    "nTrace (assign_all e ts (assign e t n)) = new2 @ nTrace (assign e t n)"
    "\<forall>t\<in>set ts. \<exists>ef\<in>set new2. hands t ef" by blast
  then show ?case using n1
    by (intro exI[of _ "new2 @ new1"]) (auto simp: assign_all_def)
qed

text \<open>An assignment sends to attached workers only.\<close>

definition only_to :: "NodeID set \<Rightarrow> effect list \<Rightarrow> bool" where
  "only_to W new = list_all (\<lambda>ef. case ef of Sent w x ok \<Rightarrow> w \<in> W | _ \<Rightarrow> True) new"

lemma only_to_simps [simp]:
  "only_to W []" "only_to W (Sent w x ok # new) \<longleftrightarrow> w \<in> W \<and> only_to W new"
  "only_to W (Launched t i # new) = only_to W new" "only_to W (Reported r # new) = only_to W new"
  "only_to W (Broadcasted y # new) = only_to W new"
  "only_to W (new1 @ new2) \<longleftrightarrow> only_to W new1 \<and> only_to W new2"
  by (simp_all add: only_to_def)

lemma try_workers_targets:
  "ws \<noteq> [] \<Longrightarrow> \<exists>new. nTrace (fst (try_workers e t ws nx ks n)) = new @ nTrace n \<and> only_to (set ws) new"
proof (induction ks arbitrary: n)
  case (Cons k ks)
  let ?w = "ws ! ((nx + k) mod length ws)"
  obtain n2 ok where s: "sendTask e ?w t n = (n2, ok)" by fastforce
  then obtain x where x: "nTrace n2 = Sent ?w x ok # nTrace n" using sendTask_trace[of e ?w t n] by auto
  have w: "?w \<in> set ws" using Cons.prems by simp
  obtain new where "nTrace (fst (try_workers e t ws nx ks n2)) = new @ nTrace n2" "only_to (set ws) new"
    using Cons.IH[OF Cons.prems] by blast
  then show ?case
    using s x w by (cases ok) (auto intro!: exI[of _ "new @ [Sent ?w x False]"] exI[of _ "[Sent ?w x True]"])
qed (auto intro: exI[of _ "[]"])

lemma launch_own_trace: "\<exists>new. nTrace (launch e t '''' n) = new @ nTrace n \<and> only_to W new"
  by (auto simp: launch_def handleOutcomeNow_def handleTaskOutcome_def completeTask_def Let_def emit_def
      split: option.split intro: exI[of _ "[]"] exI[of _ "[ef]" for ef])

lemma assign_targets:
  "\<exists>new. nTrace (assign e t n) = new @ nTrace n \<and> only_to (set (attachedIDs n)) new"
proof -
  have tr: "\<exists>new. nTrace (fst (try_workers e t (attachedIDs n) (tNext (nTasks n)) [0..<length (attachedIDs n)] n)) =
      new @ nTrace n \<and> only_to (set (attachedIDs n)) new"
    by (cases "attachedIDs n = []") (auto simp: try_workers_targets intro: exI[of _ "[]"])
  show ?thesis
  proof (cases rule: assign_cases[of e t n])
    case (1 n1 k)
    then show ?thesis using tr by simp
  next
    case (2 n1)
    obtain new2 where "nTrace (assign e t n) = new2 @ nTrace n1" "only_to (set (attachedIDs n)) new2"
      using launch_own_trace[of e t "setAssignee (tTaskID t) (self n1) n1"] 2(3) by force
    moreover obtain new1 where "nTrace n1 = new1 @ nTrace n" "only_to (set (attachedIDs n)) new1"
      using tr 2(1) by auto
    ultimately show ?thesis by (intro exI[of _ "new2 @ new1"]) simp
  qed
qed

lemma assign_all_targets:
  "\<exists>new. nTrace (assign_all e ts n) = new @ nTrace n \<and> only_to (set (attachedIDs n)) new"
proof (induction ts arbitrary: n)
  case (Cons t ts)
  obtain new1 where "nTrace (assign e t n) = new1 @ nTrace n" "only_to (set (attachedIDs n)) new1"
    using assign_targets by blast
  moreover obtain new2 where "nTrace (assign_all e ts (assign e t n)) = new2 @ nTrace (assign e t n)"
    "only_to (set (attachedIDs n)) new2" using Cons.IH[of "assign e t n"] by auto
  ultimately show ?case by (intro exI[of _ "new2 @ new1"]) (simp add: assign_all_def)
qed (auto simp: assign_all_def intro: exI[of _ "[]"])

lemma reissueDue_assign [simp]: "reissueDue (nTasks (assign e t n)) = reissueDue (nTasks n)"
proof (cases rule: assign_cases[of e t n])
  case (1 n1 k)
  then show ?thesis using core_fields[OF 1(2)] by simp
next
  case (2 n1)
  have "nTasks n1 = nTasks n" using core_fields[OF 2(2)] by simp
  then show ?thesis
    by (simp add: 2(3) launch_def handleOutcomeNow_def handleTaskOutcome_def completeTask_def Let_def
        split: option.split)
qed

lemma reissueDue_assign_all [simp]: "reissueDue (nTasks (assign_all e ts n)) = reissueDue (nTasks n)"
  by (induction ts arbitrary: n) (simp_all add: assign_all_def)

section \<open>Properties\<close>

definition ex_leader :: node where
  "ex_leader = ex_node\<lparr>nLeaders := [''w''], nLeader := ''w'', nAttached := {|''a'', ''b''|}\<rparr>"

definition ex_payload :: "string \<Rightarrow> TaskPayload" where
  "ex_payload i = \<lparr>tTaskID = i, tKind = ''echo'', tBody = None\<rparr>"

definition reports :: "string \<Rightarrow> node \<Rightarrow> effect list" where
  "reports i n = filter (\<lambda>ef. case ef of Reported r \<Rightarrow> resTaskID r = i | _ \<Rightarrow> False) (nTrace n)"

lemma completeTask_effect:
  assumes "isLeader n" "ledgerIndex i n = Some k"
  shows "ledgerIndex i (completeTask res n) = Some k"
    and "resTaskID res \<noteq> i \<or> trState (ledger (nRepl n) ! k) \<noteq> taskPending \<Longrightarrow>
      ledger (nRepl (completeTask res n)) ! k = ledger (nRepl n) ! k \<and> reports i (completeTask res n) = reports i n"
proof -
  show "ledgerIndex i (completeTask res n) = Some k" using assms(2) by (simp add: ledgerIndex_ids)
  show "ledger (nRepl (completeTask res n)) ! k = ledger (nRepl n) ! k \<and> reports i (completeTask res n) = reports i n"
    if other: "resTaskID res \<noteq> i \<or> trState (ledger (nRepl n) ! k) \<noteq> taskPending"
  proof (cases "ledgerIndex (resTaskID res) n")
    case (Some j)
    have "resTaskID res \<noteq> i \<Longrightarrow> j \<noteq> k"
      using ledgerIndex_Some[OF Some] ledgerIndex_Some[OF assms(2)] by auto
    show ?thesis
    proof (cases "resTaskID res = i")
      case True
      then have "completeTask res n = n"
        using other assms(2) by (simp add: completeTask_def Let_def)
      then show ?thesis by simp
    next
      case False
      then have "j \<noteq> k" using \<open>resTaskID res \<noteq> i \<Longrightarrow> j \<noteq> k\<close> by simp
      then show ?thesis
        using Some False by (simp add: completeTask_def Let_def reports_def emit_def)
    qed
  qed (simp add: completeTask_def)
qed

text \<open>C7: The first result wins. On a leader, the first result for a pending task settles its record and is
  reported upward exactly once; every later result for that task, and any results for other tasks
  in between, leave that record as it is and report that task no more.\<close>

theorem first_result_wins:
  assumes "isLeader n" "ncOnTaskResult (nCfg n)" "ledgerIndex i n = Some k"
    and "trState (ledger (nRepl n) ! k) = taskPending" and "resTaskID res = i"
    and "n' = foldl (\<lambda>n r. completeTask r n) n (res # rest)"
  shows "ledger (nRepl n') ! k = finished res (ledger (nRepl n) ! k) \<and>
    reports i n' = Reported res # reports i n \<and> isLeader n'"
proof -
  let ?n1 = "completeTask res n"
  have k: "k < length (ledger (nRepl n))" using assms(3) ledgerIndex_Some by blast
  have n1: "ledger (nRepl ?n1) ! k = finished res (ledger (nRepl n) ! k)"
    "reports i ?n1 = Reported res # reports i n"
    using assms k by (simp_all add: completeTask_def Let_def reports_def emit_def)
  have settled: "trState (finished res r) \<noteq> taskPending" for r
    by (simp add: finished_def taskPending_def taskDone_def taskFailed_def)
  have "let m = foldl (\<lambda>n r. completeTask r n) ?n1 rest in isLeader m \<and> ledgerIndex i m = Some k \<and>
    ledger (nRepl m) ! k = finished res (ledger (nRepl n) ! k) \<and> reports i m = Reported res # reports i n"
  proof (induction rest rule: rev_induct)
    case Nil
    then show ?case using assms(1,3) n1 completeTask_effect(1) by simp
  next
    case (snoc r rest)
    let ?m = "foldl (\<lambda>n r. completeTask r n) ?n1 rest"
    have m: "isLeader ?m" "ledgerIndex i ?m = Some k"
      "ledger (nRepl ?m) ! k = finished res (ledger (nRepl n) ! k)" "reports i ?m = Reported res # reports i n"
      using snoc by (simp_all add: Let_def)
    then show ?case
      using completeTask_effect[OF m(1,2), of r] settled by (simp add: Let_def)
  qed
  then show ?thesis using assms(6) by (simp add: Let_def)
qed

definition ex_result :: "string \<Rightarrow> bool \<Rightarrow> TaskResultPayload" where
  "ex_result i ok = \<lparr>resTaskID = i, resWorker = ''a'', resOK = ok, resOutput = ''out'', resDurationMS = Fin 1\<rparr>"

theorem first_result_wins_witness:
  "let n = ex_leader\<lparr>nRepl := (nRepl ex_leader)\<lparr>ledger := [ex_task ''t'' taskPending]\<rparr>\<rparr>;
       n' = foldl (\<lambda>n r. completeTask r n) n [ex_result ''t'' True, ex_result ''t'' False]
   in trState (ledger (nRepl n') ! 0) = taskDone \<and> length (reports ''t'' n') = 1"
proof -
  let ?n = "ex_leader\<lparr>nRepl := (nRepl ex_leader)\<lparr>ledger := [ex_task ''t'' taskPending]\<rparr>\<rparr>"
  have tr: "nTrace ex_node = []" by (simp add: ex_node_def newState_def publish_def published_def Let_def)
  have s: "self ?n = ''w''" using ex_node_fields(4) by (simp add: ex_leader_def self_def)
  have "isLeader ?n" using s by (simp add: isLeader_def) (simp add: ex_leader_def)
  moreover have "ncOnTaskResult (nCfg ?n)"
    by (simp add: ex_leader_def ex_node_def newState_def ex_cfgN_def NodeConfig_withDefaults_def)
  moreover have "ledgerIndex ''t'' ?n = Some 0" by (simp add: ledgerIndex_def ex_task_def)
  ultimately show ?thesis
    using first_result_wins[OF _ _ _ _ _ refl, of ?n "''t''" 0 "ex_result ''t'' True" "[ex_result ''t'' False]"]
    by (simp add: ex_result_def ex_task_def finished_def Let_def reports_def ex_leader_def tr)
qed

text \<open>The three things \<open>assign\<close> may do with the record \<open>r\<close> of a new task: a worker was sent the task, this node
  started it, or every execution slot was taken and the record is marked failed.\<close>

definition placed :: "TaskPayload \<Rightarrow> node \<Rightarrow> node \<Rightarrow> TaskRecord \<Rightarrow> bool" where
  "placed t n n' r \<longleftrightarrow>
     (\<exists>w x. w |\<in>| nAttached n \<and> hd (nTrace n') = Sent w x True \<and> ePayload x = Some (enc_Task t) \<and>
       trState r = taskPending \<and> trAssignedTo r = w) \<or>
     (hd (nTrace n') = Launched t '''' \<and> trState r = taskPending \<and> trAssignedTo r = self n) \<or>
     (maxInflightTasks \<le> inflight (nTasks n) \<and> trState r = taskFailed)"

lemma placed_cong:
  "nAttached a = nAttached b \<Longrightarrow> self a = self b \<Longrightarrow> nTasks a = nTasks b \<Longrightarrow> placed t a n' r = placed t b n' r"
  by (simp add: placed_def)

lemma launch_new_record:
  assumes "isLeader m" "ledger (nRepl m) = kept @ [r]" "ledgerIndex (tTaskID t) m = Some (length kept)"
    "trState r = taskPending" "trAssignedTo r = self m" "m' = launch e t '''' m"
  shows "placed t m m' (ledger (nRepl m') ! length kept)"
proof (cases "maxInflightTasks \<le> inflight (nTasks m)")
  case False
  then have "m' = emit (Launched t '''') (m\<lparr>nTasks := (nTasks m)\<lparr>inflight := inflight (nTasks m) + 1\<rparr>\<rparr>)"
    unfolding assms(6) launch_def by simp
  then have "nTrace m' = Launched t '''' # nTrace m" "ledger (nRepl m') = ledger (nRepl m)"
    by (simp_all add: emit_def)
  then show ?thesis using assms(2,4,5) by (simp add: placed_def)
next
  case True
  have "m' = completeTask (busy_result t m) (m\<lparr>nTasks := (nTasks m)\<lparr>inflight := inflight (nTasks m) + 1,
      inflight := inflight (nTasks m) + 1 - 1\<rparr>\<rparr>)"
    unfolding assms(6) launch_def using True assms(1)
    by (simp add: handleOutcomeNow_def handleTaskOutcome_def Let_def)
  then have "ledger (nRepl m') ! length kept = finished (busy_result t m) r"
    using completeTask_ledger[of "m\<lparr>nTasks := nTasks m\<rparr>" "busy_result t m" "length kept"] assms(1-4)
    by (simp add: busy_result_ID nth_append)
  then show ?thesis using True by (simp add: placed_def finished_def Let_def)
qed

lemma assign_new_record:
  assumes "isLeader m" "ledger (nRepl m) = kept @ [r]" "ledgerIndex (tTaskID t) m = Some (length kept)"
    "trState r = taskPending" "m' = assign e t m"
  shows "placed t m m' (ledger (nRepl m') ! length kept)"
proof (cases rule: assign_cases[of e t m])
  case (1 n1 k)
  let ?ws = "attachedIDs m"
  let ?w = "?ws ! ((tNext (nTasks m) + k) mod length ?ws)"
  obtain new x where new: "nTrace n1 = new @ nTrace m" "new \<noteq> []" "hd new = Sent ?w x True" "hands t (hd new)"
    "k \<in> set [0..<length ?ws]"
    using try_workers_trace[OF 1(1)] by auto
  then have "?w \<in> set ?ws" by (intro nth_mem mod_less_divisor) auto
  then have w: "?w |\<in>| nAttached m" by (simp add: attachedIDs_def)
  let ?n2 = "n1\<lparr>nTasks := (nTasks n1)\<lparr>tNext := (tNext (nTasks m) + k + 1) mod length ?ws\<rparr>\<rparr>"
  have L: "ledger (nRepl n1) = kept @ [r]" using core_fields(33)[OF 1(2)] assms(2) by simp
  have "ledgerIndex (tTaskID t) ?n2 = Some (length kept)" using assms(2,3) L by (simp add: ledgerIndex_def)
  then have "ledger (nRepl m') ! length kept = r\<lparr>trAssignedTo := ?w\<rparr>"
    unfolding assms(5) 1(3) using setAssignee_ledger[of "tTaskID t" ?n2 "length kept" ?w] by (simp add: L nth_append)
  moreover have "hd (nTrace m') = Sent ?w x True" "ePayload x = Some (enc_Task t)"
    using new unfolding assms(5) 1(3) by (auto simp: hands_def)
  ultimately show ?thesis using w assms(4) by (auto simp: placed_def)
next
  case (2 n1)
  let ?n2 = "setAssignee (tTaskID t) (self n1) n1"
  have L: "ledger (nRepl n1) = kept @ [r]" using core_fields(33)[OF 2(2)] assms(2) by simp
  have s: "self n1 = self m" using derived_core(1)[OF 2(2)] by simp
  have "ledgerIndex (tTaskID t) n1 = Some (length kept)" using assms(2,3) L by (simp add: ledgerIndex_def)
  then have L2: "ledger (nRepl ?n2) = kept @ [r\<lparr>trAssignedTo := self m\<rparr>]" by (simp add: setAssignee_ledger L s)
  have tn: "nTasks ?n2 = nTasks m" using core_fields(29)[OF 2(2)] by simp
  have "isLeader ?n2" using assms(1) derived_core(2)[OF 2(2)] by simp
  moreover have "ledgerIndex (tTaskID t) ?n2 = Some (length kept)"
    using assms(3) by (simp add: ledgerIndex_ids ids_core[OF 2(2)])
  ultimately have "placed t ?n2 m' (ledger (nRepl m') ! length kept)"
    using launch_new_record[OF _ L2] assms(4,5) 2(3) s by simp
  moreover have "nAttached ?n2 = nAttached m" "self ?n2 = self m" using core_fields[OF 2(2)] s by simp_all
  ultimately show ?thesis using placed_cong[OF _ _ tn] by blast
qed

text \<open>C9: A task a leader accepts is never silently dropped: it becomes the last record of the ledger, and
  either it is pending and a TASK carrying it went out to the attached worker named in its record,
  or it is pending and runs here, or (with the node at its task limit) it is recorded as failed.\<close>

theorem lead_task_placed:
  assumes "isLeader n" "tTaskID t \<notin> set (ids n)" "0 < ncLedgerSize (nCfg n)" "n' = leadTask e t n"
  shows "ids n' \<noteq> [] \<and> last (ids n') = tTaskID t \<and> placed t n n' (last (ledger (nRepl n')))"
proof -
  let ?r = "\<lparr>trTaskID = tTaskID t, trAssignedTo = '''', trState = taskPending, trResult = '''',
    trKind = tKind t, trBody = tBody t\<rparr>"
  let ?n = "ledgerAppend ?r n"
  let ?kept = "evict (ncLedgerSize (nCfg n)) (ledger (nRepl n))"
  have L: "ledger (nRepl ?n) = ?kept @ [capped ?r]" by (simp add: ledgerAppend_def)
  have "tTaskID t \<notin> trTaskID ` set ?kept"
    using assms(2) list_emb_set[OF evict_subseq] by (force simp: ids_def)
  then have idx: "ledgerIndex (tTaskID t) ?n = Some (length ?kept)"
    unfolding ledgerIndex_def L by (intro index_func_last) (metis image_eqI, simp)
  have n': "n' = assign e t ?n"
    using assms(2,4) by (simp add: leadTask_def ledgerIndex_None)
  have ids': "ids n' = map trTaskID ?kept @ [tTaskID t]"
    unfolding n' by (simp add: ids_def[of ?n] L)
  have "length (ledger (nRepl n')) = Suc (length ?kept)"
    using ids' by (metis ids_def length_append_singleton length_map)
  then have "last (ledger (nRepl n')) = ledger (nRepl n') ! length ?kept"
    by (metis diff_Suc_1 last_conv_nth length_0_conv nat.distinct(1))
  moreover have "placed t ?n n' (ledger (nRepl n') ! length ?kept)"
    by (rule assign_new_record[OF _ L idx _ n']) (use assms(1) in simp_all)
  moreover have "nAttached ?n = nAttached n" "self ?n = self n" "nTasks ?n = nTasks n"
    by (simp_all add: ledgerAppend_def self_def)
  then have "placed t ?n n' r = placed t n n' r" for r by (rule placed_cong)
  ultimately show ?thesis using ids' by simp
qed

lemma ex_leader_simps [simp]:
  "self ex_leader = ''w''" "nLeaders ex_leader = [''w'']" "isLeader ex_leader" "nAttached ex_leader = {|''a'', ''b''|}"
  "ledger (nRepl ex_leader) = []" "ncLedgerSize (nCfg ex_leader) = 2" "ids ex_leader = []"
  "nTasks ex_leader = \<lparr>inflight = 0, tNext = 0, reissueDue = False, handoff = []\<rparr>"
proof -
  show s: "self ex_leader = ''w''" using ex_node_fields(4) by (simp add: ex_leader_def self_def)
  show "isLeader ex_leader" using s by (simp add: isLeader_def) (simp add: ex_leader_def)
qed (simp_all add: ex_leader_def ids_def)

theorem lead_task_placed_witness:
  "last (ids (leadTask ex_envr (ex_payload ''t'') ex_leader)) = ''t''"
  using lead_task_placed[OF _ _ _ refl, of ex_leader "ex_payload ''t''" ex_envr]
  by (simp add: ex_payload_def)



lemma try_first:
  assumes "\<And>k to. envSendOK e k to" "ws \<noteq> []"
  obtains n1 x where "try_workers e t ws nx [0..<length ws] n = (n1, Some 0)"
    "nTrace n1 = Sent (ws ! (nx mod length ws)) x True # nTrace n" "core n1 = core n"
proof -
  let ?w = "ws ! (nx mod length ws)"
  have "snd (sendTask e ?w t n)"
    by (simp add: sendTask_def sendTo_def newEnvelope_def NewEnvelope_def Send_def Let_def assms(1))
  then obtain n1 where s: "sendTask e ?w t n = (n1, True)" by (cases "sendTask e ?w t n") auto
  have "[0..<length ws] = 0 # [1..<length ws]" using assms(2) by (simp add: upt_conv_Cons)
  then have tr: "try_workers e t ws nx [0..<length ws] n = (n1, Some 0)" using s by simp
  moreover have "core n1 = core n" using tr try_core by (metis fst_conv)
  ultimately show ?thesis using that sendTask_trace[of e ?w t n] s by auto
qed

text \<open>Assignment is round robin: when every send succeeds, consecutive tasks go to the attached workers in
  turn, the first of them to the one after the worker that got the last task before them.\<close>

theorem assignment_round_robin:
  assumes "\<And>k to. envSendOK e k to" and "ws = attachedIDs n" "ws \<noteq> []"
  shows "\<exists>new. nTrace (assign_all e ts n) = new @ nTrace n \<and>
    map (\<lambda>ef. case ef of Sent w x ok \<Rightarrow> w | _ \<Rightarrow> '''') (rev new) =
      map (\<lambda>j. ws ! ((tNext (nTasks n) + j) mod length ws)) [0..<length ts]"
  using assms(2)
proof (induction ts arbitrary: n)
  case Nil
  then show ?case by (simp add: assign_all_def)
next
  case (Cons t ts)
  let ?next = "tNext (nTasks n)"
  obtain n1 x where n1: "try_workers e t ws ?next [0..<length ws] n = (n1, Some 0)"
    "nTrace n1 = Sent (ws ! (?next mod length ws)) x True # nTrace n"
    by (rule try_first[OF assms(1,3)]) blast
  let ?n = "assign e t n"
  have a: "?n = setAssignee (tTaskID t) (ws ! (?next mod length ws))
      (n1\<lparr>nTasks := (nTasks n1)\<lparr>tNext := (?next + 1) mod length ws\<rparr>\<rparr>)"
    using n1(1) Cons.prems by (simp add: assign_def Let_def)
  have tr: "nTrace ?n = Sent (ws ! (?next mod length ws)) x True # nTrace n"
    and nx: "tNext (nTasks ?n) = (?next + 1) mod length ws"
    unfolding a using n1(2) by simp_all
  have "ws = attachedIDs ?n" using Cons.prems by simp
  from Cons.IH[OF this] obtain new where new:
    "nTrace (assign_all e ts ?n) = new @ nTrace ?n"
    "map (\<lambda>ef. case ef of Sent w x ok \<Rightarrow> w | _ \<Rightarrow> '''') (rev new) =
      map (\<lambda>j. ws ! ((tNext (nTasks ?n) + j) mod length ws)) [0..<length ts]" by blast
  have shift: "map (\<lambda>j. ws ! ((?next + j) mod length ws)) [0..<Suc (length ts)] =
      ws ! (?next mod length ws) # map (\<lambda>j. ws ! ((?next + Suc j) mod length ws)) [0..<length ts]"
  proof -
    have "[0..<Suc (length ts)] = 0 # map Suc [0..<length ts]" by (simp add: map_Suc_upt upt_conv_Cons del: upt_Suc)
    then show ?thesis by (simp del: upt_Suc)
  qed
  show ?case
    using new tr
    by (intro exI[of _ "new @ [Sent (ws ! (?next mod length ws)) x True]"] conjI)
      (simp_all add: assign_all_def shift nx mod_add_left_eq del: upt_Suc)
qed

theorem assignment_round_robin_witness:
  "\<exists>new. nTrace (assign_all ex_envr [ex_payload ''1'', ex_payload ''2'', ex_payload ''3''] ex_leader) = new @ nTrace ex_leader \<and>
    map (\<lambda>ef. case ef of Sent w x ok \<Rightarrow> w | _ \<Rightarrow> '''') (rev new) = [''a'', ''b'', ''a'']"
proof -
  have ws: "[''a'', ''b''] = attachedIDs ex_leader" by (simp add: attachedIDs_def sorted_list_of_fset.rep_eq)
  show ?thesis
    using assignment_round_robin[OF _ ws, of ex_envr "[ex_payload ''1'', ex_payload ''2'', ex_payload ''3'']"]
    by (simp add: ex_envr_def upt_conv_Cons)
qed

end
