(* ===== verification/Detector.thy ===== *)
theory Detector
  imports Tasks
begin

text \<open>
  The failure detector, \<open>pkg/cluster/failure.go\<close>, with the two verdicts of \<open>node.go\<close>
  (\<open>markDead\<close>, \<open>markLeft\<close>) that it hands a doubt over to. A doubt is timed only on the node that
  raised it (\<open>nSuspects\<close>); a death record is aged by every node that holds it (\<open>nTombstones\<close>). The
  boolean of an operation says whether the table changed. Go ranges over its maps in no order; the
  loops here range over the keys in increasing order, which is the order the code sorts into where
  its effects could depend on it.
\<close>

section \<open>Definitions\<close>

definition markDead :: "env \<Rightarrow> NodeID \<Rightarrow> node \<Rightarrow> node \<times> bool" where
  "markDead e i n =
     (let (t, changed) = SetState (nTable n) i StateDead;
          n1 = n\<lparr>nAttached := nAttached n |-| {|i|}, nSuspects := fmdrop i (nSuspects n), nTable := t\<rparr>
      in (if changed then reassignFrom e i (pushRecord e i n1) else n1, changed))"

text \<open>A departure is recorded exactly like a death; only the log line differs.\<close>

definition markLeft :: "env \<Rightarrow> NodeID \<Rightarrow> node \<Rightarrow> node \<times> bool" where
  "markLeft e i n =
     (let (t, changed) = SetState (nTable n) i StateDead;
          n1 = n\<lparr>nAttached := nAttached n |-| {|i|}, nSuspects := fmdrop i (nSuspects n), nTable := t\<rparr>
      in (if changed then reassignFrom e i (pushRecord e i n1) else n1, changed))"

definition timing :: "env \<Rightarrow> NodeID \<Rightarrow> int \<Rightarrow> bool \<Rightarrow> node \<Rightarrow> node" where
  "timing e i inc silent n =
     (case fmlookup (nSuspects n) i of
        None \<Rightarrow> n\<lparr>nSuspects := fmupd i
          \<lparr>sSince = Now e n, sIncarnation = inc, sRound = nProbeSeq n, sSilent = silent\<rparr> (nSuspects n)\<rparr>
      | Some s \<Rightarrow> if silent \<and> \<not> sSilent s
                  then n\<lparr>nSuspects := fmupd i (s\<lparr>sSilent := True\<rparr>) (nSuspects n)\<rparr> else n)"

definition suspect :: "env \<Rightarrow> NodeID \<Rightarrow> bool \<Rightarrow> node \<Rightarrow> node \<times> bool" where
  "suspect e i silent n =
     (if i = self n then (n, False)
      else case View_Get (snapshot n) i of
        None \<Rightarrow> (n, False)
      | Some m \<Rightarrow>
          if mState m = StateDead then (n, False)
          else let n1 = timing e i (mIncarnation m) silent n;
                   (t, changed) = SetState (nTable n1) i StateSuspect;
                   n2 = n1\<lparr>nTable := t\<rparr>
               in (if changed then pushRecord e i n2 else n2, changed))"

definition markSuspect :: "env \<Rightarrow> NodeID \<Rightarrow> node \<Rightarrow> node \<times> bool" where
  "markSuspect e i n = suspect e i False n"

definition markSilent :: "env \<Rightarrow> NodeID \<Rightarrow> node \<Rightarrow> node \<times> bool" where
  "markSilent e i n = suspect e i True n"

definition probeMissed :: "env \<Rightarrow> NodeID \<Rightarrow> node \<Rightarrow> node \<times> bool" where
  "probeMissed e i n =
     (let missed = fm_get 0 (nMissed n) i in
      if ncDeadAfter (nCfg n) \<le> missed then markDead e i n
      else if ncSuspectAfter (nCfg n) \<le> missed then markSuspect e i n
      else (n, False))"

definition probeClears :: "NodeID \<Rightarrow> uint64 \<Rightarrow> int \<Rightarrow> node \<Rightarrow> node \<times> bool" where
  "probeClears i rnd incarnation n =
     (if (case fmlookup (nSuspects n) i of None \<Rightarrow> False | Some s \<Rightarrow> rnd \<le> sRound s \<or> sSilent s)
      then (n, False)
      else let (t, changed) = Revive (nTable n) i incarnation
           in (n\<lparr>nSuspects := fmdrop i (nSuspects n), nTable := t\<rparr>, changed))"

definition usableLeaders :: "node \<Rightarrow> NodeID list \<Rightarrow> NodeID list" where
  "usableLeaders n ldrs = filter (\<lambda>i. i |\<notin>| fmdom (nSuspects n)) ldrs"

definition expire_one :: "env \<Rightarrow> View \<Rightarrow> duration \<Rightarrow> node \<times> bool \<Rightarrow> NodeID \<Rightarrow> node \<times> bool" where
  "expire_one e view now nc i =
     (let (n, changed) = nc;
          s = fm_get \<lparr>sSince = 0, sIncarnation = 0, sRound = 0, sSilent = False\<rparr> (nSuspects n) i
      in if (case View_Get view i of None \<Rightarrow> True
             | Some m \<Rightarrow> mState m \<noteq> StateSuspect \<or> mIncarnation m \<noteq> sIncarnation s)
         then (n\<lparr>nSuspects := fmdrop i (nSuspects n)\<rparr>, changed)
         else if now - sSince s < ncSuspicionTimeout (nCfg n) then (n, changed)
         else let (n1, c) = markDead e i n in (n1, changed \<or> c))"

definition expireSuspicions :: "env \<Rightarrow> duration \<Rightarrow> node \<Rightarrow> node \<times> bool" where
  "expireSuspicions e now n =
     foldl (expire_one e (snapshot n) now) (n, False) (fm_keys (nSuspects n))"

text \<open>Reconciling the tombstones with the table: a new death starts a clock, a resolved one goes.\<close>

definition deaths :: "node \<Rightarrow> (NodeID, int) fmap" where
  "deaths n = fmap_of_list (map (\<lambda>m. (mID m, mIncarnation m))
     (filter (\<lambda>m. mState m = StateDead \<and> mID m \<noteq> self n) (Members (snapshot n))))"

definition aged :: "duration \<Rightarrow> (NodeID, tombstone) fmap \<Rightarrow> NodeID \<Rightarrow> int \<Rightarrow> tombstone" where
  "aged now ts i inc =
     (case fmlookup ts i of
        None \<Rightarrow> \<lparr>tsSince = now, tsIncarnation = inc\<rparr>
      | Some t \<Rightarrow> if tsIncarnation t \<noteq> inc then \<lparr>tsSince = now, tsIncarnation = inc\<rparr> else t)"

definition reconcile :: "duration \<Rightarrow> node \<Rightarrow> node" where
  "reconcile now n =
     (if version (nTable n) = nTombVersion n then n
      else n\<lparr>nTombVersion := version (nTable n),
             nTombstones := fmmap_keys (aged now (nTombstones n)) (deaths n)\<rparr>)"

definition sweep_one :: "duration \<Rightarrow> node \<times> bool \<Rightarrow> NodeID \<Rightarrow> node \<times> bool" where
  "sweep_one now nr i =
     (let (n, removed) = nr in
      case fmlookup (nTombstones n) i of
        None \<Rightarrow> (n, removed)
      | Some ts \<Rightarrow>
          if now - tsSince ts < ncTombstoneTTL (nCfg n) then (n, removed)
          else let n1 = n\<lparr>nTombstones := fmdrop i (nTombstones n)\<rparr> in
            case View_Get (snapshot n1) i of
              None \<Rightarrow> (n1, removed)
            | Some m \<Rightarrow>
                if mState m = StateDead \<and> mIncarnation m = tsIncarnation ts
                then (n1\<lparr>nTable := fst (Remove (nTable n1) i), nClaims := fmdrop i (nClaims n1),
                         nDialed := (if mAddr m \<noteq> ncAdvertise (nCfg n1)
                                     then nDialed n1 |-| {|mAddr m|} else nDialed n1)\<rparr>, True)
                else (n1, removed))"

definition sweepTombstones :: "duration \<Rightarrow> node \<Rightarrow> node \<times> bool" where
  "sweepTombstones now n =
     (let n1 = reconcile now n in foldl (sweep_one now) (n1, False) (fm_keys (nTombstones n1)))"


section \<open>What the detector leaves alone\<close>

definition no_det :: "node \<Rightarrow> node" where
  "no_det n = (no_tasks n)\<lparr>nTable := NewTable, nAttached := {||}, nSuspects := fmempty,
     nTombstones := fmempty, nTombVersion := 0, nClaims := fmempty\<rparr>"

lemma no_det_sel:
    "nCfg (no_det n) = nCfg n" "nIncarnation (no_det n) = nIncarnation n"
    "nTerm (no_det n) = nTerm n" "nLeaders (no_det n) = nLeaders n"
    "nLeader (no_det n) = nLeader n" "nHint (no_det n) = nHint n" "nJoinID (no_det n) = nJoinID n"
    "nRejections (no_det n) = nRejections n" "nLocal (no_det n) = nLocal n"
    "nReported (no_det n) = nReported n" "nMissed (no_det n) = nMissed n"
    "nHighWater (no_det n) = nHighWater n" "nDegraded (no_det n) = nDegraded n"
    "nProbing (no_det n) = nProbing n" "nUnknownLogged (no_det n) = nUnknownLogged n"
    "nGossipOrder (no_det n) = nGossipOrder n" "nGossipNext (no_det n) = nGossipNext n"
    "nGossipSet (no_det n) = nGossipSet n" "nGossipVersion (no_det n) = nGossipVersion n"
    "nProbeSeq (no_det n) = nProbeSeq n" "nBeatSeq (no_det n) = nBeatSeq n"
    "nSinceBeat (no_det n) = nSinceBeat n" "nChaosDelay (no_det n) = nChaosDelay n"
    "nTunePending (no_det n) = nTunePending n" "nHung (no_det n) = nHung n"
  by (simp_all add: no_det_def no_tasks_sel)

lemma no_det_fields:
  assumes "no_det a = no_det b"
  shows
    "nCfg a = nCfg b" "nIncarnation a = nIncarnation b" "nTerm a = nTerm b"
    "nLeaders a = nLeaders b" "nLeader a = nLeader b" "nHint a = nHint b" "nJoinID a = nJoinID b"
    "nRejections a = nRejections b" "nLocal a = nLocal b" "nReported a = nReported b"
    "nMissed a = nMissed b" "nHighWater a = nHighWater b" "nDegraded a = nDegraded b"
    "nProbing a = nProbing b" "nUnknownLogged a = nUnknownLogged b"
    "nGossipOrder a = nGossipOrder b" "nGossipNext a = nGossipNext b"
    "nGossipSet a = nGossipSet b" "nGossipVersion a = nGossipVersion b"
    "nProbeSeq a = nProbeSeq b" "nBeatSeq a = nBeatSeq b" "nSinceBeat a = nSinceBeat b"
    "nChaosDelay a = nChaosDelay b" "nTunePending a = nTunePending b" "nHung a = nHung b"
  by (simp_all only: no_det_sel[of a, symmetric] no_det_sel[of b, symmetric] assms)


lemma no_det_tasks: "no_tasks a = no_tasks b \<Longrightarrow> no_det a = no_det b"
  by (simp add: no_det_def)

lemma no_det_update [simp]:
  "no_det (n\<lparr>nTable := t\<rparr>) = no_det n" "no_det (n\<lparr>nAttached := as\<rparr>) = no_det n"
  "no_det (n\<lparr>nSuspects := su\<rparr>) = no_det n" "no_det (n\<lparr>nTombstones := tb\<rparr>) = no_det n"
  "no_det (n\<lparr>nTombVersion := v\<rparr>) = no_det n" "no_det (n\<lparr>nClaims := cl\<rparr>) = no_det n"
  "no_det (n\<lparr>nDialed := di\<rparr>) = no_det n"
  by (simp_all add: no_det_def no_tasks_def core_def)

lemma no_det_prims [simp]:
  "no_det (emit ef n) = no_det n" "no_det (pushRecord e i n) = no_det n" "no_det (publish n) = no_det n"
  "no_det (connect a n) = no_det n" "no_det (reassignFrom e w n) = no_det n"
      apply (rule no_det_tasks[OF no_tasks_core], simp)+
  apply (rule no_det_tasks, simp)
  done

lemma no_det_markDead [simp]: "no_det (fst (markDead e i n)) = no_det n"
  by (simp add: markDead_def Let_def case_prod_beta)

lemma markLeft_markDead: "markLeft = markDead"
  by (rule ext)+ (simp add: markLeft_def markDead_def)

lemma no_det_timing [simp]: "no_det (timing e i inc silent n) = no_det n"
  by (simp add: timing_def split: option.split)

lemma no_det_suspect [simp]: "no_det (fst (suspect e i silent n)) = no_det n"
  by (simp add: suspect_def Let_def case_prod_beta split: option.split)

lemma no_det_probeMissed [simp]: "no_det (fst (probeMissed e i n)) = no_det n"
  by (simp add: probeMissed_def markSuspect_def Let_def)

lemma no_det_probeClears [simp]: "no_det (fst (probeClears i r inc n)) = no_det n"
  by (simp add: probeClears_def Let_def case_prod_beta)

lemma no_det_expire_one [simp]: "no_det (fst (expire_one e v now nc i)) = no_det (fst nc)"
  by (simp add: expire_one_def Let_def case_prod_beta)

lemma no_det_expire_all [simp]: "no_det (fst (foldl (expire_one e v now) nc is)) = no_det (fst nc)"
  by (induction "is" arbitrary: nc) simp_all

lemma no_det_expire [simp]: "no_det (fst (expireSuspicions e now n)) = no_det n"
  by (simp add: expireSuspicions_def)

lemma no_det_sweep_one [simp]: "no_det (fst (sweep_one now nr i)) = no_det (fst nr)"
  by (simp add: sweep_one_def Let_def case_prod_beta split: option.split)

lemma no_det_sweep [simp]: "no_det (fst (sweepTombstones now n)) = no_det n"
proof -
  have "no_det (fst (foldl (sweep_one now) nc is)) = no_det (fst nc)" for nc "is"
    by (induction "is" arbitrary: nc) simp_all
  then show ?thesis by (simp add: sweepTombstones_def reconcile_def Let_def)
qed


section \<open>What the detector changes\<close>

abbreviation peer :: "node \<Rightarrow> NodeID \<Rightarrow> Member option" where
  "peer n i \<equiv> fmlookup (members (nTable n)) i"

lemma Get_snapshot: "table_wf (nTable n) \<Longrightarrow> View_Get (snapshot n) i = peer n i"
  by (simp add: snapshot_def Get_Snapshot)

lemma core_ids: "core a = core b \<Longrightarrow> ids a = ids b"
  using core_fields(33)[of a b] by (simp add: ids_def)

lemma ids_more [simp]:
  "ids (pushRecord e i n) = ids n" "ids (publish n) = ids n" "ids (n\<lparr>nTable := t\<rparr>) = ids n"
  "ids (n\<lparr>nAttached := as\<rparr>) = ids n" "ids (n\<lparr>nSuspects := su\<rparr>) = ids n"
  "ids (n\<lparr>nTombstones := tb\<rparr>) = ids n" "ids (n\<lparr>nTombVersion := v\<rparr>) = ids n"
  "ids (n\<lparr>nClaims := cl\<rparr>) = ids n" "ids (n\<lparr>nDialed := di\<rparr>) = ids n"
  by (simp_all add: ids_def)

lemma markDead_fields [simp]:
  "nTable (fst (markDead e i n)) = fst (SetState (nTable n) i StateDead)"
  "nAttached (fst (markDead e i n)) = nAttached n |-| {|i|}"
  "nSuspects (fst (markDead e i n)) = fmdrop i (nSuspects n)"
  "nTombstones (fst (markDead e i n)) = nTombstones n" "nClaims (fst (markDead e i n)) = nClaims n"
  "ids (fst (markDead e i n)) = ids n"
  "snd (markDead e i n) = snd (SetState (nTable n) i StateDead)"
  by (simp_all add: markDead_def Let_def case_prod_beta)

lemma timing_fields [simp]:
  "nTable (timing e i inc silent n) = nTable n" "nAttached (timing e i inc silent n) = nAttached n"
  "ids (timing e i inc silent n) = ids n"
  "fmdom (nSuspects (timing e i inc silent n)) = finsert i (fmdom (nSuspects n))"
  by (auto simp: timing_def split: option.split intro: fmdomI)

definition may_suspect :: "node \<Rightarrow> NodeID \<Rightarrow> bool" where
  "may_suspect n i \<longleftrightarrow> i \<noteq> self n \<and>
     (case View_Get (snapshot n) i of None \<Rightarrow> False | Some m \<Rightarrow> mState m \<noteq> StateDead)"

lemma suspect_no: "\<not> may_suspect n i \<Longrightarrow> suspect e i silent n = (n, False)"
  by (auto simp: suspect_def may_suspect_def split: option.splits)

lemma suspect_yes:
  assumes "may_suspect n i"
  shows "nTable (fst (suspect e i silent n)) = fst (SetState (nTable n) i StateSuspect)"
    "nAttached (fst (suspect e i silent n)) = nAttached n" "ids (fst (suspect e i silent n)) = ids n"
    "fmdom (nSuspects (fst (suspect e i silent n))) = finsert i (fmdom (nSuspects n))"
    "snd (suspect e i silent n) = snd (SetState (nTable n) i StateSuspect)"
  using assms
  by (auto simp: suspect_def may_suspect_def Let_def case_prod_beta split: option.splits)

lemma suspect_entry:
  assumes "table_wf (nTable n)" "may_suspect n i" "peer n i = Some m" "fmlookup (nSuspects n) i = None"
  shows "fmlookup (nSuspects (fst (suspect e i silent n))) i =
    Some \<lparr>sSince = Now e n, sIncarnation = mIncarnation m, sRound = nProbeSeq n, sSilent = silent\<rparr>"
  using assms Get_snapshot[OF assms(1), of i]
  by (simp add: suspect_def may_suspect_def Let_def case_prod_beta timing_def)

text \<open>The invariant through a step that touches only peers: their records, their attachment, the
  doubts about them.\<close>

lemma node_ok_peers:
  assumes "node_ok n" "no_det n' = no_det n" "ids n' = ids n" "table_wf (nTable n')"
    "peer n' (self n) = peer n (self n)" "nAttached n' |\<subseteq>| nAttached n"
    "self n |\<notin>| fmdom (nSuspects n')"
  shows "node_ok n'"
proof -
  note f = no_det_fields[OF assms(2)]
  have "length (ledger (nRepl n')) = length (ledger (nRepl n))"
    using assms(3) by (metis ids_def length_map)
  moreover have "self n' = self n" "isLeader n' = isLeader n" using f by (simp_all add: self_def isLeader_def)
  ultimately have *: "self n' = self n" "isLeader n' = isLeader n" "hold_ok n' = hold_ok n"
    using f by (simp_all add: hold_ok_def)
  then have "own_ok n' = own_ok n" using assms(5) f by (simp add: own_ok_def own_def)
  moreover have "lead_ok n \<Longrightarrow> lead_ok n'" using * assms(6) f by (auto simp: lead_ok_def)
  ultimately show ?thesis using assms(1,4,7) * by (simp add: node_ok_def)
qed

lemma node_ok_self_alive: "node_ok n \<Longrightarrow> \<exists>m. peer n (self n) = Some m \<and> mState m = StateAlive"
  by (auto simp: node_ok_def own_ok_def own_def)

lemma node_ok_wf: "node_ok n \<Longrightarrow> table_wf (nTable n)"
  by (simp add: node_ok_def)

lemma markDead_ok: "node_ok n \<Longrightarrow> i \<noteq> self n \<Longrightarrow> node_ok (fst (markDead e i n))"
  by (rule node_ok_peers[where n = n])
    (auto simp: table_wf_ops table_ops_frame node_ok_def)

lemma node_ok_unsuspected: "node_ok n \<Longrightarrow> self n |\<notin>| fmdom (nSuspects n)"
  by (simp add: node_ok_def)

lemma suspect_ok:
  assumes "node_ok n" shows "node_ok (fst (suspect e i silent n))"
proof (cases "may_suspect n i")
  case True
  then have "i \<noteq> self n" by (simp add: may_suspect_def)
  then show ?thesis
    using node_ok_wf[OF assms] node_ok_unsuspected[OF assms]
    by (intro node_ok_peers[OF assms])
      (simp_all add: suspect_yes[OF True] table_wf_ops table_ops_frame)
qed (use assms in \<open>simp add: suspect_no\<close>)

lemma probeMissed_ok: "node_ok n \<Longrightarrow> i \<noteq> self n \<Longrightarrow> node_ok (fst (probeMissed e i n))"
  by (simp add: probeMissed_def markSuspect_def Let_def markDead_ok suspect_ok)

lemma probeClears_ok:
  assumes "node_ok n" "i \<noteq> self n" shows "node_ok (fst (probeClears i r inc n))"
  using assms(2) node_ok_wf[OF assms(1)] node_ok_unsuspected[OF assms(1)]
  by (intro node_ok_peers[OF assms(1)])
    (simp_all add: probeClears_def Let_def case_prod_beta table_wf_ops table_ops_frame)

lemma self_no_det: "no_det a = no_det b \<Longrightarrow> self a = self b"
  using no_det_fields(1)[of a b] by (simp add: self_def)

lemma expire_one_ok:
  assumes "node_ok (fst nc)" "i \<noteq> self (fst nc)" shows "node_ok (fst (expire_one e v now nc i))"
proof -
  have "node_ok ((fst nc)\<lparr>nSuspects := fmdrop i (nSuspects (fst nc))\<rparr>)"
    using node_ok_wf[OF assms(1)] node_ok_unsuspected[OF assms(1)] by (intro node_ok_peers[OF assms(1)]) simp_all
  then show ?thesis
    using assms markDead_ok[OF assms]
    by (simp add: expire_one_def Let_def case_prod_beta)
qed

lemma expire_ok:
  assumes "node_ok n" shows "node_ok (fst (expireSuspicions e now n))"
proof -
  have "node_ok (fst nc) \<Longrightarrow> self (fst nc) \<notin> set is \<Longrightarrow> node_ok (fst (foldl (expire_one e v now) nc is))" for v nc "is"
  proof (induction "is" arbitrary: nc)
    case (Cons i "is")
    have "node_ok (fst (foldl (expire_one e v now) (expire_one e v now nc i) is))"
    proof (rule Cons.IH)
      show "node_ok (fst (expire_one e v now nc i))" using Cons.prems by (intro expire_one_ok) auto
      show "self (fst (expire_one e v now nc i)) \<notin> set is"
        using Cons.prems self_no_det[OF no_det_expire_one, of e v now nc i] by simp
    qed
    then show ?case by simp
  qed simp
  then show ?thesis
    using assms node_ok_unsuspected[OF assms] by (simp add: expireSuspicions_def)
qed

lemma sweep_one_ok:
  assumes "node_ok (fst nr)" shows "node_ok (fst (sweep_one now nr i))"
proof -
  obtain n r where nr: "nr = (n, r)" by fastforce
  note ok = assms[unfolded nr, simplified]
  have *: "node_ok (n\<lparr>nTombstones := tb\<rparr>)" for tb
    using node_ok_wf[OF ok] node_ok_unsuspected[OF ok] by (intro node_ok_peers[OF ok]) simp_all
  obtain m where m: "peer n (self n) = Some m" "mState m = StateAlive"
    using node_ok_self_alive[OF ok] by blast
  have "node_ok (n\<lparr>nTombstones := tb, nTable := fst (Remove (nTable n) i), nClaims := cl, nDialed := di\<rparr>)"
    if "i \<noteq> self n" for tb cl di
    using node_ok_wf[OF ok] node_ok_unsuspected[OF ok] that
    by (intro node_ok_peers[OF ok]) (simp_all add: table_wf_ops table_ops_frame)
  moreover have "mState k = StateAlive" if "View_Get (snapshot (n\<lparr>nTombstones := tb\<rparr>)) (self n) = Some k" for k tb
    using that m Get_snapshot[of "n\<lparr>nTombstones := tb\<rparr>" "self n"] node_ok_wf[OF ok] by simp
  ultimately show ?thesis
    using * ok by (cases "i = self n") (auto simp: nr sweep_one_def Let_def split: option.splits)
qed

lemma sweep_ok:
  assumes "node_ok n" shows "node_ok (fst (sweepTombstones now n))"
proof -
  have "node_ok (fst nc) \<Longrightarrow> node_ok (fst (foldl (sweep_one now) nc is))" for nc "is"
    by (induction "is" arbitrary: nc) (auto simp: sweep_one_ok)
  moreover have "node_ok (reconcile now n)"
    using node_ok_wf[OF assms] node_ok_unsuspected[OF assms]
    by (auto simp: reconcile_def assms intro!: node_ok_peers[OF assms])
  ultimately show ?thesis by (simp add: sweepTombstones_def Let_def)
qed


section \<open>Expiry, one suspicion at a time\<close>

definition confirmed :: "node \<Rightarrow> duration \<Rightarrow> Member \<Rightarrow> suspicion \<Rightarrow> bool" where
  "confirmed n now m s \<longleftrightarrow> mState m = StateSuspect \<and> mIncarnation m = sIncarnation s \<and>
     ncSuspicionTimeout (nCfg n) \<le> now - sSince s"

definition unresolved :: "Member \<Rightarrow> suspicion \<Rightarrow> bool" where
  "unresolved m s \<longleftrightarrow> mState m = StateSuspect \<and> mIncarnation m = sIncarnation s"

definition dead_of :: "Member \<Rightarrow> Member" where
  "dead_of m = m\<lparr>mState := StateDead, mIncarnation := NextIncarnation (mIncarnation m)\<rparr>"

lemma SetState_dead:
  "fmlookup (members t) i = Some m \<Longrightarrow> mState m \<noteq> StateDead \<Longrightarrow>
     fmlookup (members (fst (SetState t i StateDead))) i = Some (dead_of m)"
  by (simp add: SetState_def store_def dead_of_def)

lemma expire_one_other:
  assumes "j \<noteq> i"
  shows "peer (fst (expire_one e v now nc i)) j = peer (fst nc) j"
    "fmlookup (nSuspects (fst (expire_one e v now nc i))) j = fmlookup (nSuspects (fst nc)) j"
  using assms by (simp_all add: expire_one_def Let_def case_prod_beta table_ops_frame)

lemma expire_one_self:
  assumes "View_Get v i = Some m" "peer n i = Some m" "fmlookup (nSuspects n) i = Some s"
  shows "peer (fst (expire_one e v now (n, c) i)) i = Some (if confirmed n now m s then dead_of m else m)"
    "fmlookup (nSuspects (fst (expire_one e v now (n, c) i))) i =
       (if unresolved m s \<and> \<not> confirmed n now m s then Some s else None)"
  using assms SetState_dead[OF assms(2)]
  by (auto simp: expire_one_def Let_def case_prod_beta confirmed_def unresolved_def fm_get_def)

lemma expire_all_other:
  assumes "j \<notin> set is"
  shows "peer (fst (foldl (expire_one e v now) nc is)) j = peer (fst nc) j"
    "fmlookup (nSuspects (fst (foldl (expire_one e v now) nc is))) j = fmlookup (nSuspects (fst nc)) j"
  using assms by (induction "is" arbitrary: nc) (auto simp: expire_one_other)

lemma expire_all_at:
  assumes "distinct is" "j \<in> set is"
    and "View_Get v j = Some m" "peer (fst nc) j = Some m" "fmlookup (nSuspects (fst nc)) j = Some s"
  shows "peer (fst (foldl (expire_one e v now) nc is)) j =
      Some (if confirmed (fst nc) now m s then dead_of m else m)"
    "fmlookup (nSuspects (fst (foldl (expire_one e v now) nc is))) j =
      (if unresolved m s \<and> \<not> confirmed (fst nc) now m s then Some s else None)"
proof -
  obtain as bs where s: "is = as @ j # bs" "j \<notin> set as" "j \<notin> set bs"
    using assms(1,2) by (metis distinct.simps(2) distinct_append split_list disjoint_iff list.set_intros(1))
  let ?a = "foldl (expire_one e v now) nc as"
  have a: "peer (fst ?a) j = Some m" "fmlookup (nSuspects (fst ?a)) j = Some s"
    using assms(4,5) by (simp_all add: expire_all_other[OF s(2)])
  have c: "confirmed (fst ?a) now m s = confirmed (fst nc) now m s"
    using no_det_fields(1)[OF no_det_expire_all, of e v now nc as] by (simp add: confirmed_def)
  note one = expire_one_self[OF assms(3) a, of e now "snd ?a", simplified c]
  show "peer (fst (foldl (expire_one e v now) nc is)) j =
      Some (if confirmed (fst nc) now m s then dead_of m else m)"
    "fmlookup (nSuspects (fst (foldl (expire_one e v now) nc is))) j =
      (if unresolved m s \<and> \<not> confirmed (fst nc) now m s then Some s else None)"
    using one by (simp_all add: s(1) expire_all_other[OF s(3)])
qed

section \<open>Properties\<close>

text \<open>C15: Doubt becomes death only by waiting. A detector tick declares a member dead exactly when this node
  itself raised the doubt, the record is still suspect at the doubted incarnation, and the whole
  suspicion timeout has passed; every other record is untouched, and of the doubts only those still
  open stay timed. A rumour this node merely heard is never confirmed here.\<close>

theorem suspicion_expiry:
  assumes "table_wf (nTable n)" and "peer n i = Some m" and "n' = fst (expireSuspicions e now n)"
  shows "peer n' i = Some (case fmlookup (nSuspects n) i of None \<Rightarrow> m
           | Some s \<Rightarrow> if confirmed n now m s then dead_of m else m) \<and>
    fmlookup (nSuspects n') i = (case fmlookup (nSuspects n) i of None \<Rightarrow> None
           | Some s \<Rightarrow> if unresolved m s \<and> \<not> confirmed n now m s then Some s else None)"
proof (cases "fmlookup (nSuspects n) i")
  case None
  then have "i \<notin> set (fm_keys (nSuspects n))" by (simp add: fmlookup_dom_iff)
  from expire_all_other[OF this, of e "snapshot n" now "(n, False)"] show ?thesis
    using None assms(2,3) by (simp add: expireSuspicions_def)
next
  case (Some s)
  then have "i \<in> set (fm_keys (nSuspects n))" by (auto intro: fmdomI)
  from expire_all_at[OF distinct_fm_keys this, of "snapshot n" m "(n, False)" s e now] show ?thesis
    using Some assms by (simp add: expireSuspicions_def Get_snapshot)
qed

definition ex_pair :: node where
  "ex_pair = ex_leader\<lparr>nTable := fst (Upsert (nTable ex_leader) (ex_member ''a'' RoleWorker (Fin 5)))\<rparr>"

lemma ex_pair_simps:
  "table_wf (nTable ex_pair)" "peer ex_pair ''a'' = Some (ex_member ''a'' RoleWorker (Fin 5))"
  "self ex_pair = ''w''" "isLeader ex_pair" "nSuspects ex_pair = fmempty"
  "may_suspect ex_pair ''a''" "nTrace ex_pair = []" "nAttached ex_pair = {|''a'', ''b''|}"
  "ncSuspicionTimeout (nCfg ex_pair) = 3 * Second" "nProbeSeq ex_pair = 0" "nTombstones ex_pair = fmempty"
  "version (nTable ex_pair) = 2" "nTombVersion ex_pair = 0" "ncTombstoneTTL (nCfg ex_pair) = 60 * Second"
proof -
  show wf: "table_wf (nTable ex_pair)"
    using node_ok_wf[OF ex_node_ok] by (simp add: table_wf_ops ex_pair_def ex_leader_def)
  show p: "peer ex_pair ''a'' = Some (ex_member ''a'' RoleWorker (Fin 5))"
    by (simp add: ex_pair_def ex_leader_def Upsert_def NewTable_def store_def ex_member_def)
  show self: "self ex_pair = ''w''" using ex_leader_simps(1) by (simp add: ex_pair_def self_def)
  show "isLeader ex_pair" using ex_leader_simps(3) by (simp add: ex_pair_def isLeader_def self_def)
  show "may_suspect ex_pair ''a''"
    using Get_snapshot[OF wf, of "''a''"] p self by (simp add: may_suspect_def ex_member_def)
qed (simp_all add: ex_pair_def ex_leader_def ex_node_def publish_def Let_def newState_def ex_cfgN_def case_prod_beta
      NodeConfig_withDefaults_def pos_or_def DefaultSuspicionTimeout_def DefaultTombstoneTTL_def Upsert_def
      NewTable_def store_def ex_member_def)

definition ex_doubting :: node where
  "ex_doubting = fst (markSuspect ex_envr ''a'' ex_pair)"

lemma ex_doubting_simps:
  "table_wf (nTable ex_doubting)"
  "peer ex_doubting ''a'' = Some ((ex_member ''a'' RoleWorker (Fin 5))\<lparr>mState := StateSuspect\<rparr>)"
  "fmlookup (nSuspects ex_doubting) ''a'' = Some \<lparr>sSince = 0, sIncarnation = 1, sRound = 0, sSilent = False\<rparr>"
  "ncSuspicionTimeout (nCfg ex_doubting) = 3 * Second"
proof -
  note y = suspect_yes[OF ex_pair_simps(6), of ex_envr False]
  show "table_wf (nTable ex_doubting)"
    using table_wf_ops[OF ex_pair_simps(1)] by (simp add: ex_doubting_def markSuspect_def y)
  show "peer ex_doubting ''a'' = Some ((ex_member ''a'' RoleWorker (Fin 5))\<lparr>mState := StateSuspect\<rparr>)"
    unfolding ex_doubting_def markSuspect_def y(1)
    using ex_pair_simps(2) by (simp add: SetState_def store_def ex_member_def)
  have no: "fmlookup (nSuspects ex_pair) ''a'' = None" by (simp add: ex_pair_simps)
  show "fmlookup (nSuspects ex_doubting) ''a'' = Some \<lparr>sSince = 0, sIncarnation = 1, sRound = 0, sSilent = False\<rparr>"
    unfolding ex_doubting_def markSuspect_def suspect_entry[OF ex_pair_simps(1,6,2) no]
    by (simp add: Now_def ex_envr_def ex_member_def ex_pair_simps)
  show "ncSuspicionTimeout (nCfg ex_doubting) = 3 * Second"
    using no_det_fields(1)[OF no_det_suspect, of ex_envr "''a''" False ex_pair]
    by (simp add: ex_doubting_def markSuspect_def ex_pair_simps)
qed

theorem suspicion_expiry_witness:
  "peer (fst (expireSuspicions ex_envr (3 * Second) ex_doubting)) ''a'' =
     Some (dead_of ((ex_member ''a'' RoleWorker (Fin 5))\<lparr>mState := StateSuspect\<rparr>)) \<and>
   fmlookup (nSuspects (fst (expireSuspicions ex_envr (3 * Second) ex_doubting))) ''a'' = None"
  using suspicion_expiry[OF ex_doubting_simps(1,2) refl, of ex_envr "3 * Second"]
  by (simp add: ex_doubting_simps confirmed_def unresolved_def ex_member_def)

lemma broadcast_trace: "\<exists>new. nTrace (broadcast e t p n) = new @ nTrace n \<and> only_to W new"
  by (auto simp: broadcast_def emit_def split: option.split intro: exI[of _ "[]"] exI[of _ "[ef]" for ef])

lemma pushRecord_trace: "\<exists>new. nTrace (pushRecord e i n) = new @ nTrace n \<and> only_to W new"
  using broadcast_trace by (auto simp: pushRecord_def Let_def split: option.split intro: exI[of _ "[]"])



text \<open>A doubt is cleared only by newer evidence. After this node raises a doubt about a live member, a
  successful probe of a round that began no later, or any probe at all when missed heartbeats raised
  it, changes nothing; the success of a later round at the member's incarnation revives its record
  and makes it usable as a leader again.\<close>

theorem probe_clears_doubt:
  assumes "table_wf (nTable n)" "i \<noteq> self n" "peer n i = Some m" "mState m \<noteq> StateDead"
    and "fmlookup (nSuspects n) i = None" and "n1 = fst (suspect e i silent n)"
    and "(n2, ch) = probeClears i rnd (mIncarnation m) n1"
  shows "if rnd \<le> nProbeSeq n \<or> silent then n2 = n1 \<and> \<not> ch \<and> i \<notin> set (usableLeaders n1 ldrs)
    else peer n2 i = Some (m\<lparr>mState := StateAlive\<rparr>) \<and> ch \<and>
      (i \<in> set (usableLeaders n2 ldrs) \<longleftrightarrow> i \<in> set ldrs)"
proof -
  have may: "may_suspect n i"
    using assms(2-4) Get_snapshot[OF assms(1), of i] by (simp add: may_suspect_def)
  note entry = suspect_entry[OF assms(1) may assms(3,5), of e silent, folded assms(6)]
  have p: "peer n1 i = Some (m\<lparr>mState := StateSuspect\<rparr>)"
    unfolding assms(6) suspect_yes(1)[OF may] using assms(3,4)
    by (cases "mState m = StateSuspect") (auto simp: SetState_def store_def)
  have r: "probeClears i rnd (mIncarnation m) n1 =
      (if rnd \<le> nProbeSeq n \<or> silent then (n1, False)
       else (n1\<lparr>nSuspects := fmdrop i (nSuspects n1), nTable := fst (Revive (nTable n1) i (mIncarnation m))\<rparr>, True))"
    using p by (simp add: probeClears_def entry Let_def Revive_def case_prod_beta)
  show ?thesis
  proof (cases "rnd \<le> nProbeSeq n \<or> silent")
    case True
    then show ?thesis using assms(7) entry by (auto simp: r usableLeaders_def intro: fmdomI)
  next
    case False
    have "peer n2 i = Some (m\<lparr>mState := StateAlive\<rparr>)"
      using assms(7) False p by (simp add: r Revive_def store_def)
    then show ?thesis using assms(7) False by (simp add: r usableLeaders_def)
  qed
qed

theorem probe_clears_doubt_witness:
  "peer (fst (probeClears ''a'' 1 1 (fst (markSuspect ex_envr ''a'' ex_pair)))) ''a'' =
     Some (ex_member ''a'' RoleWorker (Fin 5)) \<and>
   \<not> snd (probeClears ''a'' 0 1 (fst (markSuspect ex_envr ''a'' ex_pair)))"
proof -
  have no: "fmlookup (nSuspects ex_pair) ''a'' = None" "''a'' \<noteq> self ex_pair" by (simp_all add: ex_pair_simps)
  have al: "mState (ex_member ''a'' RoleWorker (Fin 5)) \<noteq> StateDead" by (simp add: ex_member_def)
  let ?n1 = "fst (suspect ex_envr ''a'' False ex_pair)"
  have t: "if rnd \<le> nProbeSeq ex_pair \<or> False
      then fst (probeClears ''a'' rnd 1 ?n1) = ?n1 \<and> \<not> snd (probeClears ''a'' rnd 1 ?n1) \<and> ''a'' \<notin> set (usableLeaders ?n1 [])
      else peer (fst (probeClears ''a'' rnd 1 ?n1)) ''a'' = Some ((ex_member ''a'' RoleWorker (Fin 5))\<lparr>mState := StateAlive\<rparr>) \<and>
        snd (probeClears ''a'' rnd 1 ?n1) \<and> (''a'' \<in> set (usableLeaders (fst (probeClears ''a'' rnd 1 ?n1)) []) \<longleftrightarrow> ''a'' \<in> set [])"
    for rnd
    by (rule probe_clears_doubt[OF ex_pair_simps(1) no(2) ex_pair_simps(2) al no(1) refl]) (simp add: ex_member_def)
  show ?thesis
    using t[of 1] t[of 0] by (simp add: markSuspect_def ex_pair_simps ex_member_def)
qed

lemma deaths_lookup:
  assumes "table_wf (nTable n)"
  shows "fmlookup (deaths n) i = (case peer n i of None \<Rightarrow> None
     | Some m \<Rightarrow> if mState m = StateDead \<and> i \<noteq> self n then Some (mIncarnation m) else None)"
proof -
  let ?xs = "map (\<lambda>m. (mID m, mIncarnation m))
     (filter (\<lambda>m. mState m = StateDead \<and> mID m \<noteq> self n) (Members (snapshot n)))"
  have "distinct (map mID (Members (snapshot n)))"
    using Snapshot_distinct[OF assms] by (simp add: snapshot_def)
  then have d: "distinct (map fst ?xs)"
    using distinct_map_filter[of mID "Members (snapshot n)"] by (simp add: o_def)
  have in_table: "m \<in> set (Members (snapshot n)) \<longleftrightarrow> peer n (mID m) = Some m" for m
    using assms by (auto simp: snapshot_def set_Snapshot table_wf_def)
  have "map_of ?xs i = Some inc \<longleftrightarrow> (\<exists>m. peer n i = Some m \<and> mState m = StateDead \<and> i \<noteq> self n \<and> mIncarnation m = inc)" for inc
  proof -
    have "(i, inc) \<in> set ?xs \<longleftrightarrow>
        (\<exists>m. m \<in> set (Members (snapshot n)) \<and> mState m = StateDead \<and> mID m \<noteq> self n \<and> mID m = i \<and> mIncarnation m = inc)"
      by auto
    also have "\<dots> \<longleftrightarrow> (\<exists>m. peer n i = Some m \<and> mState m = StateDead \<and> i \<noteq> self n \<and> mIncarnation m = inc)"
      using assms by (metis in_table table_wf_def)
    finally show ?thesis by (simp only: map_of_eq_Some_iff[OF d])
  qed
  moreover have "(case peer n i of None \<Rightarrow> None
      | Some m \<Rightarrow> if mState m = StateDead \<and> i \<noteq> self n then Some (mIncarnation m) else None) = Some inc \<longleftrightarrow>
    (\<exists>m. peer n i = Some m \<and> mState m = StateDead \<and> i \<noteq> self n \<and> mIncarnation m = inc)" for inc
    by (auto split: option.splits)
  moreover have "a = b" if "\<And>x. a = Some x \<longleftrightarrow> b = Some x" for a b :: "int option"
    using that by (metis option.exhaust)
  ultimately have "map_of ?xs i = (case peer n i of None \<Rightarrow> None
     | Some m \<Rightarrow> if mState m = StateDead \<and> i \<noteq> self n then Some (mIncarnation m) else None)"
    by presburger
  then show ?thesis by (simp add: deaths_def fmlookup_of_list)
qed

lemma reconcile_fields [simp]:
  "nTable (reconcile now n) = nTable n" "nCfg (reconcile now n) = nCfg n" "snapshot (reconcile now n) = snapshot n"
  by (simp_all add: reconcile_def snapshot_def)

lemma sweep_one_other:
  assumes "j \<noteq> i"
  shows "peer (fst (sweep_one now nr i)) j = peer (fst nr) j"
    "fmlookup (nTombstones (fst (sweep_one now nr i))) j = fmlookup (nTombstones (fst nr)) j"
  using assms by (auto simp: sweep_one_def Let_def case_prod_beta table_ops_frame split: option.split)

lemma sweep_one_wf: "table_wf (nTable (fst nr)) \<Longrightarrow> table_wf (nTable (fst (sweep_one now nr i)))"
  by (auto simp: sweep_one_def Let_def case_prod_beta table_wf_ops split: option.split)

text \<open>What a sweep does to one member: nothing without a tombstone, or before its time.\<close>

definition collected :: "node \<Rightarrow> duration \<Rightarrow> Member \<Rightarrow> tombstone \<Rightarrow> bool" where
  "collected n now m ts \<longleftrightarrow> ncTombstoneTTL (nCfg n) \<le> now - tsSince ts \<and> mState m = StateDead \<and>
     mIncarnation m = tsIncarnation ts"

lemma sweep_one_self:
  assumes "table_wf (nTable n)" "peer n i = Some m"
  shows "peer (fst (sweep_one now (n, r) i)) i = (case fmlookup (nTombstones n) i of None \<Rightarrow> Some m
      | Some ts \<Rightarrow> if collected n now m ts then None else Some m)"
    "fmlookup (nTombstones (fst (sweep_one now (n, r) i))) i = (case fmlookup (nTombstones n) i of None \<Rightarrow> None
      | Some ts \<Rightarrow> if now - tsSince ts < ncTombstoneTTL (nCfg n) then Some ts else None)"
  using assms Get_snapshot[of "n\<lparr>nTombstones := fmdrop i (nTombstones n)\<rparr>" i]
  by (auto simp: sweep_one_def Let_def collected_def Remove_def split: option.splits)

lemma sweep_all_other:
  assumes "j \<notin> set is"
  shows "peer (fst (foldl (sweep_one now) nc is)) j = peer (fst nc) j"
    "fmlookup (nTombstones (fst (foldl (sweep_one now) nc is))) j = fmlookup (nTombstones (fst nc)) j"
  using assms by (induction "is" arbitrary: nc) (auto simp: sweep_one_other)

lemma no_det_sweep_all [simp]: "no_det (fst (foldl (sweep_one now) nc is)) = no_det (fst nc)"
  by (induction "is" arbitrary: nc) simp_all

lemma sweep_all_at:
  assumes "distinct is" "j \<in> set is" "table_wf (nTable n)" "peer n j = Some m"
  shows "peer (fst (foldl (sweep_one now) (n, r) is)) j = (case fmlookup (nTombstones n) j of None \<Rightarrow> Some m
      | Some ts \<Rightarrow> if collected n now m ts then None else Some m)"
    "fmlookup (nTombstones (fst (foldl (sweep_one now) (n, r) is))) j = (case fmlookup (nTombstones n) j of None \<Rightarrow> None
      | Some ts \<Rightarrow> if now - tsSince ts < ncTombstoneTTL (nCfg n) then Some ts else None)"
proof -
  obtain as bs where s: "is = as @ j # bs" "j \<notin> set as" "j \<notin> set bs"
    using assms(1,2) by (metis distinct.simps(2) distinct_append split_list disjoint_iff list.set_intros(1))
  let ?a = "foldl (sweep_one now) (n, r) as"
  have wf: "table_wf (nTable (fst nc)) \<Longrightarrow> table_wf (nTable (fst (foldl (sweep_one now) nc as)))" for nc
    by (induction as arbitrary: nc) (simp_all add: sweep_one_wf)
  have a: "table_wf (nTable (fst ?a))" "peer (fst ?a) j = Some m"
    "fmlookup (nTombstones (fst ?a)) j = fmlookup (nTombstones n) j"
    using wf[of "(n, r)"] assms(3,4) by (simp_all add: sweep_all_other[OF s(2)])
  have cfg: "nCfg (fst ?a) = nCfg n"
    using no_det_fields(1)[OF no_det_sweep_all, of now "(n, r)" as] by simp
  have coll: "collected (fst ?a) = collected n" by (rule ext)+ (simp add: collected_def cfg)
  note one = sweep_one_self[OF a(1,2), of now "snd ?a", unfolded coll cfg a(3)]
  show "peer (fst (foldl (sweep_one now) (n, r) is)) j = (case fmlookup (nTombstones n) j of None \<Rightarrow> Some m
      | Some ts \<Rightarrow> if collected n now m ts then None else Some m)"
    using one(1) by (simp add: s(1) sweep_all_other[OF s(3)])
  show "fmlookup (nTombstones (fst (foldl (sweep_one now) (n, r) is))) j = (case fmlookup (nTombstones n) j of None \<Rightarrow> None
      | Some ts \<Rightarrow> if now - tsSince ts < ncTombstoneTTL (nCfg n) then Some ts else None)"
    using one(2) by (simp add: s(1) sweep_all_other[OF s(3)])
qed

lemma sweep_at:
  assumes "table_wf (nTable n)" "peer n i = Some m"
  shows "peer (fst (sweepTombstones now n)) i = (case fmlookup (nTombstones (reconcile now n)) i of None \<Rightarrow> Some m
      | Some ts \<Rightarrow> if collected n now m ts then None else Some m)"
    "fmlookup (nTombstones (fst (sweepTombstones now n))) i = (case fmlookup (nTombstones (reconcile now n)) i of None \<Rightarrow> None
      | Some ts \<Rightarrow> if now - tsSince ts < ncTombstoneTTL (nCfg n) then Some ts else None)"
proof -
  let ?n1 = "reconcile now n"
  have "peer (fst (sweepTombstones now n)) i = (case fmlookup (nTombstones ?n1) i of None \<Rightarrow> Some m
      | Some ts \<Rightarrow> if collected n now m ts then None else Some m) \<and>
    fmlookup (nTombstones (fst (sweepTombstones now n))) i = (case fmlookup (nTombstones ?n1) i of None \<Rightarrow> None
      | Some ts \<Rightarrow> if now - tsSince ts < ncTombstoneTTL (nCfg n) then Some ts else None)"
  proof (cases "fmlookup (nTombstones ?n1) i")
    case None
    then have "i \<notin> set (fm_keys (nTombstones ?n1))" by (simp add: fmlookup_dom_iff)
    from sweep_all_other[OF this, of now "(?n1, False)"] show ?thesis
      using None assms by (simp add: sweepTombstones_def Let_def)
  next
    case (Some ts)
    then have "i \<in> set (fm_keys (nTombstones ?n1))" by (auto intro: fmdomI)
    have coll: "collected ?n1 = collected n" by (rule ext)+ (simp add: collected_def)
    have "table_wf (nTable ?n1)" "peer ?n1 i = Some m" using assms by simp_all
    from sweep_all_at[OF distinct_fm_keys \<open>i \<in> _\<close> this, of now False, unfolded coll reconcile_fields] show ?thesis
      by (simp add: sweepTombstones_def Let_def)
  qed
  then show "peer (fst (sweepTombstones now n)) i = (case fmlookup (nTombstones ?n1) i of None \<Rightarrow> Some m
      | Some ts \<Rightarrow> if collected n now m ts then None else Some m)"
    "fmlookup (nTombstones (fst (sweepTombstones now n))) i = (case fmlookup (nTombstones ?n1) i of None \<Rightarrow> None
      | Some ts \<Rightarrow> if now - tsSince ts < ncTombstoneTTL (nCfg n) then Some ts else None)" by simp_all
qed



end
