(* ===== verification/NodeCore.thy ===== *)
theory NodeCore
  imports Detector
begin

text \<open>
  The routines every trigger of the node loop ends in: \<open>evaluate\<close> (the single
  election-and-affinity routine of \<open>pkg/cluster/node.go\<close>) with \<open>join\<close> and the role change,
  \<open>membershipChanged\<close>, the self-reported score, the refutation of rumours about this node, and the
  runtime tuning of \<open>tuning.go\<close> and \<open>control.go\<close>. The sort of floats in \<open>selfScore\<close> only ever sees
  finite scores, so it is a sort of rationals.
\<close>

section \<open>Definitions\<close>

definition pruneLocal :: "View \<Rightarrow> node \<Rightarrow> node" where
  "pruneLocal view n =
     (let alive = fset_of_list (map mID (filter (\<lambda>m. mState m \<noteq> StateDead) (Members view)))
      in n\<lparr>nLocal := fmfilter (\<lambda>i. i |\<in>| alive \<or> i = self n) (nLocal n),
           nMissed := fmfilter (\<lambda>i. i |\<in>| alive) (nMissed n)\<rparr>)"

definition retainLive :: "node \<Rightarrow> node" where
  "retainLive n =
     (let view = snapshot n;
          n1 = (if ncRetainer (nCfg n) then emit (Retained (View_Addresses view)) n else n)
      in pruneLocal view n1)"

definition finite_scores :: "f64 list \<Rightarrow> rat list" where
  "finite_scores ss = concat (map (\<lambda>s. case s of Fin x \<Rightarrow> [x] | _ \<Rightarrow> []) ss)"

definition median :: "rat list \<Rightarrow> f64" where
  "median vs =
     (let mid = length vs div 2 in
      if length vs mod 2 = 1 then Fin (vs ! mid) else (Fin (vs ! (mid - 1)) + Fin (vs ! mid)) / Fin 2)"

definition peer_scores :: "node \<Rightarrow> f64 list" where
  "peer_scores n = map (\<lambda>i. fm_get (Fin 0) (nLocal n) i) (filter (\<lambda>i. i \<noteq> self n) (fm_keys (nLocal n)))"

definition selfScore :: "node \<Rightarrow> f64" where
  "selfScore n =
     (let peers = peer_scores n; valid = finite_scores (filter IsValidScore peers) in
      if peers = [] then Fin 0 else if valid = [] then ScoreUnavailable else median (sort valid))"

definition abs_f64 :: "f64 \<Rightarrow> f64" where
  "abs_f64 f = (if f < Fin 0 then - f else f)"

definition updateSelfScore :: "env \<Rightarrow> node \<Rightarrow> node" where
  "updateSelfScore e n =
     (let next = selfScore n;
          n1 = n\<lparr>nLocal := fmupd (self n) next (nLocal n)\<rparr>;
          prev = (case View_Get (snapshot n1) (self n1) of None \<Rightarrow> ScoreUnavailable | Some m \<Rightarrow> mScore m);
          margin = Hysteresis (Config_withDefaults (ncElection (nCfg n1)))
      in if IsValidScore prev \<and> IsValidScore next \<and> abs_f64 (next - prev) < margin then n1
         else let (t, changed) = SetScore (nTable n1) (self n1) next;
                  n2 = n1\<lparr>nTable := t\<rparr>
              in if changed then announceSelf e n2 else n2)"

definition roleChanged :: "bool \<Rightarrow> node \<Rightarrow> node" where
  "roleChanged leading n =
     (let r1 = (nRepl n)\<lparr>sentWorkers := [], rHeld := False\<rparr>;
          r2 = (if leading then r1\<lparr>rDirty := True\<rparr> else r1)
      in publish (tasksRoleChanged leading (n\<lparr>nRepl := r2\<rparr>)))"

definition join :: "env \<Rightarrow> NodeID \<Rightarrow> node \<Rightarrow> node" where
  "join e ldr n =
     (case newEnvelope e n TypeJoinCluster ldr
             (enc_JoinCluster \<lparr>jcWorker = self n, jcScore = fm_get (Fin 0) (nLocal n) ldr\<rparr>) of
        None \<Rightarrow> n
      | Some x \<Rightarrow>
          let (n1, ok) = Send e ldr x n in
          if ok then n1\<lparr>nLeader := ldr, nJoinID := eID x, nSinceBeat := 0\<rparr>
          else n1\<lparr>nLeader := '''', nJoinID := ''''\<rparr>)"

definition take_role :: "env \<Rightarrow> ElectResult \<Rightarrow> node \<Rightarrow> node" where
  "take_role e res n =
     (let (t, changed) = SetRole (nTable n) (self n)
            (if contains (Leaders res) (self n) then RoleLeader else RoleWorker);
          n1 = n\<lparr>nTable := t\<rparr>
      in if changed then announceSelf e n1 else n1)"

definition take_leaders :: "env \<Rightarrow> ElectResult \<Rightarrow> node \<Rightarrow> node" where
  "take_leaders e res n =
     (if Leaders res \<noteq> nLeaders n
      then let n1 = n\<lparr>nLeaders := Leaders res, nTerm := nTerm n + 1\<rparr>
           in broadcast e TypeElectionResult (Some (enc_ElectionResult
                \<lparr>erTerm = nTerm n1, erLeaders = nLeaders n1, erClusterSize = Size res\<rparr>)) n1
      else n)"

definition lead :: "View \<Rightarrow> node \<Rightarrow> node" where
  "lead view n =
     n\<lparr>nLeader := self n, nHint := '''',
       nAttached := ffilter (\<lambda>i. case View_Get view i of None \<Rightarrow> False
         | Some m \<Rightarrow> \<not> (mState m = StateDead \<or> mRole m = RoleLeader)) (nAttached n)\<rparr>"

definition detach :: "View \<Rightarrow> NodeID list \<Rightarrow> node \<Rightarrow> node" where
  "detach view usable n =
     (if nLeader n \<noteq> '''' \<and> \<not> contains usable (nLeader n)
      then (if nLeader n |\<in>| fmdom (nSuspects n) \<or>
               (case View_Get view (nLeader n) of None \<Rightarrow> True | Some m \<Rightarrow> mState m = StateDead)
            then adoptOrphans n else n)\<lparr>nLeader := ''''\<rparr>
      else n)"

definition best_of :: "NodeID list \<Rightarrow> node \<Rightarrow> NodeID option" where
  "best_of usable n =
     (if nHint n \<noteq> '''' \<and> contains usable (nHint n) then Some (nHint n)
      else ChooseLeader (nLocal n) usable)"

definition follow :: "env \<Rightarrow> View \<Rightarrow> NodeID list \<Rightarrow> node \<Rightarrow> node" where
  "follow e view ldrs n =
     (let n1 = n\<lparr>nAttached := {||}\<rparr>;
          usable = usableLeaders n1 ldrs;
          n2 = detach view usable n1;
          best = best_of usable n2;
          n3 = n2\<lparr>nHint := ''''\<rparr>
      in case best of
           None \<Rightarrow> n3
         | Some b \<Rightarrow>
             if \<not> maxRejectionsPerRound < nRejections n3 \<and>
                ShouldRehome (nLeader n3) b (nLocal n3) usable (ncRehome (nCfg n3))
             then join e b n3 else n3)"

definition evaluate :: "env \<Rightarrow> node \<Rightarrow> node" where
  "evaluate e n =
     (let wasLeader = isLeader n;
          view = snapshot n;
          n1 = n\<lparr>nReported := View_Scores view\<rparr>;
          res = Elect view (nReported n1) (ncElection (nCfg n1));
          n2 = take_leaders e res (take_role e res n1);
          n3 = (if contains (Leaders res) (self n2) then lead view n2 else follow e view (Leaders res) n2);
          n4 = (if nHighWater n3 < int (View_Size view) then n3\<lparr>nHighWater := int (View_Size view)\<rparr> else n3);
          n5 = publish (n4\<lparr>nDegraded := Degraded (int (View_Size view)) (nHighWater n4)\<rparr>)
      in if isLeader n5 \<noteq> wasLeader then roleChanged (isLeader n5) n5 else n5)"

definition membershipChanged :: "env \<Rightarrow> node \<Rightarrow> node" where
  "membershipChanged e n = evaluate e (retainLive n)"

definition refuteIfNeeded :: "env \<Rightarrow> MemberRecord \<Rightarrow> node \<Rightarrow> node" where
  "refuteIfNeeded e rec n =
     (if ParseState (rState rec) = StateAlive \<or> rIncarnation rec < nIncarnation n then n
      else let inc = NextIncarnation (rIncarnation rec);
               n1 = n\<lparr>nIncarnation := inc\<rparr>;
               (role, score, seq) = (case View_Get (snapshot n1) (self n1) of
                  None \<Rightarrow> (RoleWorker, Fin 0, 0) | Some m \<Rightarrow> (mRole m, mScore m, mSeq m));
               t = fst (Upsert (nTable n1) \<lparr>mID = self n1, mAddr = ncAdvertise (nCfg n1), mRole = role,
                     mState = StateAlive, mIncarnation = inc, mScore = score, mSeq = seq\<rparr>)
           in publish (announceSelf e (n1\<lparr>nTable := t\<rparr>)))"

definition SetElectionParams :: "f64 \<Rightarrow> f64 \<Rightarrow> node \<Rightarrow> node" where
  "SetElectionParams threshold hysteresis n =
     (let p = nTunePending n;
          p1 = (if Fin 0 < threshold \<and> threshold \<le> Fin 1 then p\<lparr>tuThreshold := Some threshold\<rparr> else p);
          p2 = (if Fin 0 \<le> hysteresis \<and> hysteresis \<noteq> Inf False
                then p1\<lparr>tuHysteresis := Some hysteresis\<rparr> else p1)
      in n\<lparr>nTunePending := p2\<rparr>)"

definition takeTuning :: "node \<Rightarrow> node \<times> electionTuning" where
  "takeTuning n = (n\<lparr>nTunePending := \<lparr>tuThreshold = None, tuHysteresis = None\<rparr>\<rparr>, nTunePending n)"

definition applyTuning :: "env \<Rightarrow> node \<Rightarrow> node" where
  "applyTuning e n0 =
     (let (n, t) = takeTuning n0;
          (n1, c1) = (case tuThreshold t of
             Some th \<Rightarrow> if \<not> feq th (Threshold (ncElection (nCfg n)))
               then (n\<lparr>nCfg := (nCfg n)\<lparr>ncElection := (ncElection (nCfg n))\<lparr>Threshold := th\<rparr>\<rparr>\<rparr>, True)
               else (n, False)
           | None \<Rightarrow> (n, False));
          (n2, c2) = (case tuHysteresis t of
             Some h \<Rightarrow> if \<not> feq h (Hysteresis (ncElection (nCfg n1))) \<or> \<not> feq h (ncRehome (nCfg n1))
               then (n1\<lparr>nCfg := (nCfg n1)\<lparr>ncElection := (ncElection (nCfg n1))\<lparr>Hysteresis := h\<rparr>, ncRehome := h\<rparr>\<rparr>, True)
               else (n1, c1)
           | None \<Rightarrow> (n1, c1))
      in if c2 then evaluate e n2 else n2)"

definition MaxChaosDelay :: duration where "MaxChaosDelay = 5 * Second"

definition SetChaosDelay :: "duration \<Rightarrow> node \<Rightarrow> node" where
  "SetChaosDelay d n = n\<lparr>nChaosDelay := min (max d 0) MaxChaosDelay\<rparr>"

section \<open>What an evaluation leaves alone\<close>

definition no_eval :: "node \<Rightarrow> node" where
  "no_eval n = (no_tasks n)\<lparr>nTable := NewTable, nTerm := 0, nLeaders := [], nLeader := '''', nHint := '''',
     nJoinID := '''', nAttached := {||}, nReported := fmempty, nHighWater := 0, nDegraded := False,
     nSinceBeat := 0\<rparr>"

lemma no_eval_sel:
    "nCfg (no_eval n) = nCfg n" "nIncarnation (no_eval n) = nIncarnation n"
    "nRejections (no_eval n) = nRejections n" "nLocal (no_eval n) = nLocal n"
    "nMissed (no_eval n) = nMissed n" "nClaims (no_eval n) = nClaims n"
    "nProbing (no_eval n) = nProbing n" "nUnknownLogged (no_eval n) = nUnknownLogged n"
    "nGossipOrder (no_eval n) = nGossipOrder n" "nGossipNext (no_eval n) = nGossipNext n"
    "nGossipSet (no_eval n) = nGossipSet n" "nGossipVersion (no_eval n) = nGossipVersion n"
    "nSuspects (no_eval n) = nSuspects n" "nProbeSeq (no_eval n) = nProbeSeq n"
    "nTombstones (no_eval n) = nTombstones n" "nTombVersion (no_eval n) = nTombVersion n"
    "nBeatSeq (no_eval n) = nBeatSeq n" "nChaosDelay (no_eval n) = nChaosDelay n"
    "nTunePending (no_eval n) = nTunePending n" "nHung (no_eval n) = nHung n"
  by (simp_all add: no_eval_def no_tasks_sel)

lemma no_eval_fields:
  assumes "no_eval a = no_eval b"
  shows
    "nCfg a = nCfg b" "nIncarnation a = nIncarnation b" "nRejections a = nRejections b"
    "nLocal a = nLocal b" "nMissed a = nMissed b" "nClaims a = nClaims b"
    "nProbing a = nProbing b" "nUnknownLogged a = nUnknownLogged b"
    "nGossipOrder a = nGossipOrder b" "nGossipNext a = nGossipNext b"
    "nGossipSet a = nGossipSet b" "nGossipVersion a = nGossipVersion b"
    "nSuspects a = nSuspects b" "nProbeSeq a = nProbeSeq b" "nTombstones a = nTombstones b"
    "nTombVersion a = nTombVersion b" "nBeatSeq a = nBeatSeq b" "nChaosDelay a = nChaosDelay b"
    "nTunePending a = nTunePending b" "nHung a = nHung b"
  by (simp_all only: no_eval_sel[of a, symmetric] no_eval_sel[of b, symmetric] assms)


lemma no_eval_tasks: "no_tasks a = no_tasks b \<Longrightarrow> no_eval a = no_eval b"
  by (simp add: no_eval_def)

lemma no_eval_update [simp]:
  "no_eval (n\<lparr>nTable := t\<rparr>) = no_eval n" "no_eval (n\<lparr>nTerm := tm\<rparr>) = no_eval n"
  "no_eval (n\<lparr>nLeaders := ls\<rparr>) = no_eval n" "no_eval (n\<lparr>nLeader := l\<rparr>) = no_eval n"
  "no_eval (n\<lparr>nHint := h\<rparr>) = no_eval n" "no_eval (n\<lparr>nJoinID := j\<rparr>) = no_eval n"
  "no_eval (n\<lparr>nAttached := as\<rparr>) = no_eval n" "no_eval (n\<lparr>nReported := rp\<rparr>) = no_eval n"
  "no_eval (n\<lparr>nHighWater := hw\<rparr>) = no_eval n" "no_eval (n\<lparr>nDegraded := dg\<rparr>) = no_eval n"
  "no_eval (n\<lparr>nSinceBeat := sb\<rparr>) = no_eval n" "no_eval (n\<lparr>nRepl := r\<rparr>) = no_eval n"
  "no_eval (n\<lparr>nTasks := ts\<rparr>) = no_eval n"
  by (simp_all add: no_eval_def no_tasks_def core_def)

lemma no_eval_prims [simp]:
  "no_eval (emit ef n) = no_eval n" "no_eval (announceSelf e n) = no_eval n" "no_eval (publish n) = no_eval n"
  "no_eval (broadcast e t p n) = no_eval n" "no_eval (fst (Send e to x n)) = no_eval n"
  "no_eval (adoptOrphans n) = no_eval n" "no_eval (tasksRoleChanged b n) = no_eval n"
        apply (rule no_eval_tasks[OF no_tasks_core], simp)+
   apply (rule no_eval_tasks, simp)+
  done

lemma no_eval_join [simp]: "no_eval (join e l n) = no_eval n"
  by (simp add: join_def Let_def case_prod_beta split: option.split)

lemma no_eval_parts [simp]:
  "no_eval (roleChanged b n) = no_eval n" "no_eval (take_role e res n) = no_eval n"
  "no_eval (take_leaders e res n) = no_eval n" "no_eval (lead v n) = no_eval n" "no_eval (detach v us n) = no_eval n"
  by (simp_all add: roleChanged_def take_role_def take_leaders_def lead_def detach_def Let_def case_prod_beta)

lemma no_eval_follow [simp]: "no_eval (follow e v ldrs n) = no_eval n"
  by (simp add: follow_def Let_def split: option.split)

lemma no_eval_evaluate [simp]: "no_eval (evaluate e n) = no_eval n"
  by (simp add: evaluate_def Let_def)

lemma self_no_eval: "no_eval a = no_eval b \<Longrightarrow> self a = self b"
  using no_eval_fields(1)[of a b] by (simp add: self_def)

lemmas evaluate_frame [simp] = no_eval_fields[OF no_eval_evaluate]


section \<open>What an evaluation changes\<close>

lemma self_update [simp]:
  "self (n\<lparr>nTable := t\<rparr>) = self n" "self (n\<lparr>nLeaders := ls\<rparr>) = self n" "self (n\<lparr>nLeader := l\<rparr>) = self n"
  "self (n\<lparr>nAttached := as\<rparr>) = self n" "self (n\<lparr>nReported := rp\<rparr>) = self n" "self (n\<lparr>nLocal := lc\<rparr>) = self n"
  "self (n\<lparr>nHint := h\<rparr>) = self n" "self (n\<lparr>nIncarnation := inc\<rparr>) = self n" "self (n\<lparr>nRepl := r\<rparr>) = self n"
  "self (n\<lparr>nHighWater := hw\<rparr>) = self n" "self (n\<lparr>nDegraded := dg\<rparr>) = self n" "self (n\<lparr>nTerm := tm\<rparr>) = self n"
  "self (n\<lparr>nMissed := mi\<rparr>) = self n" "self (n\<lparr>nSuspects := su\<rparr>) = self n" "self (n\<lparr>nJoinID := ji\<rparr>) = self n"
  "self (n\<lparr>nSinceBeat := sb\<rparr>) = self n" "self (n\<lparr>nClaims := cl\<rparr>) = self n" "self (n\<lparr>nBeatSeq := bs\<rparr>) = self n"
  "self (n\<lparr>nProbing := pr\<rparr>) = self n" "self (n\<lparr>nProbeSeq := ps\<rparr>) = self n" "self (n\<lparr>nRejections := rj\<rparr>) = self n"
  "self (n\<lparr>nUnknownLogged := ul\<rparr>) = self n" "self (n\<lparr>nGossipOrder := go\<rparr>) = self n"
  "self (n\<lparr>nGossipNext := gn\<rparr>) = self n" "self (n\<lparr>nGossipSet := gs\<rparr>) = self n"
  "self (n\<lparr>nGossipVersion := gv\<rparr>) = self n" "self (n\<lparr>nDialed := di\<rparr>) = self n"
  "self (n\<lparr>nTunePending := tp\<rparr>) = self n" "self (n\<lparr>nChaosDelay := cd\<rparr>) = self n"
  by (simp_all add: self_def)

lemma take_role_fields [simp]:
  "nTable (take_role e res n) = fst (SetRole (nTable n) (self n) (if self n \<in> set (Leaders res) then RoleLeader else RoleWorker))"
  "nLeaders (take_role e res n) = nLeaders n" "nLeader (take_role e res n) = nLeader n"
  "nAttached (take_role e res n) = nAttached n" "nTerm (take_role e res n) = nTerm n"
  "nHighWater (take_role e res n) = nHighWater n" "nHint (take_role e res n) = nHint n"
  "nReported (take_role e res n) = nReported n" "nJoinID (take_role e res n) = nJoinID n"
  "ledger (nRepl (take_role e res n)) = ledger (nRepl n)" "self (take_role e res n) = self n"
  by (simp_all add: take_role_def Let_def case_prod_beta self_def)

lemma take_leaders_fields [simp]:
  "nTable (take_leaders e res n) = nTable n" "nLeaders (take_leaders e res n) = Leaders res"
  "nLeader (take_leaders e res n) = nLeader n" "nAttached (take_leaders e res n) = nAttached n"
  "nTerm (take_leaders e res n) = (if Leaders res \<noteq> nLeaders n then nTerm n + 1 else nTerm n)"
  "nHighWater (take_leaders e res n) = nHighWater n" "nHint (take_leaders e res n) = nHint n"
  "nReported (take_leaders e res n) = nReported n" "nJoinID (take_leaders e res n) = nJoinID n"
  "ledger (nRepl (take_leaders e res n)) = ledger (nRepl n)" "self (take_leaders e res n) = self n"
  by (simp_all add: take_leaders_def Let_def self_def)

lemma lead_fields [simp]:
  "nTable (lead v n) = nTable n" "nLeaders (lead v n) = nLeaders n" "nLeader (lead v n) = self n"
  "nAttached (lead v n) |\<subseteq>| nAttached n" "nTerm (lead v n) = nTerm n" "nHighWater (lead v n) = nHighWater n"
  "nJoinID (lead v n) = nJoinID n" "nReported (lead v n) = nReported n" "nHint (lead v n) = ''''"
  "ledger (nRepl (lead v n)) = ledger (nRepl n)" "self (lead v n) = self n"
  by (auto simp: lead_def self_def)

lemma join_fields [simp]:
  "nTable (join e l n) = nTable n" "nLeaders (join e l n) = nLeaders n" "nAttached (join e l n) = nAttached n"
  "nTerm (join e l n) = nTerm n" "nHighWater (join e l n) = nHighWater n" "nReported (join e l n) = nReported n"
  "ledger (nRepl (join e l n)) = ledger (nRepl n)" "self (join e l n) = self n" "nHint (join e l n) = nHint n"
  by (simp_all add: join_def Let_def case_prod_beta self_def split: option.split)

lemma adoptOrphans_ledger [simp]: "ledger (nRepl (adoptOrphans n)) = ledger (nRepl n)"
  by (simp add: adoptOrphans_def)

lemma detach_fields [simp]:
  "nTable (detach v us n) = nTable n" "nLeaders (detach v us n) = nLeaders n" "nAttached (detach v us n) = nAttached n"
  "nTerm (detach v us n) = nTerm n" "nHighWater (detach v us n) = nHighWater n" "nHint (detach v us n) = nHint n"
  "nLeader (detach v us n) = (if nLeader n \<noteq> '''' \<and> nLeader n \<notin> set us then '''' else nLeader n)"
  "nReported (detach v us n) = nReported n" "nJoinID (detach v us n) = nJoinID n"
  "ledger (nRepl (detach v us n)) = ledger (nRepl n)" "self (detach v us n) = self n"
  by (simp_all add: detach_def self_def)

lemma join_leader: "nLeader (join e l n) \<in> {'''', l, nLeader n}"
  by (simp add: join_def Let_def case_prod_beta split: option.split)

lemma follow_fields [simp]:
  "nTable (follow e v ldrs n) = nTable n" "nLeaders (follow e v ldrs n) = nLeaders n"
  "nAttached (follow e v ldrs n) = {||}" "nTerm (follow e v ldrs n) = nTerm n"
  "nHighWater (follow e v ldrs n) = nHighWater n" "nReported (follow e v ldrs n) = nReported n"
  "ledger (nRepl (follow e v ldrs n)) = ledger (nRepl n)" "nHint (follow e v ldrs n) = ''''"
  by (simp_all add: follow_def Let_def split: option.split)

lemmas self_follow [simp] = self_no_eval[OF no_eval_follow]

lemma set_usableLeaders: "set (usableLeaders n ldrs) = {i \<in> set ldrs. i |\<notin>| fmdom (nSuspects n)}"
  by (auto simp: usableLeaders_def)


lemma best_usable: "best_of us n = Some b \<Longrightarrow> b \<in> set us"
  by (auto simp: best_of_def ChooseLeader_Some is_best_def eligible_leader_def split: if_splits)

lemma follow_usable: "nLeader (follow e v ldrs n) = '''' \<or>
  nLeader (follow e v ldrs n) \<in> set ldrs \<and> nLeader (follow e v ldrs n) |\<notin>| fmdom (nSuspects n)"
proof -
  let ?us = "usableLeaders (n\<lparr>nAttached := {||}\<rparr>) ldrs"
  let ?n1 = "detach v ?us (n\<lparr>nAttached := {||}\<rparr>)"
  let ?n2 = "?n1\<lparr>nHint := ''''\<rparr>"
  have us: "set ?us = {i \<in> set ldrs. i |\<notin>| fmdom (nSuspects n)}" by (simp add: set_usableLeaders)
  have l2: "nLeader ?n2 = '''' \<or> nLeader ?n2 \<in> set ?us" by simp
  have j: "nLeader (join e b ?n2) = '''' \<or> nLeader (join e b ?n2) \<in> set ?us" if "best_of ?us ?n1 = Some b" for b
    using join_leader[of e b ?n2] l2 best_usable[OF that] by auto
  have "follow e v ldrs n = ?n2 \<or> (\<exists>b. best_of ?us ?n1 = Some b \<and> follow e v ldrs n = join e b ?n2)"
  proof (cases "best_of ?us ?n1")
    case (Some b)
    then have "\<exists>c. follow e v ldrs n = (if c then join e b ?n2 else ?n2)"
      unfolding follow_def Let_def Some option.case by blast
    then show ?thesis using Some by auto
  qed (simp only: follow_def Let_def option.case, simp)
  then show ?thesis using l2 us j by (elim disjE exE conjE) auto
qed

lemma follow_leader: "nLeader (follow e v ldrs n) = '''' \<or> nLeader (follow e v ldrs n) \<in> set ldrs"
  using follow_usable by blast

text \<open>The election and the branch on its result, before the high water mark and the publication.\<close>

definition elected :: "env \<Rightarrow> node \<Rightarrow> node" where
  "elected e n =
     (let view = snapshot n; n1 = n\<lparr>nReported := View_Scores view\<rparr>;
          res = Elect view (nReported n1) (ncElection (nCfg n1));
          n2 = take_leaders e res (take_role e res n1)
      in if contains (Leaders res) (self n2) then lead view n2 else follow e view (Leaders res) n2)"

abbreviation result :: "node \<Rightarrow> ElectResult" where
  "result n \<equiv> Elect (snapshot n) (View_Scores (snapshot n)) (ncElection (nCfg n))"

definition settled :: "env \<Rightarrow> node \<Rightarrow> node" where
  "settled e n = (let size = int (View_Size (snapshot n)) in
     publish ((elected e n)\<lparr>nHighWater := max (nHighWater n) size, nDegraded := Degraded size (max (nHighWater n) size)\<rparr>))"

lemma evaluate_elected:
  "evaluate e n = (if isLeader (settled e n) \<noteq> isLeader n then roleChanged (isLeader (settled e n)) (settled e n)
     else settled e n)"
proof -
  have hw: "nHighWater (elected e n) = nHighWater n" by (simp add: elected_def Let_def)
  have u: "(if nHighWater n3 < s then n3\<lparr>nHighWater := s\<rparr> else n3) = n3\<lparr>nHighWater := max (nHighWater n3) s\<rparr>" for n3 :: node and s
    by simp
  show ?thesis
    unfolding evaluate_def settled_def Let_def elected_def[unfolded Let_def, symmetric] u hw by simp
qed

lemma elected_fields:
  "nTable (elected e n) = fst (SetRole (nTable n) (self n) (if self n \<in> set (Leaders (result n)) then RoleLeader else RoleWorker))"
  "nLeaders (elected e n) = Leaders (result n)"
  "nTerm (elected e n) = (if Leaders (result n) \<noteq> nLeaders n then nTerm n + 1 else nTerm n)"
  "ledger (nRepl (elected e n)) = ledger (nRepl n)"
  "self n \<in> set (Leaders (result n)) \<Longrightarrow> nLeader (elected e n) = self n"
  "self n \<in> set (Leaders (result n)) \<Longrightarrow> nAttached (elected e n) |\<subseteq>| nAttached n"
  "self n \<notin> set (Leaders (result n)) \<Longrightarrow> nLeader (elected e n) = '''' \<or> nLeader (elected e n) \<in> set (Leaders (result n))"
  "self n \<notin> set (Leaders (result n)) \<Longrightarrow> nAttached (elected e n) = {||}"
  using follow_leader lead_fields(4)[of "snapshot n" "take_leaders e (result n) (take_role e (result n) (n\<lparr>nReported := View_Scores (snapshot n)\<rparr>))"]
  by (simp_all add: elected_def Let_def)

lemma no_eval_elected [simp]: "no_eval (elected e n) = no_eval n"
  by (simp add: elected_def Let_def)


section \<open>The invariant\<close>

lemma SetRole_lookup:
  "fmlookup (members t) i = Some m \<Longrightarrow> fmlookup (members (fst (SetRole t i r))) i = Some (m\<lparr>mRole := r, mSeq :=
     (if mRole m = r then mSeq m else mSeq m + 1)\<rparr>)"
  by (cases m) (auto simp: SetRole_def store_def)

lemma elected_ok:
  assumes "node_ok n" shows "node_ok (elected e n)"
proof -
  let ?L = "set (Leaders (result n))" and ?n' = "elected e n"
  note f = no_eval_fields[OF no_eval_elected, of e n]
  have s: "self ?n' = self n" by (rule self_no_eval) simp
  have l: "isLeader ?n' \<longleftrightarrow> self n \<in> ?L" by (simp add: isLeader_def s elected_fields)
  obtain m where m: "own n = Some m" "mState m = StateAlive" "mIncarnation m = nIncarnation n"
    "mAddr m = ncAdvertise (nCfg n)"
    using assms by (auto simp: node_ok_def own_ok_def)
  have ne: "self n \<noteq> ''''" using assms by (simp add: node_ok_def lead_ok_def)
  have "own_ok ?n'"
    using m SetRole_lookup[OF m(1)[unfolded own_def], of "if self n \<in> ?L then RoleLeader else RoleWorker"]
    by (simp add: own_ok_def own_def s l elected_fields f)
  moreover have "lead_ok ?n'"
  proof (cases "self n \<in> ?L")
    case True
    then show ?thesis using elected_fields(5)[of n e] ne by (simp add: lead_ok_def l s)
  next
    case False
    then show ?thesis using elected_fields(7,8)[of n e] ne by (auto simp: lead_ok_def l s)
  qed
  moreover have "hold_ok ?n'" using assms by (simp add: node_ok_def hold_ok_def f elected_fields)
  moreover have "table_wf (nTable ?n')" using node_ok_wf[OF assms] by (simp add: elected_fields table_wf_ops)
  ultimately show ?thesis using node_ok_unsuspected[OF assms] by (simp add: node_ok_def s f)
qed

lemma node_ok_update [simp]:
  "node_ok (n\<lparr>nLocal := lc\<rparr>) = node_ok n" "node_ok (n\<lparr>nMissed := mi\<rparr>) = node_ok n"
  "node_ok (n\<lparr>nHighWater := hw\<rparr>) = node_ok n" "node_ok (n\<lparr>nDegraded := dg\<rparr>) = node_ok n"
  "node_ok (n\<lparr>nReported := rp\<rparr>) = node_ok n" "node_ok (n\<lparr>nTunePending := tp\<rparr>) = node_ok n"
  "node_ok (n\<lparr>nHint := h\<rparr>) = node_ok n" "node_ok (n\<lparr>nJoinID := ji\<rparr>) = node_ok n"
  "node_ok (n\<lparr>nTerm := tm\<rparr>) = node_ok n" "node_ok (n\<lparr>nSinceBeat := sb\<rparr>) = node_ok n"
  "node_ok (n\<lparr>nClaims := cl\<rparr>) = node_ok n" "node_ok (n\<lparr>nBeatSeq := bs\<rparr>) = node_ok n"
  "node_ok (n\<lparr>nProbing := pr\<rparr>) = node_ok n" "node_ok (n\<lparr>nProbeSeq := ps\<rparr>) = node_ok n"
  "node_ok (n\<lparr>nRejections := rj\<rparr>) = node_ok n" "node_ok (n\<lparr>nUnknownLogged := ul\<rparr>) = node_ok n"
  "node_ok (n\<lparr>nGossipOrder := go\<rparr>) = node_ok n" "node_ok (n\<lparr>nGossipNext := gn\<rparr>) = node_ok n"
  "node_ok (n\<lparr>nGossipSet := gs\<rparr>) = node_ok n" "node_ok (n\<lparr>nGossipVersion := gv\<rparr>) = node_ok n"
  "node_ok (n\<lparr>nDialed := di\<rparr>) = node_ok n" "node_ok (n\<lparr>nChaosDelay := cd\<rparr>) = node_ok n"
  "node_ok (n\<lparr>nTombstones := tb\<rparr>) = node_ok n" "node_ok (n\<lparr>nTombVersion := tv\<rparr>) = node_ok n"
  by (simp_all add: node_ok_defs)

lemma roleChanged_ok [simp]: "node_ok (roleChanged b n) = node_ok n"
  by (simp add: roleChanged_def Let_def) (simp add: node_ok_defs)

lemma evaluate_ok: "node_ok n \<Longrightarrow> node_ok (evaluate e n)"
  by (simp add: evaluate_elected settled_def Let_def elected_ok)

lemma retainLive_ok [simp]: "node_ok (retainLive n) = node_ok n"
  by (simp add: retainLive_def pruneLocal_def Let_def)

lemma membershipChanged_ok: "node_ok n \<Longrightarrow> node_ok (membershipChanged e n)"
  by (simp add: membershipChanged_def evaluate_ok)

text \<open>A change of this node's own record that keeps what the invariant says of it.\<close>

lemma node_ok_own:
  assumes "node_ok n" "peer n (self n) = Some m" "table_wf t"
    and "fmlookup (members t) (self n) = Some m'" "mState m' = StateAlive" "mIncarnation m' = inc"
    and "mAddr m' = mAddr m" "mRole m' = mRole m"
  shows "node_ok (n\<lparr>nIncarnation := inc, nTable := t\<rparr>)"
proof -
  let ?n = "n\<lparr>nIncarnation := inc, nTable := t\<rparr>"
  have "isLeader ?n = isLeader n" by (simp add: isLeader_def)
  moreover from this have "lead_ok ?n = lead_ok n" by (simp add: lead_ok_def)
  ultimately show ?thesis
    using assms by (auto simp: node_ok_def own_ok_def own_def hold_ok_def)
qed

lemma SetScore_ok:
  assumes "node_ok n" shows "node_ok (n\<lparr>nTable := fst (SetScore (nTable n) (self n) s)\<rparr>)"
proof -
  obtain m where m: "peer n (self n) = Some m" "mState m = StateAlive" "mIncarnation m = nIncarnation n"
    using assms by (auto simp: node_ok_def own_ok_def own_def)
  have "\<exists>m'. fmlookup (members (fst (SetScore (nTable n) (self n) s))) (self n) = Some m' \<and>
      mState m' = StateAlive \<and> mIncarnation m' = nIncarnation n \<and> mAddr m' = mAddr m \<and> mRole m' = mRole m"
    using m by (simp add: SetScore_def store_def)
  then show ?thesis
    using node_ok_own[OF assms m(1), of "fst (SetScore (nTable n) (self n) s)" _ "nIncarnation n"]
      table_wf_ops(2)[OF node_ok_wf[OF assms]] by auto
qed

lemma updateSelfScore_ok:
  assumes "node_ok n" shows "node_ok (updateSelfScore e n)"
proof -
  have 1: "node_ok (n\<lparr>nLocal := lc\<rparr>)" for lc using assms by simp
  then have "node_ok (n\<lparr>nLocal := lc, nTable := fst (SetScore (nTable n) (self n) s)\<rparr>)" for lc s
    using SetScore_ok[OF 1] by simp
  with 1 show ?thesis by (simp add: updateSelfScore_def Let_def case_prod_beta)
qed

lemma refute_ok:
  assumes "node_ok n" shows "node_ok (refuteIfNeeded e rec n)"
proof (cases "ParseState (rState rec) = StateAlive \<or> rIncarnation rec < nIncarnation n")
  case False
  obtain m where m: "peer n (self n) = Some m" "mState m = StateAlive" "mIncarnation m = nIncarnation n"
    "mAddr m = ncAdvertise (nCfg n)"
    using assms by (auto simp: node_ok_def own_ok_def own_def)
  let ?inc = "NextIncarnation (rIncarnation rec)"
  let ?m = "\<lparr>mID = self n, mAddr = ncAdvertise (nCfg n), mRole = mRole m, mState = StateAlive,
    mIncarnation = ?inc, mScore = mScore m, mSeq = mSeq m\<rparr>"
  have g: "View_Get (snapshot (n\<lparr>nIncarnation := ?inc\<rparr>)) (self n) = Some m"
    using Get_snapshot[of "n\<lparr>nIncarnation := ?inc\<rparr>" "self n"] node_ok_wf[OF assms] m(1) by simp
  have "\<exists>m'. fmlookup (members (fst (Upsert (nTable n) ?m))) (self n) = Some m' \<and> mState m' = StateAlive \<and>
      mIncarnation m' = ?inc \<and> mAddr m' = mAddr m \<and> mRole m' = mRole m"
    using m False by (auto simp: Upsert_def store_def merge_equal_def Let_def NextIncarnation_def split: if_splits)
  then have "node_ok (n\<lparr>nIncarnation := ?inc, nTable := fst (Upsert (nTable n) ?m)\<rparr>)"
    using node_ok_own[OF assms m(1), of "fst (Upsert (nTable n) ?m)" _ ?inc]
      table_wf_ops(1)[OF node_ok_wf[OF assms]] by auto
  then show ?thesis using False by (simp add: refuteIfNeeded_def Let_def g)
qed (simp add: refuteIfNeeded_def assms)

lemma tune_ok:
  assumes "node_ok n" "ncSelf c = ncSelf (nCfg n)" "ncAdvertise c = ncAdvertise (nCfg n)" "ncLedgerSize c = ncLedgerSize (nCfg n)"
  shows "node_ok (n\<lparr>nCfg := c\<rparr>)"
proof -
  have *: "self (n\<lparr>nCfg := c\<rparr>) = self n" "isLeader (n\<lparr>nCfg := c\<rparr>) = isLeader n"
    using assms(2) by (simp_all add: isLeader_def self_def)
  have "own_ok (n\<lparr>nCfg := c\<rparr>) = own_ok n" "lead_ok (n\<lparr>nCfg := c\<rparr>) = lead_ok n" "hold_ok (n\<lparr>nCfg := c\<rparr>) = hold_ok n"
    using assms(3,4) * by (simp_all add: own_ok_def own_def lead_ok_def hold_ok_def)
  then show ?thesis using assms(1) * by (simp add: node_ok_def)
qed

lemma applyTuning_ok: "node_ok n \<Longrightarrow> node_ok (applyTuning e n)"
proof -
  assume a: "node_ok n"
  have 1: "node_ok (n\<lparr>nTunePending := t\<rparr>)" for t using a by simp
  note t = tune_ok[OF 1, simplified]
  show ?thesis
    using a t
    by (simp add: applyTuning_def takeTuning_def Let_def evaluate_ok split: option.split)
qed


section \<open>Properties\<close>

lemma roleChanged_fields [simp]:
  "nTable (roleChanged b n) = nTable n" "nLeaders (roleChanged b n) = nLeaders n" "nLeader (roleChanged b n) = nLeader n"
  "nAttached (roleChanged b n) = nAttached n" "nTerm (roleChanged b n) = nTerm n" "nHighWater (roleChanged b n) = nHighWater n"
  "nDegraded (roleChanged b n) = nDegraded n" "nHint (roleChanged b n) = nHint n" "nJoinID (roleChanged b n) = nJoinID n"
  "nSinceBeat (roleChanged b n) = nSinceBeat n" "nReported (roleChanged b n) = nReported n"
  by (simp_all add: roleChanged_def Let_def)

lemma evaluate_fields:
  "nTable (evaluate e n) = nTable (elected e n)" "nLeaders (evaluate e n) = nLeaders (elected e n)"
  "nLeader (evaluate e n) = nLeader (elected e n)" "nAttached (evaluate e n) = nAttached (elected e n)"
  "nTerm (evaluate e n) = nTerm (elected e n)"
  "nHighWater (evaluate e n) = max (nHighWater n) (int (View_Size (snapshot n)))"
  "nDegraded (evaluate e n) = Degraded (int (View_Size (snapshot n))) (nHighWater (evaluate e n))"
  "self (evaluate e n) = self n" "isLeader (evaluate e n) \<longleftrightarrow> self n \<in> set (Leaders (result n))"
proof -
  show s: "self (evaluate e n) = self n" by (rule self_no_eval) simp
  show l: "nLeaders (evaluate e n) = nLeaders (elected e n)" by (simp add: evaluate_elected settled_def Let_def)
  show "isLeader (evaluate e n) \<longleftrightarrow> self n \<in> set (Leaders (result n))"
    by (simp add: isLeader_def s l elected_fields)
qed (simp_all add: evaluate_elected settled_def Let_def)

lemma elected_leading:
  assumes "table_wf (nTable n)" "self n \<in> set (Leaders (result n))" "w |\<in>| nAttached (elected e n)"
  shows "w |\<in>| nAttached n \<and> (\<exists>m. peer n w = Some m \<and> mState m \<noteq> StateDead \<and> mRole m \<noteq> RoleLeader)"
  using assms(2,3) Get_snapshot[OF assms(1), of w]
  by (auto simp: elected_def Let_def lead_def split: option.splits)

lemma elected_following:
  assumes "self n \<notin> set (Leaders (result n))"
  shows "nLeader (elected e n) = '''' \<or>
    nLeader (elected e n) \<in> set (Leaders (result n)) \<and> nLeader (elected e n) |\<notin>| fmdom (nSuspects n)"
proof -
  let ?n2 = "take_leaders e (result n) (take_role e (result n) (n\<lparr>nReported := View_Scores (snapshot n)\<rparr>))"
  have eq: "elected e n = follow e (snapshot n) (Leaders (result n)) ?n2" using assms by (simp add: elected_def Let_def)
  have "no_eval ?n2 = no_eval n" by simp
  then have "nSuspects ?n2 = nSuspects n" by (rule no_eval_fields)
  then show ?thesis unfolding eq using follow_usable[of e "snapshot n" "Leaders (result n)" ?n2] by simp
qed

text \<open>C18: Every trigger of the loop ends in the same state. After an evaluation the node holds exactly the
  leaders its own view elects and leads exactly when it is one of them; a leader keeps only those of
  its workers that are not dead and do not claim leadership; a worker has no workers, and is attached
  to nobody or to an elected leader it does not doubt; the term moved by one exactly when the leader
  set changed; and the degraded flag compares the living members with the most it ever saw.\<close>

theorem evaluate_outcome:
  assumes "node_ok n" and "res = Elect (snapshot n) (View_Scores (snapshot n)) (ncElection (nCfg n))"
    and "n' = evaluate e n"
  shows "nLeaders n' = Leaders res \<and> (isLeader n' \<longleftrightarrow> self n \<in> set (Leaders res)) \<and>
    (if isLeader n' then nLeader n' = self n \<and> (\<forall>w. w |\<in>| nAttached n' \<longrightarrow> w |\<in>| nAttached n \<and>
        (\<exists>m. peer n w = Some m \<and> mState m \<noteq> StateDead \<and> mRole m \<noteq> RoleLeader))
     else nAttached n' = {||} \<and> (nLeader n' = '''' \<or>
        nLeader n' \<in> set (Leaders res) \<and> nLeader n' |\<notin>| fmdom (nSuspects n))) \<and>
    nTerm n' = (if Leaders res = nLeaders n then nTerm n else nTerm n + 1) \<and>
    nHighWater n' = max (nHighWater n) (int (View_Size (snapshot n))) \<and>
    nDegraded n' = Degraded (int (View_Size (snapshot n))) (nHighWater n')"
proof (cases "self n \<in> set (Leaders res)")
  case True
  then show ?thesis
    using elected_leading[OF node_ok_wf[OF assms(1)], of _ e]
    unfolding assms(2,3) by (simp add: evaluate_fields elected_fields)
next
  case False
  then show ?thesis
    using elected_following[of n e] unfolding assms(2,3) by (simp add: evaluate_fields elected_fields)
qed

theorem evaluate_outcome_witness:
  "nLeaders (evaluate ex_envr ex_node) = Leaders (Elect (snapshot ex_node) (View_Scores (snapshot ex_node)) (ncElection (nCfg ex_node))) \<and>
   nHighWater (evaluate ex_envr ex_node) = max (nHighWater ex_node) (int (View_Size (snapshot ex_node)))"
  using evaluate_outcome[OF ex_node_ok refl refl, of ex_envr] by blast

lemma enc_delta_Some: "\<exists>j. enc_MembershipDelta p = Some j"
proof -
  have "\<exists>j. enc_MemberRecord r = Some j" for r
    by (cases "rScore r") (simp_all add: enc_MemberRecord_def sanitised_score_def UnmeasuredScore_def enc_f64_def)
  then have "\<exists>js. opt_all enc_MemberRecord rs = Some js" for rs
  proof (induction rs)
    case (Cons r rs)
    then obtain j js where "enc_MemberRecord r = Some j" "opt_all enc_MemberRecord rs = Some js" by blast
    then show ?case by simp
  qed simp
  then obtain js where "opt_all enc_MemberRecord (dMembers p) = Some js" by blast
  then show ?thesis by (simp add: enc_MembershipDelta_def)
qed




text \<open>The self-reported score never flatters a blind node. A node with no peer entry reports 0 and a node
  that has entries but no valid measurement reports that it cannot be measured, which makes it
  ineligible; otherwise the report is a score it measured itself, or the mean of two of them; and
  what it last reported about itself plays no part.\<close>

theorem self_score_honest:
  "selfScore n = selfScore (n\<lparr>nLocal := fmupd (self n) s (nLocal n)\<rparr>) \<and>
   (if peer_scores n = [] then selfScore n = Fin 0
    else if filter IsValidScore (peer_scores n) = [] then \<not> IsValidScore (selfScore n)
    else \<exists>x y. Fin x \<in> set (peer_scores n) \<and> Fin y \<in> set (peer_scores n) \<and> x \<le> y \<and>
      (selfScore n = Fin x \<or> selfScore n = (Fin x + Fin y) / Fin 2))"
proof (intro conjI)
  have "filter (\<lambda>i. i \<noteq> self n) (fm_keys (fmupd (self n) s (nLocal n))) = filter (\<lambda>i. i \<noteq> self n) (fm_keys (nLocal n))"
    by (rule sorted_distinct_set_unique) (auto simp: sorted_filter[of id, simplified])
  then have "peer_scores (n\<lparr>nLocal := fmupd (self n) s (nLocal n)\<rparr>) = peer_scores n"
    by (simp add: peer_scores_def)
  then show "selfScore n = selfScore (n\<lparr>nLocal := fmupd (self n) s (nLocal n)\<rparr>)" by (simp add: selfScore_def)
  let ?v = "finite_scores (filter IsValidScore (peer_scores n))"
  have v: "x \<in> set ?v \<longleftrightarrow> Fin x \<in> set (peer_scores n)" for x
    by (fastforce simp: finite_scores_def IsValidScore_def split: f64.splits)
  have ne: "?v = [] \<longleftrightarrow> (\<forall>s\<in>set (peer_scores n). \<not> IsValidScore s)"
  proof
    assume "?v = []"
    then have "Fin x \<notin> set (peer_scores n)" for x using v by auto
    then show "\<forall>s\<in>set (peer_scores n). \<not> IsValidScore s" by (auto simp: IsValidScore_def split: f64.splits)
  qed (simp add: finite_scores_def)
  have "\<exists>x y. x \<in> set vs \<and> y \<in> set vs \<and> x \<le> y \<and> (median (sort vs) = Fin x \<or> median (sort vs) = (Fin x + Fin y) / Fin 2)"
    if "vs \<noteq> []" for vs :: "rat list"
  proof -
    let ?s = "sort vs" and ?mid = "length vs div 2"
    have l: "0 < length vs" "?mid < length ?s" using that by (simp_all add: div_less_dividend)
    have m: "?s ! ?mid \<in> set vs" using nth_mem[OF l(2)] by simp
    have m1: "?s ! (?mid - 1) \<in> set vs" using nth_mem[of "?mid - 1" ?s] l(2) by simp
    have "?s ! (?mid - 1) \<le> ?s ! ?mid" using sorted_nth_mono[OF sorted_sort, of "?mid - 1" ?mid vs] l(2) by simp
    then show ?thesis
      using m m1
      by (cases "length vs mod 2 = 1") (auto simp: median_def Let_def intro: exI[of _ "?s ! ?mid"])
  qed
  from this[of ?v] show "if peer_scores n = [] then selfScore n = Fin 0
    else if filter IsValidScore (peer_scores n) = [] then \<not> IsValidScore (selfScore n)
    else \<exists>x y. Fin x \<in> set (peer_scores n) \<and> Fin y \<in> set (peer_scores n) \<and> x \<le> y \<and>
      (selfScore n = Fin x \<or> selfScore n = (Fin x + Fin y) / Fin 2)"
    using v ne[folded filter_empty_conv] by (auto simp: selfScore_def Let_def)
qed


text \<open>A runtime override is applied exactly and only when it is legal: a threshold in (0, 1] and a finite
  margin of at least 0 (an explicit 0 means no damping, not the default) become the values the
  election and the re-homing use, once; anything else sent leaves the pending override as it was.\<close>

theorem tuning_takes_effect:
  assumes "Fin 0 < th" "th \<le> Fin 1" "Fin 0 \<le> h" "h \<noteq> Inf False"
    and "\<not> (Fin 0 < th' \<and> th' \<le> Fin 1)" "\<not> (Fin 0 \<le> h' \<and> h' \<noteq> Inf False)"
    and "n' = applyTuning e (SetElectionParams th' h' (SetElectionParams th h n))"
  shows "Threshold (ncElection (nCfg n')) = th \<and> Hysteresis (ncElection (nCfg n')) = h \<and>
    ncRehome (nCfg n') = h \<and> effectiveThreshold n' = th \<and>
    tuThreshold (nTunePending n') = None \<and> tuHysteresis (nTunePending n') = None"
proof -
  let ?t = "\<lparr>tuThreshold = Some th, tuHysteresis = Some h\<rparr>"
  have nan: "th \<noteq> NaN" "h \<noteq> NaN" using assms(1,3) by auto
  have p: "SetElectionParams th' h' (SetElectionParams th h n) = n\<lparr>nTunePending := ?t\<rparr>"
    by (cases "nTunePending n") (simp add: SetElectionParams_def Let_def assms(1-6))
  have *: "Threshold (ncElection (nCfg n')) = th \<and> Hysteresis (ncElection (nCfg n')) = h \<and>
    ncRehome (nCfg n') = h \<and> nTunePending n' = \<lparr>tuThreshold = None, tuHysteresis = None\<rparr>"
    unfolding assms(7) p
    by (cases "th = Threshold (ncElection (nCfg n))"; cases "h = Hysteresis (ncElection (nCfg n))";
        cases "h = ncRehome (nCfg n)")
      (use nan in \<open>simp_all add: applyTuning_def takeTuning_def Let_def feq_def\<close>)
  have "\<not> (th \<le> Fin 0)" "\<not> (Fin 1 < th)" using assms(1,2) by (cases th; auto)+
  then show ?thesis by (simp add: * effectiveThreshold_def Config_withDefaults_def)
qed

theorem tuning_takes_effect_witness:
  "effectiveThreshold (applyTuning ex_envr (SetElectionParams NaN (Inf False) (SetElectionParams (Fin (1/2)) (Fin 0) ex_node))) = Fin (1/2)"
  using tuning_takes_effect[OF _ _ _ _ _ _ refl, of "Fin (1/2)" "Fin 0" NaN "Inf False" ex_envr ex_node] by simp

end
