(* ===== verification/Handlers.thy ===== *)
theory Handlers
  imports NodeCore
begin

text \<open>
  What the node loop does with what reaches it, \<open>pkg/cluster/node.go\<close> and \<open>heartbeat.go\<close>: transport
  events, inbound frames, the failure-detector tick, gossip rounds and probe rounds. A frame is the
  peer it came from (authenticated by the handshake) and its envelope. The goroutines a handler
  starts are effects in the trace, and what they bring back is an event of the loop (NodeLoop).
\<close>

section \<open>Transport events\<close>

record PeerInfo =
  pID :: NodeID
  pAdvertise :: NodeAddress
  pIncarnation :: int
  pKnownPeers :: "NodeAddress list"

datatype Disposition = DispositionOther | DispositionCleanClose | DispositionPeerDied
  | DispositionTimeout | DispositionProtocolViolation

datatype PeerEvent = PeerUp PeerInfo | PeerDown PeerInfo Disposition

definition event_peer :: "PeerEvent \<Rightarrow> PeerInfo" where
  "event_peer ev = (case ev of PeerUp p \<Rightarrow> p | PeerDown p d \<Rightarrow> p)"

definition peerUp :: "env \<Rightarrow> PeerInfo \<Rightarrow> node \<Rightarrow> node \<times> bool" where
  "peerUp e p n =
     (let (role, score) = (case View_Get (snapshot n) (pID p) of
            None \<Rightarrow> (RoleWorker, ScoreUnavailable) | Some m \<Rightarrow> (mRole m, mScore m));
          (t, c1) = Upsert (nTable n) \<lparr>mID = pID p, mAddr = pAdvertise p, mRole = role,
            mState = StateAlive, mIncarnation = pIncarnation p, mScore = score, mSeq = 0\<rparr>;
          n1 = n\<lparr>nTable := t, nDialed := finsert (pAdvertise p) (nDialed n)\<rparr>;
          n2 = foldl (\<lambda>n addr. connect addr n) n1 (pKnownPeers p);
          (t', c2) = Revive (nTable n2) (pID p) (pIncarnation p);
          n3 = n2\<lparr>nTable := t', nSuspects := fmdrop (pID p) (nSuspects n2)\<rparr>
      in (sendView e (pID p) (snapshot n3) n3, c1 \<or> c2))"

definition peerDown :: "env \<Rightarrow> NodeID \<Rightarrow> Disposition \<Rightarrow> node \<Rightarrow> node \<times> bool" where
  "peerDown e i d n =
     (let n1 = n\<lparr>nAttached := nAttached n |-| {|i|}\<rparr> in
      if d = DispositionCleanClose then markLeft e i n1
      else if d = DispositionProtocolViolation then markDead e i n1
      else markSuspect e i n1)"

definition handlePeerEvent :: "env \<Rightarrow> PeerEvent \<Rightarrow> node \<Rightarrow> node" where
  "handlePeerEvent e ev n =
     (let i = pID (event_peer ev) in
      if i = '''' \<or> i = self n then n
      else let (n1, changed) = (case ev of PeerUp p \<Rightarrow> peerUp e p n | PeerDown p d \<Rightarrow> peerDown e i d n)
           in if changed then membershipChanged e n1 else n1)"

section \<open>Membership deltas\<close>

text \<open>\<open>slices.BinarySearchFunc\<close> over a snapshot, which is sorted by ID, finds the record with the ID.\<close>

definition delta_role :: "NodeID \<Rightarrow> View \<Rightarrow> MemberRecord \<Rightarrow> Role" where
  "delta_role from before rec =
     (if rSeq rec = 0 \<and> rID rec \<noteq> from
      then (case View_Get before (rID rec) of None \<Rightarrow> RoleWorker | Some m \<Rightarrow> mRole m)
      else ParseRole (rRole rec))"

definition delta_member :: "NodeID \<Rightarrow> View \<Rightarrow> MemberRecord \<Rightarrow> Member" where
  "delta_member from before rec =
     \<lparr>mID = rID rec, mAddr = rAdvertise rec, mRole = delta_role from before rec,
      mState = ParseState (rState rec), mIncarnation = rIncarnation rec,
      mScore = (if Measured rec then rScore rec else ScoreUnavailable), mSeq = rSeq rec\<rparr>"

definition delta_step :: "env \<Rightarrow> NodeID \<Rightarrow> View \<Rightarrow> node \<times> bool \<Rightarrow> MemberRecord \<Rightarrow> node \<times> bool" where
  "delta_step e from before nc rec =
     (let (n, changed) = nc in
      if rID rec = '''' then (n, changed)
      else if rID rec = self n then (refuteIfNeeded e rec n, changed)
      else if View_Get before (rID rec) = None \<and> ParseState (rState rec) = StateDead then (n, changed)
      else let n1 = (if ParseState (rState rec) = StateAlive then connect (rAdvertise rec) n else n);
               (t, c) = Upsert (nTable n1) (delta_member from before rec)
           in (n1\<lparr>nTable := t\<rparr>, changed \<or> c))"

definition voidAttachmentIfLeaderStepped :: "View \<Rightarrow> node \<Rightarrow> node" where
  "voidAttachmentIfLeaderStepped before n =
     (if nLeader n = '''' \<or> nLeader n = self n then n
      else case View_Get before (nLeader n) of
        None \<Rightarrow> n
      | Some b \<Rightarrow>
          if mRole b \<noteq> RoleLeader then n
          else case View_Get (snapshot n) (nLeader n) of
            None \<Rightarrow> n
          | Some m \<Rightarrow> if mRole m \<noteq> RoleLeader then n\<lparr>nLeader := ''''\<rparr> else n)"

definition handleMembershipDelta :: "env \<Rightarrow> NodeID \<Rightarrow> MembershipDeltaPayload \<Rightarrow> node \<Rightarrow> node" where
  "handleMembershipDelta e from p n =
     (let before = snapshot n;
          (n1, changed) = foldl (delta_step e from before) (n, False) (dMembers p)
      in if changed then membershipChanged e (voidAttachmentIfLeaderStepped before n1) else n1)"

section \<open>Joining\<close>

definition handleJoinCluster :: "env \<Rightarrow> NodeID \<Rightarrow> Envelope \<Rightarrow> JoinClusterPayload \<Rightarrow> node \<Rightarrow> node" where
  "handleJoinCluster e from x p n =
     (let worker = (if jcWorker p = '''' then from else jcWorker p);
          (n1, ack) = (if isLeader n
             then (n\<lparr>nAttached := finsert worker (nAttached n)\<rparr>,
                   \<lparr>jaAccepted = True, jaReason = '''', jaLeader = self n\<rparr>)
             else (n, \<lparr>jaAccepted = False, jaReason = ''not a leader'', jaLeader = nLeader n\<rparr>));
          n2 = (case newReply e n1 x TypeJoinAck (Some (enc_JoinAck ack)) of
                  None \<Rightarrow> n1 | Some reply \<Rightarrow> fst (Send e from reply n1))
      in publish n2)"

definition handleJoinAck :: "env \<Rightarrow> NodeID \<Rightarrow> string \<Rightarrow> JoinAckPayload \<Rightarrow> node \<Rightarrow> node" where
  "handleJoinAck e from i p n =
     (if i = '''' \<or> i \<noteq> nJoinID n \<or> nLeader n \<noteq> from then n
      else let n1 = n\<lparr>nJoinID := ''''\<rparr> in
        if jaAccepted p
        then let ldr = (if jaLeader p = '''' then from else jaLeader p) in
          if ldr \<noteq> from then evaluate e (n1\<lparr>nLeader := ''''\<rparr>)
          else publish (handOff e (n1\<lparr>nHint := '''', nRepl := (nRepl n1)\<lparr>rHeld := False\<rparr>\<rparr>))
        else evaluate e (n1\<lparr>nLeader := '''', nHint := jaLeader p, nRejections := nRejections n1 + 1\<rparr>))"


section \<open>Heartbeats\<close>

definition beat_one :: "env \<Rightarrow> int \<Rightarrow> node \<Rightarrow> NodeID \<Rightarrow> node" where
  "beat_one e cnt n w =
     (let n1 = n\<lparr>nBeatSeq := fmupd w (fm_get 0 (nBeatSeq n) w + 1) (nBeatSeq n)\<rparr>
      in fst (sendTo e TypeHeartbeat w (Some (enc_Heartbeat
           \<lparr>hbSeq = fm_get 0 (nBeatSeq n1) w, hbTerm = nTerm n1, hbLeaderID = self n1, hbClusterSize = cnt\<rparr>)) n1))"

definition beat :: "env \<Rightarrow> node \<Rightarrow> node" where
  "beat e n =
     (let workers = attachedIDs n;
          n1 = n\<lparr>nBeatSeq := fmfilter (\<lambda>i. i |\<in>| nAttached n) (nBeatSeq n)\<rparr>
      in foldl (beat_one e (int (length workers))) n1 workers)"

definition checkLeaderSilence :: "env \<Rightarrow> node \<Rightarrow> node" where
  "checkLeaderSilence e n =
     (let n1 = n\<lparr>nSinceBeat := nSinceBeat n + 1\<rparr> in
      if nSinceBeat n1 < ncHeartbeatMisses (nCfg n1) then n1
      else let ldr = nLeader n1;
               n2 = adoptOrphans (n1\<lparr>nSinceBeat := 0\<rparr>);
               n3 = fst (markSilent e ldr n2)
           in membershipChanged e (n3\<lparr>nLeader := ''''\<rparr>))"

definition sendDelayed :: "env \<Rightarrow> NodeID \<Rightarrow> Envelope \<Rightarrow> node \<Rightarrow> node" where
  "sendDelayed e to x n =
     (if nChaosDelay n \<le> 0 then fst (Send e to x n) else emit (Delayed to x (nChaosDelay n)) n)"

definition beatResumed :: "env \<Rightarrow> NodeID \<Rightarrow> node \<Rightarrow> node" where
  "beatResumed e from n =
     (case fmlookup (nSuspects n) from of
        None \<Rightarrow> n
      | Some s \<Rightarrow>
          if \<not> sSilent s then n
          else let n1 = n\<lparr>nSuspects := fmdrop from (nSuspects n)\<rparr>;
                   (t, changed) = Revive (nTable n1) from (sIncarnation s);
                   n2 = n1\<lparr>nTable := t\<rparr>
               in if changed then membershipChanged e n2 else n2)"

definition handleHeartbeat :: "env \<Rightarrow> NodeID \<Rightarrow> Envelope \<Rightarrow> HeartbeatPayload \<Rightarrow> node \<Rightarrow> node" where
  "handleHeartbeat e from x p n =
     (let current = \<not> hbTerm p < nTerm n;
          n1 = (if nTerm n < hbTerm p then publish (n\<lparr>nTerm := hbTerm p\<rparr>) else n);
          n2 = (if current
                then beatResumed e from
                       (if from = nLeader n1 \<and> \<not> isLeader n1 then n1\<lparr>nSinceBeat := 0\<rparr> else n1)
                else n1)
      in case newReply e n2 x TypeHeartbeatAck (Some (enc_HeartbeatAck
               \<lparr>haSeq = hbSeq p, haTerm = nTerm n2, haObservedLeader = nLeader n2\<rparr>)) of
           None \<Rightarrow> n2 | Some ack \<Rightarrow> sendDelayed e from ack n2)"

definition handleHeartbeatAck :: "NodeID \<Rightarrow> HeartbeatAckPayload \<Rightarrow> node \<Rightarrow> node" where
  "handleHeartbeatAck from p n =
     (let (n1, c1) = (if nTerm n < haTerm p then (n\<lparr>nTerm := haTerm p\<rparr>, True) else (n, False));
          (n2, c2) =
            (if haObservedLeader p \<noteq> self n1 \<and> from |\<in>| nAttached n1
             then (n1\<lparr>nAttached := nAttached n1 |-| {|from|}\<rparr>, True)
             else if haObservedLeader p = self n1 \<and> from |\<notin>| nAttached n1 \<and> isLeader n1 \<and>
               (case View_Get (snapshot n1) from of None \<Rightarrow> False
                | Some m \<Rightarrow> mState m \<noteq> StateDead \<and> mRole m \<noteq> RoleLeader)
             then (n1\<lparr>nAttached := finsert from (nAttached n1)\<rparr>, True)
             else (n1, c1))
      in if c2 then publish n2 else n2)"

definition controlTick :: "env \<Rightarrow> node \<Rightarrow> node" where
  "controlTick e n =
     (let now = Now e n;
          (n1, c1) = expireSuspicions e now n;
          n2 = (if c1 then membershipChanged e n1 else n1);
          (n3, c2) = sweepTombstones now n2;
          n4 = (if c2 then publish n3 else n3)
      in if isLeader n4 then reissueIfDue e (beat e n4)
         else if nLeader n4 \<noteq> '''' then checkLeaderSilence e n4
         else n4)"

section \<open>Gossip\<close>

definition gossip_peers :: "View \<Rightarrow> node \<Rightarrow> NodeID list" where
  "gossip_peers view n =
     map mID (filter (\<lambda>m. mState m \<noteq> StateDead \<and> mID m \<noteq> self n) (Members view))"

definition sameGossipSet :: "View \<Rightarrow> node \<Rightarrow> bool" where
  "sameGossipSet view n =
     (let ids = gossip_peers view n in
      list_all (\<lambda>i. i |\<in>| nGossipSet n) ids \<and> length ids = fcard (nGossipSet n))"

definition gossip_ready :: "env \<Rightarrow> View \<Rightarrow> node \<Rightarrow> node" where
  "gossip_ready e view n =
     (let n1 = (if vVersion view \<noteq> nGossipVersion n
                then let n0 = n\<lparr>nGossipVersion := vVersion view\<rparr>
                     in if \<not> sameGossipSet view n0 then n0\<lparr>nGossipNext := length (nGossipOrder n0)\<rparr> else n0
                else n)
      in if length (nGossipOrder n1) \<le> nGossipNext n1
         then n1\<lparr>nGossipOrder := envShuffle e (length (nTrace n1)) (gossip_peers view n1),
                 nGossipSet := fset_of_list (gossip_peers view n1), nGossipNext := 0\<rparr>
         else n1)"

definition gossipRound :: "env \<Rightarrow> node \<Rightarrow> node" where
  "gossipRound e n =
     (let view = snapshot n; n2 = gossip_ready e view n
      in if nGossipOrder n2 = [] then n2
         else sendView e (nGossipOrder n2 ! nGossipNext n2) view (n2\<lparr>nGossipNext := nGossipNext n2 + 1\<rparr>))"

section \<open>Probing\<close>

type_synonym probeResult = "f64 \<times> probe_err option"

definition startProbeRound :: "node \<Rightarrow> node" where
  "startProbeRound n =
     (if nProbing n then n
      else let targets = map (\<lambda>m. (mID m, mAddr m))
                 (filter (\<lambda>m. mState m \<noteq> StateDead \<and> mID m \<noteq> self n \<and> mAddr m \<noteq> '''') (Members (snapshot n)));
               n1 = n\<lparr>nProbing := True, nProbeSeq := nProbeSeq n + 1\<rparr>
           in emit (ProbeStarted (nProbeSeq n1) targets) n1)"

definition apply_result ::
  "env \<Rightarrow> uint64 \<Rightarrow> View \<Rightarrow> (NodeID, probeResult) fmap \<Rightarrow> node \<times> bool \<Rightarrow> NodeID \<Rightarrow> node \<times> bool" where
  "apply_result e seq view results nc i =
     (let (n, changed) = nc; (score, err) = fm_get (Fin 0, None) results i in
      case View_Get view i of
        None \<Rightarrow> (n, changed)
      | Some m \<Rightarrow>
          if mState m = StateDead then (n, changed)
          else if IsCancellation err then (n, changed)
          else if err \<noteq> None
          then let n1 = n\<lparr>nLocal := fmupd i ScoreUnavailable (nLocal n),
                          nMissed := fmupd i (fm_get 0 (nMissed n) i + 1) (nMissed n)\<rparr>;
                   (n2, c) = probeMissed e i n1
               in (n2, changed \<or> c)
          else let n1 = n\<lparr>nLocal := fmupd i score (nLocal n), nMissed := fmupd i 0 (nMissed n)\<rparr> in
            if mState m = StateSuspect
            then let (n2, c) = probeClears i seq (mIncarnation m) n1 in (n2, changed \<or> c)
            else (n1, changed))"

definition applyProbeRound :: "env \<Rightarrow> uint64 \<Rightarrow> (NodeID, probeResult) fmap \<Rightarrow> node \<Rightarrow> node" where
  "applyProbeRound e seq results n =
     (let n1 = n\<lparr>nProbing := False, nRejections := 0\<rparr>;
          (n2, changed) = foldl (apply_result e seq (snapshot n1) results) (n1, False) (fm_keys results);
          n3 = (if changed then retainLive n2 else n2)
      in updateSelfScore e n3)"

section \<open>Frames\<close>

definition payloadOrPoison ::
  "env \<Rightarrow> (json \<Rightarrow> 'a option) \<Rightarrow> NodeID \<Rightarrow> Envelope \<Rightarrow> node \<Rightarrow> node \<times> 'a option" where
  "payloadOrPoison e dec from x n =
     (case PayloadOf dec x of
        Some p \<Rightarrow> (n, Some p)
      | None \<Rightarrow> let (n1, changed) = markDead e from n
                in (if changed then membershipChanged e n1 else n1, None))"

definition with_payload ::
  "env \<Rightarrow> (json \<Rightarrow> 'a option) \<Rightarrow> NodeID \<Rightarrow> Envelope \<Rightarrow> ('a \<Rightarrow> node \<Rightarrow> node) \<Rightarrow> node \<Rightarrow> node" where
  "with_payload e dec from x h n =
     (case payloadOrPoison e dec from x n of (n1, None) \<Rightarrow> n1 | (n1, Some p) \<Rightarrow> h p n1)"

definition handleFrame :: "env \<Rightarrow> NodeID \<Rightarrow> Envelope \<Rightarrow> node \<Rightarrow> node" where
  "handleFrame e from x n =
     (let t = eType x in
      if t = TypeMembershipDelta then with_payload e dec_MembershipDelta from x (handleMembershipDelta e from) n
      else if t = TypeElectionResult
        then with_payload e dec_ElectionResult from x (\<lambda>p n. publish (n\<lparr>nClaims := fmupd from p (nClaims n)\<rparr>)) n
      else if t = TypeJoinCluster then with_payload e dec_JoinCluster from x (handleJoinCluster e from x) n
      else if t = TypeJoinAck then with_payload e dec_JoinAck from x (handleJoinAck e from (eID x)) n
      else if t = TypeLeave
        then (let (n1, changed) = markLeft e from n in if changed then membershipChanged e n1 else n1)
      else if t = TypeHeartbeat then with_payload e dec_Heartbeat from x (handleHeartbeat e from x) n
      else if t = TypeHeartbeatAck then with_payload e dec_HeartbeatAck from x (handleHeartbeatAck from) n
      else if t = TypeStateSync then with_payload e dec_StateSync from x (handleStateSync from) n
      else if t = TypeTask then with_payload e dec_Task from x (handleTask e from) n
      else if t = TypeTaskResult then with_payload e dec_TaskResult from x (handleTaskResult from) n
      else n\<lparr>nUnknownLogged := finsert t (nUnknownLogged n)\<rparr>)"


section \<open>The invariant\<close>

lemma isLeader_update [simp]:
  "isLeader (n\<lparr>nTable := t\<rparr>) = isLeader n" "isLeader (n\<lparr>nLeader := l\<rparr>) = isLeader n"
  "isLeader (n\<lparr>nAttached := as\<rparr>) = isLeader n" "isLeader (n\<lparr>nSuspects := su\<rparr>) = isLeader n"
  "isLeader (n\<lparr>nTerm := tm\<rparr>) = isLeader n" "isLeader (n\<lparr>nSinceBeat := sb\<rparr>) = isLeader n"
  "isLeader (n\<lparr>nJoinID := ji\<rparr>) = isLeader n" "isLeader (n\<lparr>nHint := h\<rparr>) = isLeader n"
  "isLeader (n\<lparr>nRejections := rj\<rparr>) = isLeader n" "isLeader (n\<lparr>nRepl := r\<rparr>) = isLeader n"
  "isLeader (n\<lparr>nBeatSeq := bs\<rparr>) = isLeader n" "isLeader (n\<lparr>nClaims := cl\<rparr>) = isLeader n"
  by (simp_all add: isLeader_def)

lemma node_ok_leader: "node_ok n \<Longrightarrow> \<not> isLeader n \<Longrightarrow> l \<noteq> self n \<Longrightarrow> node_ok (n\<lparr>nLeader := l\<rparr>)"
  by (simp add: node_ok_def own_ok_def own_def lead_ok_def hold_ok_def)

lemma node_ok_attach: "node_ok n \<Longrightarrow> isLeader n \<Longrightarrow> node_ok (n\<lparr>nAttached := as\<rparr>)"
  by (simp add: node_ok_def own_ok_def own_def lead_ok_def hold_ok_def)

lemma node_ok_shrink: "node_ok n \<Longrightarrow> as |\<subseteq>| nAttached n \<Longrightarrow> node_ok (n\<lparr>nAttached := as\<rparr>)"
  by (rule node_ok_peers[where n = n]) (auto simp: node_ok_wf node_ok_unsuspected)

lemma node_ok_table:
  "node_ok n \<Longrightarrow> table_wf t \<Longrightarrow> fmlookup (members t) (self n) = peer n (self n) \<Longrightarrow> node_ok (n\<lparr>nTable := t\<rparr>)"
  by (rule node_ok_peers[where n = n]) (simp_all add: node_ok_unsuspected)

lemma node_ok_unsuspect: "node_ok n \<Longrightarrow> node_ok (n\<lparr>nSuspects := fmdrop i (nSuspects n)\<rparr>)"
  by (rule node_ok_peers[where n = n]) (simp_all add: node_ok_wf node_ok_unsuspected)

lemma node_ok_lead: "node_ok n \<Longrightarrow> isLeader n \<longleftrightarrow> nLeader n = self n"
  by (simp add: node_ok_def lead_ok_def)

lemma core_connects [simp]: "core (foldl (\<lambda>n addr. connect addr n) n as) = core n"
  by (induction as arbitrary: n) simp_all

lemmas connects_frame [simp] = core_fields[OF core_connects]
lemmas connects_derived [simp] = derived_core[OF core_connects]
lemmas connects_ok [simp] = node_ok_core[OF core_connects]

lemma peerUp_ok:
  assumes "node_ok n" "pID p \<noteq> self n" shows "node_ok (fst (peerUp e p n))"
proof -
  have "node_ok (n\<lparr>nTable := fst (Upsert (nTable n) m)\<rparr>)" if "mID m = pID p" for m
    using assms that by (intro node_ok_table) (simp_all add: table_wf_ops table_ops_frame node_ok_wf)
  then have u: "node_ok (foldl (\<lambda>n addr. connect addr n) (n\<lparr>nTable := fst (Upsert (nTable n) m), nDialed := d\<rparr>) ks)"
    if "mID m = pID p" for m d ks using that by simp
  have "node_ok (n2\<lparr>nTable := fst (Revive (nTable n2) (pID p) inc), nSuspects := fmdrop (pID p) (nSuspects n2)\<rparr>)"
    if "node_ok n2" "self n2 = self n" for n2 inc
    using that assms(2) node_ok_unsuspect[OF node_ok_table[OF that(1)], of "fst (Revive (nTable n2) (pID p) inc)" "pID p"]
    by (simp add: table_wf_ops table_ops_frame node_ok_wf)
  note r = this[OF u]
  show ?thesis
    by (simp add: peerUp_def Let_def case_prod_beta del: connects_ok connects_frame) (rule r; simp)
qed

lemma handlePeerEvent_ok:
  assumes "node_ok n" shows "node_ok (handlePeerEvent e ev n)"
proof (cases "pID (event_peer ev) = '''' \<or> pID (event_peer ev) = self n")
  case False
  have "node_ok (n\<lparr>nAttached := nAttached n |-| {|i|}\<rparr>)" for i by (rule node_ok_shrink[OF assms]) auto
  then have "node_ok (fst (peerDown e i d n))" if "i \<noteq> self n" for i d
    using that by (simp add: peerDown_def Let_def markLeft_markDead markDead_ok markSuspect_def suspect_ok)
  then have "node_ok (fst (case ev of PeerUp p \<Rightarrow> peerUp e p n | PeerDown p d \<Rightarrow> peerDown e (pID (event_peer ev)) d n))"
    using False peerUp_ok[OF assms] by (cases ev) (simp_all add: event_peer_def)
  then show ?thesis using False by (simp add: handlePeerEvent_def Let_def case_prod_beta membershipChanged_ok)
qed (auto simp: handlePeerEvent_def assms)

lemma delta_step_ok: "node_ok (fst nc) \<Longrightarrow> node_ok (fst (delta_step e from v nc rec))"
proof -
  obtain n c where nc: "nc = (n, c)" by fastforce
  assume "node_ok (fst nc)"
  then have ok: "node_ok n" by (simp add: nc)
  have "node_ok (n1\<lparr>nTable := fst (Upsert (nTable n1) (delta_member from v rec))\<rparr>)"
    if "rID rec \<noteq> self n" "node_ok n1" "self n1 = self n" for n1
    using that by (intro node_ok_table) (simp_all add: table_wf_ops table_ops_frame node_ok_wf delta_member_def)
  then show ?thesis
    using ok by (simp add: nc delta_step_def Let_def case_prod_beta refute_ok)
qed

lemma delta_steps_ok: "node_ok (fst nc) \<Longrightarrow> node_ok (fst (foldl (delta_step e from v) nc rs))"
  by (induction rs arbitrary: nc) (simp_all add: delta_step_ok)

lemma void_ok: "node_ok n \<Longrightarrow> node_ok (voidAttachmentIfLeaderStepped v n)"
proof -
  assume ok: "node_ok n"
  have "self n \<noteq> ''''" using ok by (simp add: node_ok_def lead_ok_def)
  then show ?thesis
    using ok node_ok_leader[OF ok, of "''''"] node_ok_lead[OF ok]
    by (auto simp: voidAttachmentIfLeaderStepped_def split: option.split)
qed

lemma handleMembershipDelta_ok: "node_ok n \<Longrightarrow> node_ok (handleMembershipDelta e from p n)"
  using delta_steps_ok[of "(n, False)"]
  by (simp add: handleMembershipDelta_def Let_def case_prod_beta membershipChanged_ok void_ok)

lemma handleJoinCluster_ok: "node_ok n \<Longrightarrow> node_ok (handleJoinCluster e from x p n)"
  by (simp add: handleJoinCluster_def Let_def node_ok_attach split: option.split)

lemma node_ok_held [simp]: "node_ok (n\<lparr>nRepl := (nRepl n)\<lparr>rHeld := b\<rparr>\<rparr>) = node_ok n"
  by (simp add: node_ok_defs)

lemma handleJoinAck_ok:
  assumes "node_ok n" "from \<noteq> self n" shows "node_ok (handleJoinAck e from i p n)"
proof (cases "i = '''' \<or> i \<noteq> nJoinID n \<or> nLeader n \<noteq> from")
  case False
  have ne: "self n \<noteq> ''''" using assms(1) by (simp add: node_ok_def lead_ok_def)
  have "\<not> isLeader n" using False assms node_ok_lead by auto
  then have "node_ok (n\<lparr>nJoinID := '''', nLeader := ''''\<rparr>)"
    using assms ne by (intro node_ok_leader) simp_all
  then have "node_ok (evaluate e (n\<lparr>nJoinID := '''', nLeader := ''''\<rparr>))"
    "node_ok (evaluate e (n\<lparr>nJoinID := '''', nLeader := '''', nHint := h, nRejections := r\<rparr>))" for h r
    by (simp_all add: evaluate_ok)
  moreover have "node_ok (publish (handOff e (n\<lparr>nJoinID := '''', nHint := '''', nRepl := (nRepl n)\<lparr>rHeld := False\<rparr>\<rparr>)))"
    using assms(1) node_ok_held[of False "n\<lparr>nJoinID := '''', nHint := ''''\<rparr>"] by simp
  ultimately show ?thesis using False by (simp add: handleJoinAck_def Let_def)
qed (auto simp: handleJoinAck_def assms)


lemma core_beat_one: "core (beat_one e c n w) = core (n\<lparr>nBeatSeq := fmupd w (fm_get 0 (nBeatSeq n) w + 1) (nBeatSeq n)\<rparr>)"
  by (simp add: beat_one_def Let_def)

lemma beat_one_ok [simp]: "node_ok (beat_one e c n w) = node_ok n"
  using node_ok_core[OF core_beat_one] by simp

lemma beat_ok [simp]: "node_ok (beat e n) = node_ok n"
proof -
  have "node_ok (foldl (beat_one e c) n ws) = node_ok n" for c n ws
    by (induction ws arbitrary: n) simp_all
  then show ?thesis by (simp add: beat_def Let_def)
qed

lemma self_beat_one [simp]: "self (beat_one e c n w) = self n" "isLeader (beat_one e c n w) = isLeader n"
  using derived_core(1,2)[OF core_beat_one] by simp_all

lemma self_no_tasks: "no_tasks a = no_tasks b \<Longrightarrow> self a = self b"
  using no_tasks_derived(1) .

lemma checkLeaderSilence_ok:
  assumes "node_ok n" "\<not> isLeader n" shows "node_ok (checkLeaderSilence e n)"
proof -
  let ?n1 = "n\<lparr>nSinceBeat := nSinceBeat n + 1\<rparr>"
  let ?n2 = "adoptOrphans (?n1\<lparr>nSinceBeat := 0\<rparr>)"
  let ?n3 = "fst (markSilent e (nLeader ?n1) ?n2)"
  have 2: "node_ok ?n2" "\<not> isLeader ?n2" using assms by simp_all
  have "no_det ?n3 = no_det ?n2" by (simp add: markSilent_def)
  then have l: "nLeaders ?n3 = nLeaders ?n2" "self ?n3 = self ?n2" by (rule no_det_fields, rule self_no_det)
  then have "\<not> isLeader ?n3" using 2(2) by (simp only: isLeader_def) simp
  moreover have "node_ok ?n3" using 2(1) by (simp add: markSilent_def suspect_ok)
  moreover from this have "self ?n3 \<noteq> ''''" by (simp add: node_ok_def lead_ok_def)
  ultimately have "node_ok (?n3\<lparr>nLeader := ''''\<rparr>)" by (intro node_ok_leader) simp_all
  then show ?thesis using assms(1) by (simp add: checkLeaderSilence_def Let_def membershipChanged_ok)
qed

lemma beatResumed_ok:
  assumes "node_ok n" shows "node_ok (beatResumed e from n)"
proof (cases "fmlookup (nSuspects n) from")
  case (Some s)
  then have "from \<noteq> self n" using node_ok_unsuspected[OF assms] by (auto simp: fmlookup_dom_iff)
  then have "node_ok (n\<lparr>nSuspects := fmdrop from (nSuspects n), nTable := fst (Revive (nTable n) from inc)\<rparr>)" for inc
    using node_ok_wf[OF assms] node_ok_unsuspect[OF assms]
    by (intro node_ok_table) (simp_all add: table_wf_ops table_ops_frame)
  then show ?thesis
    using assms by (simp add: Some beatResumed_def Let_def case_prod_beta membershipChanged_ok)
qed (simp add: beatResumed_def assms)

lemma sendDelayed_ok [simp]: "node_ok (sendDelayed e to x n) = node_ok n"
  by (simp add: sendDelayed_def)

lemma handleHeartbeat_ok: "node_ok n \<Longrightarrow> node_ok (handleHeartbeat e from x p n)"
  by (simp add: handleHeartbeat_def Let_def beatResumed_ok split: option.split)

lemma handleHeartbeatAck_ok: "node_ok n \<Longrightarrow> node_ok (handleHeartbeatAck from p n)"
  using node_ok_shrink[of n "nAttached n |-| {|from|}"]
    node_ok_shrink[of "n\<lparr>nTerm := haTerm p\<rparr>" "nAttached n |-| {|from|}"]
  by (auto simp: handleHeartbeatAck_def Let_def case_prod_beta node_ok_attach)

lemma controlTick_ok:
  assumes "node_ok n" shows "node_ok (controlTick e n)"
proof -
  let ?n2 = "(if snd (expireSuspicions e (Now e n) n) then membershipChanged e (fst (expireSuspicions e (Now e n) n))
     else fst (expireSuspicions e (Now e n) n))"
  let ?n4 = "(if snd (sweepTombstones (Now e n) ?n2) then publish (fst (sweepTombstones (Now e n) ?n2))
     else fst (sweepTombstones (Now e n) ?n2))"
  have "node_ok ?n2" using expire_ok[OF assms] by (simp add: membershipChanged_ok)
  then have "node_ok ?n4" using sweep_ok by simp
  moreover have "controlTick e n = (if isLeader ?n4 then reissueIfDue e (beat e ?n4)
         else if nLeader ?n4 \<noteq> '''' then checkLeaderSilence e ?n4 else ?n4)"
    unfolding controlTick_def Let_def case_prod_beta by (rule refl)
  ultimately show ?thesis using checkLeaderSilence_ok by simp
qed

lemma gossipRound_ok [simp]: "node_ok (gossipRound e n) = node_ok n"
  by (simp add: gossipRound_def gossip_ready_def Let_def)

lemma startProbeRound_ok [simp]: "node_ok (startProbeRound n) = node_ok n"
  by (simp add: startProbeRound_def Let_def)


lemma no_det_local: "no_det (n\<lparr>nLocal := lc\<rparr>) = (no_det n)\<lparr>nLocal := lc\<rparr>"
  "no_det (n\<lparr>nMissed := mi\<rparr>) = (no_det n)\<lparr>nMissed := mi\<rparr>"
  by (simp_all add: no_det_def no_tasks_def core_def)

lemma apply_result_keeps:
  assumes "node_ok (fst nc)" "i \<noteq> self (fst nc)"
  shows "node_ok (fst (apply_result e seq v rs nc i))" "self (fst (apply_result e seq v rs nc i)) = self (fst nc)"
proof -
  obtain n c where nc: "nc = (n, c)" by fastforce
  have ok: "node_ok n" and i: "i \<noteq> self n" using assms by (simp_all add: nc)
  have "node_ok (fst (probeMissed e i (n\<lparr>nLocal := lc, nMissed := mi\<rparr>)))"
    "node_ok (fst (probeClears i seq inc (n\<lparr>nLocal := lc, nMissed := mi\<rparr>)))" for lc mi inc
    using ok i by (simp_all add: probeMissed_ok probeClears_ok)
  then show "node_ok (fst (apply_result e seq v rs nc i))"
    using ok by (simp add: nc apply_result_def Let_def case_prod_beta split: option.split)
  have "self (fst (probeMissed e i n1)) = self n1" "self (fst (probeClears i seq inc n1)) = self n1" for n1 inc
    by (rule self_no_det; simp)+
  then show "self (fst (apply_result e seq v rs nc i)) = self (fst nc)"
    by (simp add: nc apply_result_def Let_def case_prod_beta split: option.split)
qed

lemma apply_results_ok:
  "node_ok (fst nc) \<Longrightarrow> self (fst nc) \<notin> set is \<Longrightarrow> node_ok (fst (foldl (apply_result e seq v rs) nc is))"
proof (induction "is" arbitrary: nc)
  case (Cons i "is")
  have "i \<noteq> self (fst nc)" using Cons.prems(2) by auto
  note k = apply_result_keeps[OF Cons.prems(1) this]
  have "node_ok (fst (foldl (apply_result e seq v rs) (apply_result e seq v rs nc i) is))"
    using Cons.prems(2) by (intro Cons.IH) (simp_all add: k)
  then show ?case by simp
qed simp

lemma applyProbeRound_ok:
  assumes "node_ok n" "self n |\<notin>| fmdom results" shows "node_ok (applyProbeRound e seq results n)"
proof -
  let ?n1 = "n\<lparr>nProbing := False, nRejections := 0\<rparr>"
  have "node_ok (fst (foldl (apply_result e seq v results) (?n1, False) (fm_keys results)))" for v
    by (rule apply_results_ok) (use assms in simp_all)
  then show ?thesis by (simp add: applyProbeRound_def Let_def case_prod_beta updateSelfScore_ok)
qed

lemma with_payload_ok:
  assumes "node_ok n" "from \<noteq> self n" "\<And>p. node_ok (h p n)"
  shows "node_ok (with_payload e dec from x h n)"
  using assms markDead_ok[OF assms(1,2), of e]
  by (simp add: with_payload_def payloadOrPoison_def Let_def case_prod_beta membershipChanged_ok split: option.split)

lemma handleFrame_ok:
  assumes "node_ok n" "from \<noteq> self n" shows "node_ok (handleFrame e from x n)"
proof -
  note w = with_payload_ok[OF assms]
  have l: "node_ok (let (n1, changed) = markLeft e from n in if changed then membershipChanged e n1 else n1)"
    using markDead_ok[OF assms, of e] by (simp add: markLeft_markDead Let_def case_prod_beta membershipChanged_ok)
  show ?thesis
    unfolding handleFrame_def Let_def[of "eType x"]
    using assms l
    by (auto simp only: split: if_split
        intro!: w handleMembershipDelta_ok handleJoinCluster_ok handleJoinAck_ok handleHeartbeat_ok
          handleHeartbeatAck_ok handleStateSync_ok handleTask_ok publish_ok[THEN iffD2])
      (simp_all add: handleTask_ok)
qed


section \<open>Properties\<close>

definition accepted :: "NodeID \<Rightarrow> node \<Rightarrow> MembershipDeltaPayload \<Rightarrow> Member list" where
  "accepted from n p = map (delta_member from (snapshot n))
     (filter (\<lambda>r. rID r \<noteq> '''' \<and> rID r \<noteq> self n \<and>
        \<not> (View_Get (snapshot n) (rID r) = None \<and> ParseState (rState r) = StateDead)) (dMembers p))"

lemma refute_peer:
  assumes "i \<noteq> self n"
  shows "peer (refuteIfNeeded e rec n) i = peer n i" "self (refuteIfNeeded e rec n) = self n"
  using assms by (simp_all add: refuteIfNeeded_def Let_def case_prod_beta table_ops_frame)

lemma Upsert_other_tables:
  assumes "fmlookup (members t) i = fmlookup (members t') i"
  shows "fmlookup (members (fst (Upsert t m))) i = fmlookup (members (fst (Upsert t' m))) i"
proof (cases "i = mID m")
  case True
  with assms show ?thesis by (auto simp: Upsert_def store_def Let_def split: option.split)
qed (use assms in \<open>simp add: table_ops_frame\<close>)

lemma delta_fold_peer:
  assumes "i \<noteq> self (fst nc)" "fmlookup (members t) i = peer (fst nc) i" "self (fst nc) = self n0"
  shows "peer (fst (foldl (delta_step e from (snapshot n0)) nc rs)) i =
      fmlookup (members (Upsert_all t (accepted from n0 \<lparr>dMembers = rs, dViewVersion = v\<rparr>))) i \<and>
    self (fst (foldl (delta_step e from (snapshot n0)) nc rs)) = self n0"
  using assms
proof (induction rs arbitrary: nc t)
  case Nil
  then show ?case by (simp add: accepted_def)
next
  case (Cons r rs)
  obtain n c where nc: "nc = (n, c)" by fastforce
  let ?nc = "delta_step e from (snapshot n0) nc r"
  let ?skip = "rID r = '''' \<or> rID r = self n0 \<or>
      (View_Get (snapshot n0) (rID r) = None \<and> ParseState (rState r) = StateDead)"
  let ?t = "if ?skip then t else fst (Upsert t (delta_member from (snapshot n0) r))"
  have s: "self n = self n0" "i \<noteq> self n" "fmlookup (members t) i = peer n i" using Cons.prems by (simp_all add: nc)
  have step: "self (fst ?nc) = self n0" "fmlookup (members ?t) i = peer (fst ?nc) i"
    using s refute_peer[OF s(2), of e r] Upsert_other_tables[OF s(3), of "delta_member from (snapshot n0) r"]
    by (auto simp: nc delta_step_def Let_def case_prod_beta)
  have "Upsert_all t (accepted from n0 \<lparr>dMembers = r # rs, dViewVersion = v\<rparr>) =
      Upsert_all ?t (accepted from n0 \<lparr>dMembers = rs, dViewVersion = v\<rparr>)"
    by (simp add: accepted_def Upsert_all_def)
  then show ?case
    using Cons.IH[of ?nc ?t] step s by (simp add: nc)
qed

lemma evaluate_peer: "i \<noteq> self n \<Longrightarrow> peer (evaluate e n) i = peer n i"
  by (simp add: evaluate_fields elected_fields table_ops_frame)

lemma retainLive_frame [simp]:
  "nTable (retainLive n) = nTable n" "self (retainLive n) = self n" "nLeader (retainLive n) = nLeader n"
  "nSuspects (retainLive n) = nSuspects n" "nAttached (retainLive n) = nAttached n" "nTerm (retainLive n) = nTerm n"
  "nIncarnation (retainLive n) = nIncarnation n" "nHighWater (retainLive n) = nHighWater n"
  "nCfg (retainLive n) = nCfg n" "nLeaders (retainLive n) = nLeaders n"
  by (simp_all add: retainLive_def pruneLocal_def Let_def self_def)

lemma membershipChanged_peer: "i \<noteq> self n \<Longrightarrow> peer (membershipChanged e n) i = peer n i"
  using evaluate_peer[of i "retainLive n" e] by (simp add: membershipChanged_def)

lemma void_frame [simp]:
  "nTable (voidAttachmentIfLeaderStepped v n) = nTable n" "self (voidAttachmentIfLeaderStepped v n) = self n"
  by (auto simp: voidAttachmentIfLeaderStepped_def split: option.split)

text \<open>C19: Receiving gossip is the merge, nothing else. Whatever a membership delta triggers (refutations,
  dials, an election, a join), what this node ends up holding about every other member is its old
  table merged with the delta's records in order, less tombstones of members it does not hold, and
  with an unordered relayed role replaced by the one it knew.\<close>

theorem delta_refines_merge:
  assumes "i \<noteq> self n"
  shows "peer (handleMembershipDelta e from p n) i =
    fmlookup (members (Upsert_all (nTable n) (accepted from n p))) i"
proof -
  let ?f = "foldl (delta_step e from (snapshot n)) (n, False) (dMembers p)"
  have "accepted from n \<lparr>dMembers = dMembers p, dViewVersion = dViewVersion p\<rparr> = accepted from n p"
    by (simp add: accepted_def)
  then have f: "peer (fst ?f) i = fmlookup (members (Upsert_all (nTable n) (accepted from n p))) i" "self (fst ?f) = self n"
    using delta_fold_peer[of i "(n, False)" "nTable n" n e "from" "dMembers p" "dViewVersion p"] assms by simp_all
  then have "peer (membershipChanged e (voidAttachmentIfLeaderStepped (snapshot n) (fst ?f))) i = peer (fst ?f) i"
    using assms by (simp add: membershipChanged_peer)
  then show ?thesis using f by (simp add: handleMembershipDelta_def Let_def case_prod_beta)
qed


definition ex_rumour :: MemberRecord where
  "ex_rumour = \<lparr>rID = ''a'', rAdvertise = ''a'', rIncarnation = 1, rRole = ''worker'', rState = ''suspect'',
     rScore = Fin 5, rSeq = 1\<rparr>"

theorem delta_refines_merge_witness:
  "peer (handleMembershipDelta ex_envr ''b'' \<lparr>dMembers = [ex_rumour], dViewVersion = 1\<rparr> ex_pair) ''a'' =
     Some ((ex_member ''a'' RoleWorker (Fin 5))\<lparr>mState := StateSuspect\<rparr>)"
proof -
  have ne: "''a'' \<noteq> self ex_pair" by (simp add: ex_pair_simps)
  have acc: "accepted ''b'' ex_pair \<lparr>dMembers = [ex_rumour], dViewVersion = 1\<rparr> =
      [(ex_member ''a'' RoleWorker (Fin 5))\<lparr>mState := StateSuspect\<rparr>]"
    by (simp add: accepted_def ex_rumour_def ex_pair_simps delta_member_def delta_role_def ParseState_def
        ParseRole_def Measured_def ex_member_def)
  show ?thesis
    using delta_refines_merge[OF ne, of ex_envr "''b''" "\<lparr>dMembers = [ex_rumour], dViewVersion = 1\<rparr>"] ex_pair_simps(2)
    by (simp add: acc Upsert_all_def Upsert_def store_def merge_equal_def Let_def ex_member_def)
qed

lemma suspect_silent:
  assumes "may_suspect n i"
  shows "\<exists>s. fmlookup (nSuspects (fst (suspect e i True n))) i = Some s \<and> sSilent s"
proof -
  have "\<exists>s. fmlookup (nSuspects (timing e i inc True n)) i = Some s \<and> sSilent s" for inc
    by (cases "fmlookup (nSuspects n) i") (simp_all add: timing_def)
  then show ?thesis
    using assms by (auto simp: suspect_def may_suspect_def Let_def case_prod_beta split: option.splits)
qed

text \<open>A silent leader is left at once. When a worker's ticks without a valid heartbeat reach
  HeartbeatMisses, it raises a silence suspicion of its leader (which no probe can clear), is no
  longer attached to it, and the election that follows in the same step does not take it back,
  even when it keeps that leader its seat.\<close>

theorem silent_leader_abandoned:
  assumes "node_ok n" "\<not> isLeader n" "nLeader n \<noteq> ''''" "ncHeartbeatMisses (nCfg n) \<le> nSinceBeat n + 1"
    and "may_suspect n (nLeader n)" "n' = checkLeaderSilence e n"
  shows "nLeader n' \<noteq> nLeader n \<and> (\<exists>s. fmlookup (nSuspects n') (nLeader n) = Some s \<and> sSilent s)"
proof -
  let ?n2 = "adoptOrphans (n\<lparr>nSinceBeat := 0\<rparr>)"
  let ?n3 = "(fst (markSilent e (nLeader n) ?n2))\<lparr>nLeader := ''''\<rparr>"
  have eq: "n' = evaluate e (retainLive ?n3)"
    using assms(4,6) by (simp add: checkLeaderSilence_def Let_def membershipChanged_def)
  have s2: "nSuspects ?n2 = nSuspects n" "self ?n2 = self n" "snapshot ?n2 = snapshot n" by (simp_all add: snapshot_def)
  then have may: "may_suspect ?n2 (nLeader n)" using assms(5) by (simp add: may_suspect_def)
  have sil: "\<exists>s. fmlookup (nSuspects (fst (markSilent e (nLeader n) ?n2))) (nLeader n) = Some s \<and> sSilent s"
    unfolding markSilent_def by (rule suspect_silent[OF may])
  then have dom: "nLeader n |\<in>| fmdom (nSuspects (retainLive ?n3))" by (auto intro: fmdomI)
  have nd: "no_det (fst (markSilent e (nLeader n) ?n2)) = no_det ?n2" by (simp add: markSilent_def)
  have ok3: "node_ok (retainLive ?n3)"
  proof -
    have "nLeaders (fst (markSilent e (nLeader n) ?n2)) = nLeaders n"
      using no_det_fields(4)[OF nd] by simp
    moreover have "self (fst (markSilent e (nLeader n) ?n2)) = self n"
      using self_no_det[OF nd] by simp
    ultimately have "\<not> isLeader (fst (markSilent e (nLeader n) ?n2))" "self (fst (markSilent e (nLeader n) ?n2)) = self n"
      using assms(2) by (simp_all add: isLeader_def)
    moreover have "self n \<noteq> ''''" using assms(1) by (simp add: node_ok_def lead_ok_def)
    moreover have "node_ok (fst (markSilent e (nLeader n) ?n2))" using assms(1) by (simp add: markSilent_def suspect_ok)
    ultimately have "node_ok ?n3" by (intro node_ok_leader) simp_all
    then show ?thesis by simp
  qed
  have "self (retainLive ?n3) = self n" using self_no_det[OF nd] by simp
  then have "nLeader n \<noteq> self (retainLive ?n3)" using assms(1,2) node_ok_lead by simp
  with evaluate_outcome[OF ok3 refl eq] dom show ?thesis
    using sil assms(3) eq by (auto split: if_splits)
qed

definition ex_worker :: node where
  "ex_worker = ex_pair\<lparr>nLeaders := [''a''], nLeader := ''a'', nAttached := {||}, nSinceBeat := 2\<rparr>"

theorem silent_leader_abandoned_witness:
  "nLeader (checkLeaderSilence ex_envr ex_worker) \<noteq> ''a''"
proof -
  have s: "self ex_worker = ''w''" using ex_pair_simps(3) by (simp add: ex_worker_def)
  have l: "\<not> isLeader ex_worker" by (simp add: isLeader_def s) (simp add: ex_worker_def)
  have wf: "table_wf (nTable ex_worker)" using ex_pair_simps(1) by (simp add: ex_worker_def)
  have own: "peer ex_worker ''w'' = Some \<lparr>mID = ''w'', mAddr = ''w:1'', mRole = RoleWorker, mState = StateAlive,
      mIncarnation = 1, mScore = ScoreUnavailable, mSeq = 1\<rparr>"
    by (simp add: ex_worker_def ex_pair_def ex_leader_def Upsert_def NewTable_def store_def ex_member_def)
  have cfg: "nCfg ex_worker = NodeConfig_withDefaults ex_cfgN"
    by (simp add: ex_worker_def ex_pair_def ex_leader_def ex_node_def newState_def)
  have ok: "node_ok ex_worker"
    using wf l by (simp add: node_ok_def own_ok_def own_def s own lead_ok_def hold_ok_def cfg)
      (simp add: ex_worker_def ex_pair_def ex_leader_def ex_cfgN_def NodeConfig_withDefaults_def pos_or_def)
  have "may_suspect ex_worker ''a''"
    using Get_snapshot[OF wf, of "''a''"] ex_pair_simps(2) s
    by (simp add: may_suspect_def) (simp add: ex_worker_def ex_member_def)
  moreover have "ncHeartbeatMisses (nCfg ex_worker) \<le> nSinceBeat ex_worker + 1"
    by (simp add: cfg ex_cfgN_def NodeConfig_withDefaults_def pos_or_def DefaultHeartbeatMisses_def)
      (simp add: ex_worker_def)
  moreover have "nLeader ex_worker = ''a''" by (simp add: ex_worker_def)
  ultimately show ?thesis using silent_leader_abandoned[OF ok l _ _ _ refl, of ex_envr] by simp
qed

section \<open>Coverage of the gossip rounds\<close>

definition shuffles :: "env \<Rightarrow> bool" where
  "shuffles e \<longleftrightarrow> (\<forall>k ids. mset (envShuffle e k ids) = mset ids)"

definition delta_to :: "NodeID \<Rightarrow> effect \<Rightarrow> bool" where
  "delta_to i ef \<longleftrightarrow> (\<exists>x ok. ef = Sent i x ok \<and> eType x = TypeMembershipDelta)"

text \<open>A node whose gossip order matches its table, with the cursor at \<open>k\<close>.\<close>

definition synced :: "NodeID list \<Rightarrow> nat \<Rightarrow> node \<Rightarrow> bool" where
  "synced ord k n \<longleftrightarrow> nGossipOrder n = ord \<and> nGossipNext n = k \<and> k \<le> length ord \<and>
     mset ord = mset (gossip_peers (snapshot n) n) \<and> nGossipSet n = fset_of_list ord"

definition gossip_inv :: "node \<Rightarrow> bool" where
  "gossip_inv n \<longleftrightarrow> nGossipSet n = fset_of_list (nGossipOrder n) \<and> distinct (nGossipOrder n) \<and>
     nGossipNext n \<le> length (nGossipOrder n) \<and>
     (vVersion (snapshot n) = nGossipVersion n \<longrightarrow>
        mset (nGossipOrder n) = mset (gossip_peers (snapshot n) n))"

lemma gossip_peers_distinct: "table_wf (nTable n) \<Longrightarrow> distinct (gossip_peers (snapshot n) n)"
  using Snapshot_distinct[of "nTable n"] by (simp add: gossip_peers_def snapshot_def distinct_map_filter)

lemma gossip_peers_cong:
  "nTable a = nTable b \<Longrightarrow> nCfg a = nCfg b \<Longrightarrow> gossip_peers (snapshot a) a = gossip_peers (snapshot b) b"
  by (simp add: gossip_peers_def snapshot_def self_def)

lemma sendView_trace: "\<exists>x ok. nTrace (sendView e to v n) = Sent to x ok # nTrace n \<and> eType x = TypeMembershipDelta"
proof -
  obtain j where "enc_MembershipDelta \<lparr>dMembers = map memberRecord (Members v), dViewVersion = vVersion v\<rparr> = Some j"
    using enc_delta_Some by blast
  then show ?thesis
    by (simp add: sendView_def sendTo_def newEnvelope_def NewEnvelope_def Send_def emit_def Let_def)
qed

lemma sameGossipSet_iff:
  assumes "distinct P" "P = gossip_peers v n" "nGossipSet n = fset_of_list ord" "distinct ord"
  shows "sameGossipSet v n \<longleftrightarrow> mset ord = mset P"
proof -
  have c: "fcard (fset_of_list ord) = length ord"
    using assms(4) by (simp add: fcard.rep_eq fset_of_list.rep_eq distinct_card)
  have "set P \<subseteq> set ord \<and> length P = length ord \<longleftrightarrow> mset ord = mset P"
  proof
    assume a: "set P \<subseteq> set ord \<and> length P = length ord"
    then have "set P = set ord"
      using assms(1,4) by (intro card_subset_eq) (simp_all add: distinct_card)
    then show "mset ord = mset P" using assms(1,4) by (simp add: set_eq_iff_mset_eq_distinct)
  qed (metis mset_eq_length mset_eq_setD order_refl)
  then show ?thesis
    by (simp add: sameGossipSet_def Let_def assms(2,3) c fset_of_list.rep_eq list_all_iff subset_eq)
qed

lemma gossip_ready_facts:
  assumes "table_wf (nTable n)" "shuffles e" "gossip_inv n" "P = gossip_peers (snapshot n) n" "P \<noteq> []"
    and "n2 = gossip_ready e (snapshot n) n"
  shows "mset (nGossipOrder n2) = mset P" "nGossipNext n2 < length (nGossipOrder n2)"
    "nGossipSet n2 = fset_of_list (nGossipOrder n2)" "distinct (nGossipOrder n2)"
    "nGossipVersion n2 = vVersion (snapshot n)" "nTable n2 = nTable n" "nCfg n2 = nCfg n" "nTrace n2 = nTrace n"
    "mset (nGossipOrder n) = mset P \<and> nGossipNext n < length (nGossipOrder n) \<longrightarrow>
       nGossipOrder n2 = nGossipOrder n \<and> nGossipNext n2 = nGossipNext n"
    "nGossipNext n = length (nGossipOrder n) \<longrightarrow> nGossipNext n2 = 0"
proof -
  let ?v = "snapshot n"
  have P: "distinct P" using gossip_peers_distinct[OF assms(1)] assms(4) by simp
  have peers: "gossip_peers ?v (n\<lparr>nGossipVersion := w\<rparr>) = P" "gossip_peers ?v (n\<lparr>nGossipVersion := w, nGossipNext := l\<rparr>) = P"
    for w l by (simp_all add: gossip_peers_def assms(4))
  note inv = assms(3)[unfolded gossip_inv_def]
  have same: "sameGossipSet ?v (n\<lparr>nGossipVersion := w\<rparr>) \<longleftrightarrow> mset (nGossipOrder n) = mset P" for w
    by (rule sameGossipSet_iff[OF P]) (use inv peers in simp_all)
  have sh: "mset (envShuffle e j P) = mset P" for j using assms(2) by (simp add: shuffles_def)
  then have shp: "distinct (envShuffle e j P)" "set (envShuffle e j P) = set P" "length (envShuffle e j P) = length P" for j
    using P by (metis mset_eq_imp_distinct_iff, metis mset_eq_setD, metis mset_eq_length)
  have lenP: "0 < length P" using assms(5) by simp
  have ne: "envShuffle e j P \<noteq> []" for j using shp(3)[of j] assms(5) by (metis length_0_conv)
  have fs: "fset_of_list P = fset_of_list (envShuffle e j P)" for j
    by (simp add: shp(2) fset_inject[symmetric] fset_of_list.rep_eq)
  show "mset (nGossipOrder n2) = mset P" "nGossipNext n2 < length (nGossipOrder n2)"
    "nGossipSet n2 = fset_of_list (nGossipOrder n2)" "distinct (nGossipOrder n2)"
    "nGossipVersion n2 = vVersion (snapshot n)" "nTable n2 = nTable n" "nCfg n2 = nCfg n" "nTrace n2 = nTrace n"
    "mset (nGossipOrder n) = mset P \<and> nGossipNext n < length (nGossipOrder n) \<longrightarrow>
       nGossipOrder n2 = nGossipOrder n \<and> nGossipNext n2 = nGossipNext n"
    "nGossipNext n = length (nGossipOrder n) \<longrightarrow> nGossipNext n2 = 0"
    using inv sh shp same lenP ne fs assms(4) unfolding assms(6) gossip_ready_def Let_def
    by (auto simp: peers)
qed

lemma gossip_prepared:
  assumes "table_wf (nTable n)" "shuffles e" "gossip_inv n" "P = gossip_peers (snapshot n) n" "P \<noteq> []"
  obtains ord k x ok where
    "synced ord (Suc k) (gossipRound e n)" "k < length ord" "eType x = TypeMembershipDelta"
    "nTrace (gossipRound e n) = Sent (ord ! k) x ok # nTrace n"
    "nTable (gossipRound e n) = nTable n" "nCfg (gossipRound e n) = nCfg n" "gossip_inv (gossipRound e n)"
    "synced (nGossipOrder n) (nGossipNext n) n \<longrightarrow> nGossipNext n < length (nGossipOrder n) \<longrightarrow>
       ord = nGossipOrder n \<and> k = nGossipNext n"
    "nGossipNext n = length (nGossipOrder n) \<longrightarrow> k = 0"
proof -
  define n2 where "n2 = gossip_ready e (snapshot n) n"
  note r = gossip_ready_facts[OF assms n2_def]
  let ?m = "n2\<lparr>nGossipNext := nGossipNext n2 + 1\<rparr>"
  have "nGossipOrder n2 \<noteq> []" using r(2) by auto
  then have g: "gossipRound e n = sendView e (nGossipOrder n2 ! nGossipNext n2) (snapshot n) ?m"
    by (simp add: gossipRound_def Let_def n2_def)
  obtain x ok where x: "nTrace (gossipRound e n) = Sent (nGossipOrder n2 ! nGossipNext n2) x ok # nTrace ?m"
    "eType x = TypeMembershipDelta"
    using sendView_trace unfolding g by blast
  have f: "nGossipOrder (gossipRound e n) = nGossipOrder n2" "nGossipNext (gossipRound e n) = Suc (nGossipNext n2)"
    "nGossipSet (gossipRound e n) = nGossipSet n2" "nGossipVersion (gossipRound e n) = nGossipVersion n2"
    "nTable (gossipRound e n) = nTable n" "nCfg (gossipRound e n) = nCfg n"
    using r(6,7) by (simp_all add: g)
  have sn: "snapshot (gossipRound e n) = snapshot n" using f(5) by (simp add: snapshot_def)
  have gp: "gossip_peers (snapshot (gossipRound e n)) (gossipRound e n) = P"
    using gossip_peers_cong[OF f(5,6)] assms(4) by simp
  show ?thesis
  proof (rule that[of "nGossipOrder n2" "nGossipNext n2" x ok])
    show "synced (nGossipOrder n2) (Suc (nGossipNext n2)) (gossipRound e n)"
      unfolding synced_def f gp using r(1-3) by simp
    show "gossip_inv (gossipRound e n)" unfolding gossip_inv_def f sn gp[unfolded sn] using r by simp
    show "nTrace (gossipRound e n) = Sent (nGossipOrder n2 ! nGossipNext n2) x ok # nTrace n"
      using x(1) r(8) by simp
    show "synced (nGossipOrder n) (nGossipNext n) n \<longrightarrow> nGossipNext n < length (nGossipOrder n) \<longrightarrow>
       nGossipOrder n2 = nGossipOrder n \<and> nGossipNext n2 = nGossipNext n"
      using r(9) assms(4) by (simp add: synced_def)
  qed (fact r(2) r(10) x(2) f(5) f(6))+
qed

lemma gossip_rounds:
  assumes "table_wf (nTable n)" "shuffles e" "gossip_inv n" "synced ord k n" "ord \<noteq> []" "k + j \<le> length ord"
  shows "\<exists>new. nTrace ((gossipRound e ^^ j) n) = new @ nTrace n \<and> (\<forall>i\<in>set (take j (drop k ord)). \<exists>ef\<in>set new. delta_to i ef) \<and>
    synced ord (k + j) ((gossipRound e ^^ j) n) \<and> gossip_inv ((gossipRound e ^^ j) n) \<and>
    nTable ((gossipRound e ^^ j) n) = nTable n \<and> nCfg ((gossipRound e ^^ j) n) = nCfg n"
  using assms(6)
proof (induction j)
  case 0
  then show ?case using assms(3,4) by (auto intro: exI[of _ "[]"])
next
  case (Suc j)
  let ?m = "(gossipRound e ^^ j) n"
  obtain new where new: "nTrace ?m = new @ nTrace n" "\<forall>i\<in>set (take j (drop k ord)). \<exists>ef\<in>set new. delta_to i ef"
    "synced ord (k + j) ?m" "gossip_inv ?m" "nTable ?m = nTable n" "nCfg ?m = nCfg n"
    using Suc by auto
  define P where "P = gossip_peers (snapshot ?m) ?m"
  have "P \<noteq> []" using new(3) assms(5) by (auto simp: synced_def P_def)
  moreover have "table_wf (nTable ?m)" using new(5) assms(1) by simp
  ultimately obtain ord' k' x ok where r: "synced ord' (Suc k') (gossipRound e ?m)" "eType x = TypeMembershipDelta"
    "nTrace (gossipRound e ?m) = Sent (ord' ! k') x ok # nTrace ?m"
    "nTable (gossipRound e ?m) = nTable ?m" "nCfg (gossipRound e ?m) = nCfg ?m" "gossip_inv (gossipRound e ?m)"
    "synced (nGossipOrder ?m) (nGossipNext ?m) ?m \<longrightarrow> nGossipNext ?m < length (nGossipOrder ?m) \<longrightarrow>
       ord' = nGossipOrder ?m \<and> k' = nGossipNext ?m"
    using gossip_prepared[OF _ assms(2) new(4) P_def] by metis
  have o: "nGossipOrder ?m = ord" "nGossipNext ?m = k + j" using new(3) by (simp_all add: synced_def)
  then have k: "ord' = ord" "k' = k + j" using r(7) new(3) Suc.prems by simp_all
  have "take (Suc j) (drop k ord) = take j (drop k ord) @ [ord ! (k + j)]"
    using Suc.prems by (simp add: take_Suc_conv_app_nth)
  moreover have "delta_to (ord ! (k + j)) (Sent (ord ! (k + j)) x ok)" using r(2) by (simp add: delta_to_def)
  ultimately show ?case
    using new r by (intro exI[of _ "Sent (ord ! (k + j)) x ok # new"]) (auto simp: k)
qed


lemma gossip_sweep:
  assumes "table_wf (nTable n)" "shuffles e" "gossip_inv n" "P = gossip_peers (snapshot n) n" "P \<noteq> []"
  obtains ord k new where "k < length P" "set ord = set P" "length ord = length P"
    "nTrace ((gossipRound e ^^ (length P - k)) n) = new @ nTrace n"
    "\<forall>i\<in>set (drop k ord). \<exists>ef\<in>set new. delta_to i ef"
    "synced ord (length P) ((gossipRound e ^^ (length P - k)) n)" "gossip_inv ((gossipRound e ^^ (length P - k)) n)"
    "nTable ((gossipRound e ^^ (length P - k)) n) = nTable n" "nCfg ((gossipRound e ^^ (length P - k)) n) = nCfg n"
    "nGossipNext n = length (nGossipOrder n) \<longrightarrow> k = 0"
proof -
  obtain ord k x ok where r: "synced ord (Suc k) (gossipRound e n)" "k < length ord" "eType x = TypeMembershipDelta"
    "nTrace (gossipRound e n) = Sent (ord ! k) x ok # nTrace n"
    "nTable (gossipRound e n) = nTable n" "nCfg (gossipRound e n) = nCfg n" "gossip_inv (gossipRound e n)"
    "nGossipNext n = length (nGossipOrder n) \<longrightarrow> k = 0"
    using gossip_prepared[OF assms] by metis
  have m: "mset ord = mset P"
    using r(1) gossip_peers_cong[OF r(5,6)] by (simp add: synced_def assms(4))
  have ord: "length ord = length P" "set ord = set P" using m mset_eq_length mset_eq_setD by blast+
  then have ne: "ord \<noteq> []" using assms(5) by auto
  have tw: "table_wf (nTable (gossipRound e n))" using assms(1) r(5) by simp
  have le: "Suc k + (length P - Suc k) \<le> length ord" using r(2) ord(1) by simp
  have tk: "take (length P - Suc k) (drop (Suc k) ord) = drop (Suc k) ord" using ord(1) by simp
  have pk: "Suc k + (length P - Suc k) = length P" using r(2) ord(1) by simp
  obtain new where new: "nTrace ((gossipRound e ^^ (length P - Suc k)) (gossipRound e n)) = new @ nTrace (gossipRound e n)"
    "\<forall>i\<in>set (drop (Suc k) ord). \<exists>ef\<in>set new. delta_to i ef"
    "synced ord (length P) ((gossipRound e ^^ (length P - Suc k)) (gossipRound e n))"
    "gossip_inv ((gossipRound e ^^ (length P - Suc k)) (gossipRound e n))"
    "nTable ((gossipRound e ^^ (length P - Suc k)) (gossipRound e n)) = nTable (gossipRound e n)"
    "nCfg ((gossipRound e ^^ (length P - Suc k)) (gossipRound e n)) = nCfg (gossipRound e n)"
    using gossip_rounds[OF tw assms(2) r(7,1) ne le] unfolding tk pk by blast
  have it: "(gossipRound e ^^ (length P - k)) n = (gossipRound e ^^ (length P - Suc k)) (gossipRound e n)"
    using r(2) ord(1) by (metis Suc_diff_Suc comp_apply funpow_Suc_right)
  have d: "drop k ord = ord ! k # drop (Suc k) ord" using r(2) by (simp add: Cons_nth_drop_Suc)
  show ?thesis
  proof (rule that[of k ord "new @ [Sent (ord ! k) x ok]"])
    show "\<forall>i\<in>set (drop k ord). \<exists>ef\<in>set (new @ [Sent (ord ! k) x ok]). delta_to i ef"
      using new(2) r(3) ord(1) by (auto simp: d delta_to_def)
    show "nTrace ((gossipRound e ^^ (length P - k)) n) = (new @ [Sent (ord ! k) x ok]) @ nTrace n"
      unfolding it new(1) r(4) by simp
    show "synced ord (length P) ((gossipRound e ^^ (length P - k)) n)" unfolding it by (rule new(3))
    show "gossip_inv ((gossipRound e ^^ (length P - k)) n)" unfolding it by (rule new(4))
    show "nTable ((gossipRound e ^^ (length P - k)) n) = nTable n" unfolding it new(5) by (rule r(5))
    show "nCfg ((gossipRound e ^^ (length P - k)) n) = nCfg n" unfolding it new(6) by (rule r(6))
    show "k < length P" using r(2) unfolding ord(1) .
  qed (fact ord(1) ord(2) r(8))+
qed

lemma gossipRound_trace: "\<exists>new. nTrace (gossipRound e q) = new @ nTrace q"
proof -
  have t: "nTrace (gossip_ready e (snapshot q) q) = nTrace q" by (simp add: gossip_ready_def Let_def)
  show ?thesis
  proof (cases "nGossipOrder (gossip_ready e (snapshot q) q) = []")
    case True
    then show ?thesis by (simp add: gossipRound_def Let_def t)
  next
    case False
    let ?m = "gossip_ready e (snapshot q) q"
    obtain x ok where "nTrace (gossipRound e q) = Sent (nGossipOrder ?m ! nGossipNext ?m) x ok # nTrace ?m"
      using sendView_trace[of e "nGossipOrder ?m ! nGossipNext ?m" "snapshot q" "?m\<lparr>nGossipNext := nGossipNext ?m + 1\<rparr>"] False
      by (auto simp: gossipRound_def Let_def)
    then show ?thesis by (intro exI[of _ "[Sent (nGossipOrder ?m ! nGossipNext ?m) x ok]"]) (simp add: t)
  qed
qed

lemma gossip_trace_mono: "\<exists>new. nTrace ((gossipRound e ^^ b) m) = new @ nTrace m"
proof (induction b)
  case (Suc b)
  then obtain new where "nTrace ((gossipRound e ^^ b) m) = new @ nTrace m" by blast
  moreover obtain more where "nTrace (gossipRound e ((gossipRound e ^^ b) m)) = more @ nTrace ((gossipRound e ^^ b) m)"
    using gossipRound_trace by blast
  ultimately show ?case by (intro exI[of _ "more @ new"]) simp
qed simp

text \<open>C20: Round-robin gossip reaches every live peer. Over a table that does not change, whatever the shuffles draw
  (any permutation), 2N-1 rounds from any state of the cursor send the membership view at least once to each of
  the N live peers of this node's snapshot.\<close>

theorem gossip_covers:
  assumes "table_wf (nTable n)" "shuffles e" "gossip_inv n" "i \<in> set (gossip_peers (snapshot n) n)"
  shows "\<exists>new. nTrace ((gossipRound e ^^ (2 * length (gossip_peers (snapshot n) n) - 1)) n) = new @ nTrace n \<and>
    (\<exists>ef\<in>set new. delta_to i ef)"
proof -
  define P where "P = gossip_peers (snapshot n) n"
  have P: "P \<noteq> []" "i \<in> set P" using assms(4) by (auto simp: P_def)
  obtain ord k new where s: "k < length P" "set ord = set P" "length ord = length P"
    "nTrace ((gossipRound e ^^ (length P - k)) n) = new @ nTrace n"
    "\<forall>i\<in>set (drop k ord). \<exists>ef\<in>set new. delta_to i ef"
    "synced ord (length P) ((gossipRound e ^^ (length P - k)) n)" "gossip_inv ((gossipRound e ^^ (length P - k)) n)"
    "nTable ((gossipRound e ^^ (length P - k)) n) = nTable n" "nCfg ((gossipRound e ^^ (length P - k)) n) = nCfg n"
    using gossip_sweep[OF assms(1-3) P_def P(1)] by metis
  let ?m = "(gossipRound e ^^ (length P - k)) n"
  have reached: "\<exists>a b new. a + b = 2 * length P - 1 \<and> nTrace ((gossipRound e ^^ a) n) = new @ nTrace n \<and>
      (\<exists>ef\<in>set new. delta_to i ef)"
  proof (cases "i \<in> set (drop k ord)")
    case True
    then show ?thesis using s(1,4,5) by (intro exI[of _ "length P - k"] exI[of _ "length P + k - 1"] exI[of _ new]) auto
  next
    case False
    then have k: "0 < k" using P(2) s(2) by (cases k) auto
    have gm: "P = gossip_peers (snapshot ?m) ?m" using gossip_peers_cong[OF s(8,9)] by (simp add: P_def)
    have "table_wf (nTable ?m)" using assms(1) s(8) by simp
    moreover have "nGossipNext ?m = length (nGossipOrder ?m)" using s(3,6) by (simp add: synced_def)
    ultimately obtain ord' new' where t: "set ord' = set P"
      "nTrace ((gossipRound e ^^ length P) ?m) = new' @ nTrace ?m" "\<forall>i\<in>set ord'. \<exists>ef\<in>set new'. delta_to i ef"
      using gossip_sweep[OF _ assms(2) s(7) gm P(1)] by (metis diff_zero drop0)
    have "nTrace ((gossipRound e ^^ (length P + (length P - k))) n) = (new' @ new) @ nTrace n"
      using t(2) s(4) by (simp add: funpow_add)
    moreover have "\<exists>ef\<in>set (new' @ new). delta_to i ef" using t(1,3) P(2) by auto
    moreover have "(length P + (length P - k)) + (k - 1) = 2 * length P - 1" using k s(1) by simp
    ultimately show ?thesis by blast
  qed
  then obtain a b new' where a: "a + b = 2 * length P - 1" "nTrace ((gossipRound e ^^ a) n) = new' @ nTrace n"
    "\<exists>ef\<in>set new'. delta_to i ef" by blast
  obtain more where "nTrace ((gossipRound e ^^ b) ((gossipRound e ^^ a) n)) = more @ nTrace ((gossipRound e ^^ a) n)"
    using gossip_trace_mono by blast
  then have "nTrace ((gossipRound e ^^ (2 * length P - 1)) n) = (more @ new') @ nTrace n"
    using a(1,2) by (metis add.commute append.assoc comp_apply funpow_add)
  moreover have "\<exists>ef\<in>set (more @ new'). delta_to i ef" using a(3) by auto
  ultimately show ?thesis unfolding P_def by blast
qed

theorem gossip_covers_witness:
  "\<exists>new. nTrace ((gossipRound ex_envr ^^ 1) ex_pair) = new @ nTrace ex_pair \<and> (\<exists>ef\<in>set new. delta_to ''a'' ef)"
proof -
  have sh: "shuffles ex_envr" by (simp add: shuffles_def ex_envr_def)
  have g: "nGossipOrder ex_pair = []" "nGossipSet ex_pair = {||}" "nGossipNext ex_pair = 0" "nGossipVersion ex_pair = 0"
    by (simp_all add: ex_pair_def ex_leader_def ex_node_def newState_def)
  then have inv: "gossip_inv ex_pair" by (simp add: gossip_inv_def snapshot_def Snapshot_def ex_pair_simps)
  have P: "gossip_peers (snapshot ex_pair) ex_pair = [''a'']"
    using ex_pair_simps(3)
    by (simp add: gossip_peers_def snapshot_def) (simp add: ex_pair_def ex_leader_def Snapshot_def fm_vals_def fm_keys_def
        sorted_list_of_fset.rep_eq sorted_list_of_set_insert_remove sort_by_def Upsert_def NewTable_def store_def ex_member_def)
  show ?thesis using gossip_covers[OF ex_pair_simps(1) sh inv, of "''a''"] by (simp add: P)
qed

end
