(* ===== verification/Evolution.thy ===== *)
theory Evolution
  imports Handlers
begin

text \<open>
  What every handler has in common, whatever it decides. \<open>evolves n m\<close> says that \<open>m\<close> is reached from
  \<open>n\<close> by effects and updates of the kinds the loop performs: the trace only grows, a task goroutine is
  launched exactly when \<open>inflight\<close> is incremented and only below the cap, the incarnation and the
  high-water mark only rise, the configuration changes in its election parameters alone, and no
  probe round starts or ends. Every handler of the loop is shown to evolve the state; what follows from
  it is then proved once, by rule induction.
\<close>

section \<open>The relation\<close>

text \<open>The configuration without the parameters \<open>applyTuning\<close> may change.\<close>

definition fixed_cfg :: "node \<Rightarrow> NodeConfig" where
  "fixed_cfg n = (nCfg n)\<lparr>ncElection := \<lparr>Threshold = Fin 0, Hysteresis = Fin 0\<rparr>, ncRehome := Fin 0\<rparr>"

fun plain :: "effect \<Rightarrow> bool" where
  "plain (Launched t w) = False"
| "plain (ProbeStarted r ts) = False"
| "plain _ = True"

definition observed :: "node \<Rightarrow> effect list \<times> int \<times> int \<times> int \<times> NodeConfig \<times> bool \<times> uint64" where
  "observed n = (nTrace n, inflight (nTasks n), nIncarnation n, nHighWater n, fixed_cfg n, nProbing n, nProbeSeq n)"

inductive evolves :: "node \<Rightarrow> node \<Rightarrow> bool" where
  same: "observed m = observed n \<Longrightarrow> evolves n m"
| free: "evolves n m \<Longrightarrow> observed m' = observed m \<Longrightarrow> evolves n m'"
| effect: "evolves n m \<Longrightarrow> plain ef \<Longrightarrow> evolves n (emit ef m)"
| launched: "evolves n m \<Longrightarrow> inflight (nTasks m) < maxInflightTasks \<Longrightarrow>
    evolves n (emit (Launched t w) (m\<lparr>nTasks := (nTasks m)\<lparr>inflight := inflight (nTasks m) + 1\<rparr>\<rparr>))"
| incarnated: "evolves n m \<Longrightarrow> nIncarnation m \<le> i \<Longrightarrow> evolves n (m\<lparr>nIncarnation := i\<rparr>)"
| swelled: "evolves n m \<Longrightarrow> nHighWater m \<le> h \<Longrightarrow> evolves n (m\<lparr>nHighWater := h\<rparr>)"

named_theorems evo

lemma evolves_refl [evo]: "evolves n n"
  by (rule same) simp

lemma evolves_trans:
  assumes "evolves a b" "evolves b c"
  shows "evolves a c"
  using assms(2,1)
proof (induction rule: evolves.induct)
  case (same m n)
  show ?case by (rule evolves.free[OF same(2,1)])
qed (auto intro: evolves.intros)

lemma observed_update [simp]:
  "observed (n\<lparr>nTable := x1\<rparr>) = observed n" "observed (n\<lparr>nTerm := x2\<rparr>) = observed n"
  "observed (n\<lparr>nLeaders := x3\<rparr>) = observed n" "observed (n\<lparr>nLeader := x4\<rparr>) = observed n"
  "observed (n\<lparr>nHint := x5\<rparr>) = observed n" "observed (n\<lparr>nJoinID := x6\<rparr>) = observed n"
  "observed (n\<lparr>nRejections := x7\<rparr>) = observed n" "observed (n\<lparr>nAttached := x8\<rparr>) = observed n"
  "observed (n\<lparr>nLocal := x9\<rparr>) = observed n" "observed (n\<lparr>nReported := x10\<rparr>) = observed n"
  "observed (n\<lparr>nDialed := x11\<rparr>) = observed n" "observed (n\<lparr>nMissed := x12\<rparr>) = observed n"
  "observed (n\<lparr>nClaims := x13\<rparr>) = observed n" "observed (n\<lparr>nDegraded := x14\<rparr>) = observed n"
  "observed (n\<lparr>nUnknownLogged := x15\<rparr>) = observed n" "observed (n\<lparr>nGossipOrder := x16\<rparr>) = observed n"
  "observed (n\<lparr>nGossipNext := x17\<rparr>) = observed n" "observed (n\<lparr>nGossipSet := x18\<rparr>) = observed n"
  "observed (n\<lparr>nGossipVersion := x19\<rparr>) = observed n" "observed (n\<lparr>nSuspects := x20\<rparr>) = observed n"
  "observed (n\<lparr>nTombstones := x21\<rparr>) = observed n" "observed (n\<lparr>nTombVersion := x22\<rparr>) = observed n"
  "observed (n\<lparr>nBeatSeq := x23\<rparr>) = observed n" "observed (n\<lparr>nSinceBeat := x24\<rparr>) = observed n"
  "observed (n\<lparr>nRepl := x25\<rparr>) = observed n" "observed (n\<lparr>nChaosDelay := x26\<rparr>) = observed n"
  "observed (n\<lparr>nTunePending := x27\<rparr>) = observed n" "observed (n\<lparr>nStatus := x28\<rparr>) = observed n"
  "observed (n\<lparr>nHung := x29\<rparr>) = observed n"
  by (simp_all add: observed_def fixed_cfg_def)

lemmas evolves_update [evo] = free[OF _ observed_update(1)] free[OF _ observed_update(2)] free[OF _ observed_update(3)]
  free[OF _ observed_update(4)] free[OF _ observed_update(5)] free[OF _ observed_update(6)] free[OF _ observed_update(7)]
  free[OF _ observed_update(8)] free[OF _ observed_update(9)] free[OF _ observed_update(10)] free[OF _ observed_update(11)]
  free[OF _ observed_update(12)] free[OF _ observed_update(13)] free[OF _ observed_update(14)] free[OF _ observed_update(15)]
  free[OF _ observed_update(16)] free[OF _ observed_update(17)] free[OF _ observed_update(18)] free[OF _ observed_update(19)]
  free[OF _ observed_update(20)] free[OF _ observed_update(21)] free[OF _ observed_update(22)] free[OF _ observed_update(23)]
  free[OF _ observed_update(24)] free[OF _ observed_update(25)] free[OF _ observed_update(26)] free[OF _ observed_update(27)]
  free[OF _ observed_update(28)] free[OF _ observed_update(29)]

lemma evolves_tasks [evo]:
  "evolves n m \<Longrightarrow> inflight ts = inflight (nTasks m) \<Longrightarrow> evolves n (m\<lparr>nTasks := ts\<rparr>)"
  by (erule free) (simp add: observed_def fixed_cfg_def)

lemma evolves_tuned [evo]:
  "evolves n m \<Longrightarrow> evolves n (m\<lparr>nCfg := (nCfg m)\<lparr>ncElection := el\<rparr>\<rparr>)"
  "evolves n m \<Longrightarrow> evolves n (m\<lparr>nCfg := (nCfg m)\<lparr>ncElection := el, ncRehome := rh\<rparr>\<rparr>)"
  by (erule free, simp add: observed_def fixed_cfg_def)+

text \<open>Case distinctions and loops of the handlers.\<close>

lemma evolves_if [evo]:
  "(b \<Longrightarrow> evolves n x) \<Longrightarrow> (\<not> b \<Longrightarrow> evolves n y) \<Longrightarrow> evolves n (if b then x else y)"
  "(b \<Longrightarrow> evolves n (fst p)) \<Longrightarrow> (\<not> b \<Longrightarrow> evolves n (fst q)) \<Longrightarrow> evolves n (fst (if b then p else q))"
  by simp_all

lemma evolves_option [evo]:
  "(x = None \<Longrightarrow> evolves n a) \<Longrightarrow> (\<And>v. x = Some v \<Longrightarrow> evolves n (f v)) \<Longrightarrow> evolves n (case x of None \<Rightarrow> a | Some v \<Rightarrow> f v)"
  "(x = None \<Longrightarrow> evolves n (fst p)) \<Longrightarrow> (\<And>v. x = Some v \<Longrightarrow> evolves n (fst (g v))) \<Longrightarrow>
     evolves n (fst (case x of None \<Rightarrow> p | Some v \<Rightarrow> g v))"
  by (simp_all split: option.split)

lemma evolves_pair [evo]: "evolves n m \<Longrightarrow> evolves n (fst (m, c))"
  by simp

lemma evolves_foldl:
  assumes "\<And>n m x. evolves n m \<Longrightarrow> evolves n (f m x)" "evolves n m"
  shows "evolves n (foldl f m xs)"
  using assms(2) by (induction xs arbitrary: m) (simp_all add: assms(1))

lemma evolves_foldl_fst:
  assumes "\<And>n m c x. evolves n m \<Longrightarrow> evolves n (fst (f (m, c) x))" "evolves n (fst mc)"
  shows "evolves n (fst (foldl f mc xs))"
proof -
  have "evolves n m \<Longrightarrow> evolves n (fst (foldl f (m, c) xs))" for m c
  proof (induction xs arbitrary: m c)
    case (Cons x xs)
    then show ?case using assms(1)[of n m c x] by (cases "f (m, c) x") auto
  qed simp
  then show ?thesis using assms(2) by (cases mc) simp
qed

section \<open>The primitives\<close>

lemma evolves_emit [evo]: "evolves n m \<Longrightarrow> plain ef \<Longrightarrow> evolves n (emit ef m)"
  by (rule effect)

lemma evolves_Send [evo]: "evolves n m \<Longrightarrow> evolves n (fst (Send e to x m))"
  by (simp add: Send_def Let_def evolves_emit)

lemma evolves_broadcast [evo]: "evolves n m \<Longrightarrow> evolves n (broadcast e t p m)"
  by (auto simp: broadcast_def intro!: evo)

lemma evolves_sendTo [evo]: "evolves n m \<Longrightarrow> evolves n (fst (sendTo e t to p m))"
  by (auto simp: sendTo_def intro!: evo)

lemma evolves_prims [evo]:
  assumes "evolves n m"
  shows "evolves n (connect addr m)" "evolves n (pushRecord e i m)" "evolves n (announceSelf e m)"
    "evolves n (sendView e to v m)" "evolves n (publish m)"
  using assms by (auto simp: connect_def pushRecord_def announceSelf_def sendView_def publish_def Let_def
      case_prod_beta intro!: evo)

section \<open>Tasks and replication\<close>

lemma evolves_setAssignee [evo]: "evolves n m \<Longrightarrow> evolves n (setAssignee i w m)"
  by (auto simp: setAssignee_def intro!: evo)

lemma evolves_ledgerAppend [evo]: "evolves n m \<Longrightarrow> evolves n (ledgerAppend r m)"
  by (auto simp: ledgerAppend_def Let_def intro!: evo)

lemma evolves_completeTask [evo]: "evolves n m \<Longrightarrow> evolves n (completeTask res m)"
  by (auto simp: completeTask_def Let_def intro!: evo)

lemma evolves_sends [evo]:
  assumes "evolves n m"
  shows "evolves n (fst (sendTask e to t m))" "evolves n (fst (sendResultTo e to res m))"
  using assms by (auto simp: sendTask_def sendResultTo_def intro!: evo)

lemma evolves_sendResult [evo]: "evolves n m \<Longrightarrow> evolves n (sendResult e to res m)"
  by (auto simp: sendResult_def Let_def case_prod_beta intro!: evo)

definition ended :: "node \<Rightarrow> node" where
  "ended n = n\<lparr>nTasks := (nTasks n)\<lparr>inflight := inflight (nTasks n) - 1\<rparr>\<rparr>"

lemma evolves_outcome: "evolves (ended n) (handleTaskOutcome e w res n)"
  by (auto simp: handleTaskOutcome_def ended_def Let_def intro!: evo)

lemma evolves_outcomeNow [evo]: "evolves n m \<Longrightarrow> evolves n (handleOutcomeNow e w res m)"
  by (auto simp: handleOutcomeNow_def handleTaskOutcome_def Let_def intro!: evo)

lemma evolves_launch [evo]: "evolves n m \<Longrightarrow> evolves n (launch e t w m)"
  by (auto simp: launch_def intro!: evo launched)

lemma evolves_try [evo]: "evolves n m \<Longrightarrow> evolves n (fst (try_workers e t ws nx ks m))"
  by (induction ks arbitrary: m) (auto simp: Let_def case_prod_beta intro!: evo)

lemma evolves_assign [evo]:
  assumes "evolves n m"
  shows "evolves n (assign e t m)"
proof (cases rule: assign_cases[of e t m])
  case (1 n1 k)
  show ?thesis unfolding 1(3) using evolves_try[OF assms] 1(1) by (auto intro!: evo) (metis fst_conv)
next
  case (2 n1)
  show ?thesis unfolding 2(3) using evolves_try[OF assms] 2(1) by (auto intro!: evo) (metis fst_conv)
qed

lemma evolves_leadTask [evo]: "evolves n m \<Longrightarrow> evolves n (leadTask e t m)"
  by (auto simp: leadTask_def intro!: evo)

lemma evolves_submit [evo]: "evolves n m \<Longrightarrow> evolves n (fst (submit e t m))" "evolves n m \<Longrightarrow> evolves n (fst (SubmitTask e t m))"
  by (auto simp: SubmitTask_def submit_def Let_def case_prod_beta intro!: evo)

lemma evolves_handleTask [evo]: "evolves n m \<Longrightarrow> evolves n (handleTask e w t m)"
  by (auto simp: handleTask_def intro!: evo)

lemma evolves_handleTaskResult [evo]: "evolves n m \<Longrightarrow> evolves n (handleTaskResult w res m)"
  by (auto simp: handleTaskResult_def intro!: evo)

lemma evolves_assign_all [evo]: "evolves n m \<Longrightarrow> evolves n (assign_all e ts m)"
  by (auto simp: assign_all_def intro!: evolves_foldl evo)

lemma evolves_failover [evo]:
  assumes "evolves n m"
  shows "evolves n (reassignFrom e w m)" "evolves n (tasksRoleChanged l m)" "evolves n (adoptOrphans m)"
    "evolves n (reissueIfDue e m)"
  using assms
  by (auto simp: reassignFrom_def tasksRoleChanged_def adoptOrphans_def reissueIfDue_def Let_def intro!: evo)

lemma evolves_handOff [evo]: "evolves n m \<Longrightarrow> evolves n (handOff e m)"
  by (auto simp: handOff_def Let_def intro!: evo evolves_foldl)

lemma evolves_sendSync [evo]: "evolves n m \<Longrightarrow> evolves n (sendSync e ws m)"
  by (auto simp: sendSync_def intro!: evo evolves_foldl)

lemma evolves_sync [evo]:
  assumes "evolves n m"
  shows "evolves n (flushSync e m)" "evolves n (periodicSync e m)" "evolves n (handleStateSync w p m)"
  using assms by (auto simp: flushSync_def periodicSync_def handleStateSync_def Let_def intro!: evo)

section \<open>The detector\<close>

lemma evolves_markDead [evo]: "evolves n m \<Longrightarrow> evolves n (fst (markDead e i m))" "evolves n m \<Longrightarrow> evolves n (fst (markLeft e i m))"
  by (auto simp: markDead_def markLeft_def Let_def case_prod_beta intro!: evo)

lemma evolves_timing [evo]: "evolves n m \<Longrightarrow> evolves n (timing e i inc s m)"
  by (auto simp: timing_def intro!: evo)

lemma evolves_suspect [evo]: "evolves n m \<Longrightarrow> evolves n (fst (suspect e i s m))"
  by (auto simp: suspect_def Let_def case_prod_beta intro!: evo)

lemma evolves_marks [evo]:
  assumes "evolves n m"
  shows "evolves n (fst (markSuspect e i m))" "evolves n (fst (markSilent e i m))"
    "evolves n (fst (probeMissed e i m))" "evolves n (fst (probeClears i r inc m))"
  using assms by (auto simp: markSuspect_def markSilent_def probeMissed_def probeClears_def Let_def case_prod_beta intro!: evo)

lemma evolves_expire [evo]: "evolves n m \<Longrightarrow> evolves n (fst (expireSuspicions e now m))"
  by (auto simp: expireSuspicions_def expire_one_def Let_def case_prod_beta intro!: evolves_foldl_fst evo)

lemma evolves_sweep [evo]: "evolves n m \<Longrightarrow> evolves n (fst (sweepTombstones now m))"
  by (auto simp: sweepTombstones_def sweep_one_def reconcile_def Let_def case_prod_beta intro!: evolves_foldl_fst evo)

section \<open>Evaluation and the handlers\<close>

lemma evolves_retainLive [evo]: "evolves n m \<Longrightarrow> evolves n (retainLive m)"
  by (auto simp: retainLive_def pruneLocal_def Let_def intro!: evo)

lemma evolves_updateSelfScore [evo]: "evolves n m \<Longrightarrow> evolves n (updateSelfScore e m)"
  by (auto simp: updateSelfScore_def Let_def case_prod_beta intro!: evo)

lemma evolves_roleChanged [evo]: "evolves n m \<Longrightarrow> evolves n (roleChanged l m)"
  by (auto simp: roleChanged_def Let_def intro!: evo)

lemma evolves_join [evo]: "evolves n m \<Longrightarrow> evolves n (join e l m)"
  by (auto simp: join_def Let_def case_prod_beta intro!: evo)

lemma evolves_take [evo]:
  assumes "evolves n m"
  shows "evolves n (take_role e res m)" "evolves n (take_leaders e res m)" "evolves n (lead v m)" "evolves n (detach v u m)"
  using assms by (auto simp: take_role_def take_leaders_def lead_def detach_def Let_def case_prod_beta intro!: evo)

lemma evolves_follow [evo]: "evolves n m \<Longrightarrow> evolves n (follow e v ls m)"
  by (auto simp: follow_def Let_def intro!: evo)

lemma evolves_swell [evo]:
  "evolves n m \<Longrightarrow> evolves n (if nHighWater m < h then m\<lparr>nHighWater := h\<rparr> else m)"
  by (auto intro!: swelled)

lemma evolves_evaluate [evo]: "evolves n m \<Longrightarrow> evolves n (evaluate e m)"
  unfolding evaluate_def Let_def by (rule evo | assumption)+

lemma evolves_membershipChanged [evo]: "evolves n m \<Longrightarrow> evolves n (membershipChanged e m)"
  by (auto simp: membershipChanged_def intro!: evo)

lemma evolves_refute [evo]: "evolves n m \<Longrightarrow> evolves n (refuteIfNeeded e r m)"
  by (auto simp: refuteIfNeeded_def NextIncarnation_def Let_def case_prod_beta intro!: evo incarnated)

lemma evolves_tuning [evo]:
  assumes "evolves n m"
  shows "evolves n (SetElectionParams th hy m)" "evolves n (SetChaosDelay d m)" "evolves n (applyTuning e m)"
  using assms
  by (auto simp: SetElectionParams_def SetChaosDelay_def applyTuning_def takeTuning_def Let_def case_prod_beta intro!: evo)

lemma evolves_connects [evo]: "evolves n m \<Longrightarrow> evolves n (foldl (\<lambda>n addr. connect addr n) m as)"
  by (auto intro!: evo evolves_foldl)

lemma evolves_peer [evo]:
  assumes "evolves n m"
  shows "evolves n (fst (peerUp e p m))" "evolves n (fst (peerDown e i d m))"
  using assms by (auto simp: peerUp_def peerDown_def Let_def case_prod_beta intro!: evo)

lemma evolves_handlePeerEvent [evo]: "evolves n m \<Longrightarrow> evolves n (handlePeerEvent e ev m)"
  by (cases ev) (auto simp: handlePeerEvent_def Let_def case_prod_beta intro!: evo)

lemma evolves_void [evo]: "evolves n m \<Longrightarrow> evolves n (voidAttachmentIfLeaderStepped b m)"
  by (auto simp: voidAttachmentIfLeaderStepped_def intro!: evo)

lemma evolves_delta [evo]: "evolves n m \<Longrightarrow> evolves n (handleMembershipDelta e w p m)"
  by (auto simp: handleMembershipDelta_def delta_step_def Let_def case_prod_beta intro!: evolves_foldl_fst evo)

lemma evolves_join_handlers [evo]:
  assumes "evolves n m"
  shows "evolves n (handleJoinCluster e w x jc m)" "evolves n (handleJoinAck e w i ja m)"
  using assms by (auto simp: handleJoinCluster_def handleJoinAck_def Let_def case_prod_beta intro!: evo)

lemma evolves_beat [evo]: "evolves n m \<Longrightarrow> evolves n (beat e m)"
  by (auto simp: beat_def beat_one_def Let_def intro!: evolves_foldl evo)

lemma evolves_silence [evo]: "evolves n m \<Longrightarrow> evolves n (checkLeaderSilence e m)"
  by (auto simp: checkLeaderSilence_def Let_def intro!: evo)

lemma evolves_resumed [evo]: "evolves n m \<Longrightarrow> evolves n (sendDelayed e w x m)" "evolves n m \<Longrightarrow> evolves n (beatResumed e w m)"
  by (auto simp: sendDelayed_def beatResumed_def Let_def case_prod_beta intro!: evo)

lemma evolves_heartbeats [evo]:
  assumes "evolves n m"
  shows "evolves n (handleHeartbeat e w x hb m)" "evolves n (handleHeartbeatAck w ha m)"
  using assms by (auto simp: handleHeartbeat_def handleHeartbeatAck_def Let_def case_prod_beta intro!: evo)

lemma evolves_controlTick [evo]: "evolves n m \<Longrightarrow> evolves n (controlTick e m)"
  by (auto simp: controlTick_def Let_def case_prod_beta intro!: evo)

lemma evolves_gossipRound [evo]: "evolves n m \<Longrightarrow> evolves n (gossipRound e m)"
  by (auto simp: gossipRound_def gossip_ready_def Let_def intro!: evo)

lemma evolves_apply_result [evo]: "evolves n m \<Longrightarrow> evolves n (fst (apply_result e s v rs (m, c) i))"
  by (auto simp: apply_result_def Let_def case_prod_beta intro!: evo)

lemma evolves_applyProbeRound: "evolves (n\<lparr>nProbing := False\<rparr>) (applyProbeRound e s rs n)"
  unfolding applyProbeRound_def Let_def case_prod_beta
  by (intro evo evolves_foldl_fst | simp)+

lemma evolves_with_payload [evo]:
  assumes "evolves n m" "\<And>p m. evolves n m \<Longrightarrow> evolves n (h p m)"
  shows "evolves n (with_payload e dec w x h m)"
proof (cases "PayloadOf dec x")
  case None
  then show ?thesis using assms(1)
    by (auto simp: with_payload_def payloadOrPoison_def Let_def case_prod_beta intro!: evo)
qed (use assms in \<open>simp add: with_payload_def payloadOrPoison_def\<close>)

lemma evolves_handleFrame [evo]: "evolves n m \<Longrightarrow> evolves n (handleFrame e w x m)"
  unfolding handleFrame_def Let_def
  by (intro evo; auto simp: case_prod_beta intro!: evo)

section \<open>What follows\<close>

definition launches :: "node \<Rightarrow> int" where
  "launches n = int (length (filter (\<lambda>ef. case ef of Launched t w \<Rightarrow> True | _ \<Rightarrow> False) (nTrace n)))"

definition rounds :: "effect list \<Rightarrow> (uint64 \<times> (NodeID \<times> NodeAddress) list) list" where
  "rounds tr = concat (map (\<lambda>ef. case ef of ProbeStarted r ts \<Rightarrow> [(r, ts)] | _ \<Rightarrow> []) tr)"

lemma observed_fields:
  assumes "observed m = observed n"
  shows "nTrace m = nTrace n" "inflight (nTasks m) = inflight (nTasks n)" "nIncarnation m = nIncarnation n"
    "nHighWater m = nHighWater n" "fixed_cfg m = fixed_cfg n" "nProbing m = nProbing n" "nProbeSeq m = nProbeSeq n"
  using assms by (simp_all add: observed_def)

lemma evolves_monotone:
  assumes "evolves n m"
  shows "nIncarnation n \<le> nIncarnation m \<and> nHighWater n \<le> nHighWater m \<and> (\<exists>new. nTrace m = new @ nTrace n)"
  using assms by (induction rule: evolves.induct) (auto dest: observed_fields simp: emit_def)

lemma evolves_fixed:
  assumes "evolves n m"
  shows "fixed_cfg m = fixed_cfg n \<and> nProbing m = nProbing n \<and> nProbeSeq m = nProbeSeq n \<and> rounds (nTrace m) = rounds (nTrace n)"
  using assms
proof (induction rule: evolves.induct)
  case (effect n m ef)
  then show ?case by (cases ef) (simp_all add: emit_def fixed_cfg_def rounds_def)
qed (auto dest: observed_fields simp: emit_def fixed_cfg_def rounds_def)

lemma observed_tasks:
  assumes "observed m = observed n"
  shows "inflight (nTasks m) = inflight (nTasks n)" "launches m = launches n"
  using observed_fields[OF assms] by (simp_all add: launches_def)

lemma evolves_launches:
  assumes "evolves n m"
  shows "inflight (nTasks m) - launches m = inflight (nTasks n) - launches n \<and>
    (inflight (nTasks n) \<le> maxInflightTasks \<longrightarrow> inflight (nTasks m) \<le> maxInflightTasks)"
  using assms
proof (induction rule: evolves.induct)
  case (effect n m ef)
  then show ?case by (cases ef) (simp_all add: emit_def launches_def)
next
  case (same m n)
  show ?case using observed_tasks[OF same] by simp
next
  case (free n m m')
  show ?case using observed_tasks[OF free(2)] free(3) by simp
qed (simp_all add: emit_def launches_def)

lemma fixed_cfg_self: "self n = ncSelf (fixed_cfg n)"
  by (simp add: self_def fixed_cfg_def)

lemma evolves_self: "evolves n m \<Longrightarrow> self m = self n"
  using evolves_fixed[of n m] by (simp add: fixed_cfg_self)

end
