(* ===== verification/NodeLoop.thy ===== *)
theory NodeLoop
  imports Evolution
begin

text \<open>
  The node as a concurrent process, \<open>pkg/cluster/node.go\<close>: the queues between the goroutines, the
  frame handler the connection readers call, the event loop of \<open>Run\<close>, and shutdown. A state is the
  loop-owned node with its channels and the goroutines it has started. An input is what another
  goroutine does; a turn is one iteration of the loop, with the select branch it takes. A run is any
  interleaving of inputs and turns. The two test seams (\<open>settle\<close>, \<open>barrier\<close>) and the calls channel
  they use are not modelled.
\<close>

section \<open>State\<close>

type_synonym inboundFrame = "NodeID \<times> Envelope"

record loop =
  lNode :: node
  lRunning :: bool
  lCancelled :: bool
  lStopped :: bool
  lEvents :: "PeerEvent list"
  lClosed :: bool
  lOpen :: bool
  lCtrl :: "inboundFrame list"
  lData :: "inboundFrame list"
  lDropped :: nat
  lRound :: "(uint64 \<times> (NodeID \<times> NodeAddress) list) option"
  lTasks :: "(TaskPayload \<times> NodeID) list"
  lOutcomes :: "(NodeID \<times> TaskResultPayload) list"
  lSubmits :: "TaskPayload list"
  lReplies :: "submit_result list"
  lTune :: bool

definition idle :: "node \<Rightarrow> loop" where
  "idle n = \<lparr>lNode = n, lRunning = False, lCancelled = False, lStopped = False, lEvents = [], lClosed = False,
     lOpen = True, lCtrl = [], lData = [], lDropped = 0, lRound = None, lTasks = [], lOutcomes = [],
     lSubmits = [], lReplies = [], lTune = False\<rparr>"

definition queue_depth :: "loop \<Rightarrow> nat" where
  "queue_depth l = nat (ncQueueDepth (nCfg (lNode l)))"

text \<open>\<open>Node.Status\<close>: the published snapshot; the dropped frames and the chaos delay are read live.\<close>

definition Node_Status :: "loop \<Rightarrow> Status option \<times> nat \<times> duration" where
  "Node_Status l = (nStatus (lNode l), lDropped l, nChaosDelay (lNode l))"

section \<open>Inputs\<close>

text \<open>
  The frame handler, on a reader goroutine: \<open>None\<close> is the reader waiting for space in the control
  queue. \<open>hook\<close> is \<open>NodeConfig.OnFrame\<close>. With space and a stopped node Go may pick either branch; the
  queue of a stopped node is never read, so the frame is put there.
\<close>

definition Handler :: "(NodeID \<Rightarrow> Envelope \<Rightarrow> bool) \<Rightarrow> NodeID \<Rightarrow> Envelope \<Rightarrow> loop \<Rightarrow> loop option" where
  "Handler hook from x l =
     (if hook from x then Some l
      else if IsDataPlane (eType x)
      then (if length (lData l) < queue_depth l then Some (l\<lparr>lData := lData l @ [(from, x)]\<rparr>)
            else Some (l\<lparr>lDropped := lDropped l + 1\<rparr>))
      else if length (lCtrl l) < queue_depth l then Some (l\<lparr>lCtrl := lCtrl l @ [(from, x)]\<rparr>)
      else if lStopped l then Some l
      else None)"

text \<open>Task goroutine \<open>i\<close> runs its executor (with its outcome, start and finish) and queues the result.\<close>

definition finish_task ::
  "nat \<Rightarrow> string + TaskResultPayload \<Rightarrow> duration \<Rightarrow> duration \<Rightarrow> loop \<Rightarrow> loop option" where
  "finish_task i outcome start finish l =
     (if i < length (lTasks l) \<and> length (lOutcomes l) < nat maxInflightTasks
      then let (t, origin) = lTasks l ! i in
        Some (l\<lparr>lTasks := delete_at i (lTasks l),
               lOutcomes := lOutcomes l @ [(origin, execute (lNode l) start finish t outcome)]\<rparr>)
      else None)"

datatype input =
    Frame NodeID Envelope
  | Arrived PeerEvent
  | TransportClosed
  | TaskFinished nat "string + TaskResultPayload" duration duration
  | Submitted TaskPayload
  | Tuned f64 f64
  | ChaosDelay duration
  | Cancelled

definition tuned :: "f64 \<Rightarrow> f64 \<Rightarrow> bool" where
  "tuned threshold hysteresis \<longleftrightarrow> (Fin 0 < threshold \<and> threshold \<le> Fin 1) \<or> (Fin 0 \<le> hysteresis \<and> hysteresis \<noteq> Inf False)"

fun input_step :: "(NodeID \<Rightarrow> Envelope \<Rightarrow> bool) \<Rightarrow> input \<Rightarrow> loop \<Rightarrow> loop option" where
  "input_step hook (Frame from x) l = Handler hook from x l"
| "input_step hook (Arrived ev) l = Some (l\<lparr>lEvents := lEvents l @ [ev]\<rparr>)"
| "input_step hook TransportClosed l = Some (l\<lparr>lClosed := True\<rparr>)"
| "input_step hook (TaskFinished i outcome start finish) l = finish_task i outcome start finish l"
| "input_step hook (Submitted t) l =
     (if tTaskID t = '''' then Some (l\<lparr>lReplies := ErrNoTaskID # lReplies l\<rparr>)
      else if lStopped l then Some (l\<lparr>lReplies := ErrStopped # lReplies l\<rparr>)
      else Some (l\<lparr>lSubmits := lSubmits l @ [t]\<rparr>))"
| "input_step hook (Tuned threshold hysteresis) l =
     (if tuned threshold hysteresis
      then Some (l\<lparr>lNode := SetElectionParams threshold hysteresis (lNode l), lTune := True\<rparr>) else Some l)"
| "input_step hook (ChaosDelay d) l = Some (l\<lparr>lNode := SetChaosDelay d (lNode l)\<rparr>)"
| "input_step hook Cancelled l = Some (l\<lparr>lCancelled := True\<rparr>)"

section \<open>Turns\<close>

text \<open>The goroutines a handler has started are read off the effects it has added, oldest first.\<close>

definition added :: "node \<Rightarrow> node \<Rightarrow> effect list" where
  "added n n' = rev (take (length (nTrace n') - length (nTrace n)) (nTrace n'))"

definition launched_in :: "effect list \<Rightarrow> (TaskPayload \<times> NodeID) list" where
  "launched_in efs = concat (map (\<lambda>ef. case ef of Launched t w \<Rightarrow> [(t, w)] | _ \<Rightarrow> []) efs)"

definition started_in :: "effect list \<Rightarrow> (uint64 \<times> (NodeID \<times> NodeAddress) list) option \<Rightarrow>
    (uint64 \<times> (NodeID \<times> NodeAddress) list) option" where
  "started_in efs r = (case rounds efs of [] \<Rightarrow> r | x # xs \<Rightarrow> Some x)"

definition settle_in :: "node \<Rightarrow> loop \<Rightarrow> loop" where
  "settle_in n' l =
     (let efs = added (lNode l) n' in
      l\<lparr>lNode := n', lTasks := lTasks l @ launched_in efs, lRound := started_in efs (lRound l)\<rparr>)"

datatype turn =
    OnEvent | OnCtrl | OnData | OnProbeTick | OnRound "(NodeID, probeResult) fmap" | OnFloor | OnGossip
  | OnTick | OnSyncTick | OnOutcome | OnSubmit nat | OnTune

text \<open>
  The body of one select branch; \<open>None\<close> when the branch is not ready. The boolean says whether
  the iteration goes on to \<open>flushSync\<close> (a closed event channel continues instead).
\<close>

fun branch :: "env \<Rightarrow> turn \<Rightarrow> loop \<Rightarrow> (loop \<times> bool) option" where
  "branch e OnEvent l =
     (if \<not> lOpen l then None
      else case lEvents l of
        ev # evs \<Rightarrow> Some (settle_in (handlePeerEvent e ev (lNode l)) (l\<lparr>lEvents := evs\<rparr>), True)
      | [] \<Rightarrow> if lClosed l then Some (l\<lparr>lOpen := False\<rparr>, False) else None)"
| "branch e OnCtrl l =
     (case lCtrl l of [] \<Rightarrow> None
      | (from, x) # q \<Rightarrow> Some (settle_in (handleFrame e from x (lNode l)) (l\<lparr>lCtrl := q\<rparr>), True))"
| "branch e OnData l =
     (case lData l of [] \<Rightarrow> None
      | (from, x) # q \<Rightarrow> Some (settle_in (handleFrame e from x (lNode l)) (l\<lparr>lData := q\<rparr>), True))"
| "branch e OnProbeTick l = Some (settle_in (startProbeRound (lNode l)) l, True)"
| "branch e (OnRound results) l =
     (case lRound l of
        Some (seq, targets) \<Rightarrow>
          if fset (fmdom results) = fst ` set targets
          then Some (settle_in (evaluate e (applyProbeRound e seq results (lNode l))) (l\<lparr>lRound := None\<rparr>), True)
          else None
      | None \<Rightarrow> None)"
| "branch e OnFloor l = Some (settle_in (evaluate e (lNode l)) l, True)"
| "branch e OnGossip l = Some (settle_in (gossipRound e (lNode l)) l, True)"
| "branch e OnTick l = Some (settle_in (controlTick e (lNode l)) l, True)"
| "branch e OnSyncTick l = Some (settle_in (periodicSync e (lNode l)) l, True)"
| "branch e OnOutcome l =
     (case lOutcomes l of [] \<Rightarrow> None
      | (origin, res) # q \<Rightarrow>
          Some (settle_in (handleTaskOutcome e origin res (lNode l)) (l\<lparr>lOutcomes := q\<rparr>), True))"
| "branch e (OnSubmit i) l =
     (if i < length (lSubmits l)
      then let (n', res) = submit e (lSubmits l ! i) (lNode l) in
        Some (settle_in n' (l\<lparr>lSubmits := delete_at i (lSubmits l), lReplies := res # lReplies l\<rparr>), True)
      else None)"
| "branch e OnTune l =
     (if lTune l then Some (settle_in (applyTuning e (lNode l)) (l\<lparr>lTune := False\<rparr>), True) else None)"

text \<open>
  \<open>shutdown\<close>: LEAVE is broadcast and the goroutines, whose context is done, are joined. A task or a
  round in flight is abandoned, and a caller still waiting in \<open>SubmitTask\<close> is told the node stopped.
\<close>

definition shutdown :: "env \<Rightarrow> loop \<Rightarrow> loop" where
  "shutdown e l =
     l\<lparr>lNode := publish (broadcast e TypeLeave (Some (enc_Leave \<lparr>lvReason = ''shutdown''\<rparr>)) (lNode l)),
       lTasks := [], lRound := None, lSubmits := [],
       lReplies := replicate (length (lSubmits l)) ErrStopped @ lReplies l, lStopped := True\<rparr>"

definition flush :: "env \<Rightarrow> loop \<Rightarrow> loop" where
  "flush e l = settle_in (flushSync e (lNode l)) l"

text \<open>One iteration. The context is looked at before the queues, and a loop that hangs or has stopped takes none.\<close>

definition iterate :: "env \<Rightarrow> turn \<Rightarrow> loop \<Rightarrow> loop option" where
  "iterate e c l =
     (if \<not> lRunning l \<or> lStopped l \<or> nHung (lNode l) then None
      else if lCancelled l then Some (shutdown e l)
      else case branch e c l of
        None \<Rightarrow> None
      | Some (l', flushes) \<Rightarrow> Some (if flushes then flush e l' else l'))"

text \<open>\<open>Run\<close> up to its loop: \<open>None\<close> is \<open>ErrAlreadyRunning\<close>.\<close>

definition Run :: "env \<Rightarrow> loop \<Rightarrow> loop option" where
  "Run e l =
     (if lRunning l then None
      else Some (settle_in (evaluate e (applyTuning e (lNode l))) (l\<lparr>lRunning := True\<rparr>)))"

section \<open>Runs\<close>

text \<open>
  A frame never comes from this node itself: the handshake refuses a peer that presents the
  node's own ID (\<open>ErrSelfConnect\<close>).
\<close>

fun from_peer :: "loop \<Rightarrow> input \<Rightarrow> bool" where
  "from_peer l (Frame from x) = (from \<noteq> self (lNode l))"
| "from_peer l i = True"

inductive moves :: "(NodeID \<Rightarrow> Envelope \<Rightarrow> bool) \<Rightarrow> loop \<Rightarrow> loop \<Rightarrow> bool" for hook where
  stay: "moves hook l l"
| input: "moves hook l0 l \<Longrightarrow> from_peer l i \<Longrightarrow> input_step hook i l = Some l' \<Longrightarrow> moves hook l0 l'"
| run: "moves hook l0 l \<Longrightarrow> Run e l = Some l' \<Longrightarrow> moves hook l0 l'"
| turn: "moves hook l0 l \<Longrightarrow> iterate e c l = Some l' \<Longrightarrow> moves hook l0 l'"

section \<open>Goroutines and effects\<close>

lemma added_new: "nTrace n' = new @ nTrace n \<Longrightarrow> added n n' = rev new"
  by (simp add: added_def)

lemma rounds_append [simp]: "rounds (xs @ ys) = rounds xs @ rounds ys"
  by (simp add: rounds_def)

lemma rounds_rev_Nil [simp]: "rounds (rev xs) = [] \<longleftrightarrow> rounds xs = []"
  by (auto simp: rounds_def)

lemma launched_append [simp]: "launched_in (xs @ ys) = launched_in xs @ launched_in ys"
  by (simp add: launched_in_def)

lemma length_launched: "length (launched_in xs) = length (filter (\<lambda>ef. case ef of Launched t w \<Rightarrow> True | _ \<Rightarrow> False) xs)"
  by (induction xs) (auto simp: launched_in_def split: effect.splits)

lemma settle_evolves:
  assumes "evolves (lNode l) n'"
  shows "lRound (settle_in n' l) = lRound l"
    "int (length (lTasks (settle_in n' l))) = int (length (lTasks l)) + (inflight (nTasks n') - inflight (nTasks (lNode l)))"
proof -
  obtain new where new: "nTrace n' = new @ nTrace (lNode l)" using evolves_monotone[OF assms] by blast
  have "rounds new = []" using evolves_fixed[OF assms] new by simp
  then show "lRound (settle_in n' l) = lRound l"
    by (simp add: settle_in_def Let_def added_new[OF new] started_in_def rounds_rev_Nil[THEN iffD2])
  have "launches n' = int (length (launched_in (rev new))) + launches (lNode l)"
    by (simp add: launches_def new length_launched rev_filter[symmetric])
  moreover have "inflight (nTasks n') - launches n' = inflight (nTasks (lNode l)) - launches (lNode l)"
    using evolves_launches[OF assms] by simp
  ultimately show "int (length (lTasks (settle_in n' l))) = int (length (lTasks l)) + (inflight (nTasks n') - inflight (nTasks (lNode l)))"
    by (simp add: settle_in_def Let_def added_new[OF new])
qed

lemma settle_fields [simp]:
  "lNode (settle_in n' l) = n'" "lRunning (settle_in n' l) = lRunning l" "lCancelled (settle_in n' l) = lCancelled l"
  "lStopped (settle_in n' l) = lStopped l" "lCtrl (settle_in n' l) = lCtrl l" "lData (settle_in n' l) = lData l"
  "lOutcomes (settle_in n' l) = lOutcomes l" "lOpen (settle_in n' l) = lOpen l"
  by (simp_all add: settle_in_def Let_def)

lemma settle_node: "nTrace k = nTrace (lNode l) \<Longrightarrow> settle_in n' (l\<lparr>lNode := k\<rparr>) = settle_in n' l"
  by (simp add: settle_in_def added_def Let_def)

section \<open>Accounting\<close>

text \<open>
  The loop counts its goroutines without ever joining one: \<open>inflight\<close> is the number of task goroutines plus the
  outcomes they have queued, and \<open>probing\<close> says whether a round is in flight.
\<close>

definition accounted :: "loop \<Rightarrow> bool" where
  "accounted l \<longleftrightarrow> inflight (nTasks (lNode l)) = int (length (lTasks l) + length (lOutcomes l)) \<and>
     inflight (nTasks (lNode l)) \<le> maxInflightTasks \<and> (nProbing (lNode l) \<longleftrightarrow> lRound l \<noteq> None) \<and>
     (\<forall>r ts. lRound l = Some (r, ts) \<longrightarrow> list_all (\<lambda>p. fst p \<noteq> self (lNode l)) ts)"

lemma accounted_settle:
  assumes "accounted l" "evolves (lNode l) n'"
  shows "accounted (settle_in n' l)"
  using assms(1) settle_evolves[OF assms(2)] evolves_fixed[OF assms(2)] evolves_launches[OF assms(2)] evolves_self[OF assms(2)]
  by (auto simp: accounted_def)

lemma accounted_update [simp]:
  "accounted (l\<lparr>lCtrl := q\<rparr>) = accounted l" "accounted (l\<lparr>lData := q\<rparr>) = accounted l"
  "accounted (l\<lparr>lEvents := es\<rparr>) = accounted l" "accounted (l\<lparr>lOpen := b\<rparr>) = accounted l"
  "accounted (l\<lparr>lClosed := b\<rparr>) = accounted l" "accounted (l\<lparr>lDropped := d\<rparr>) = accounted l"
  "accounted (l\<lparr>lTune := b\<rparr>) = accounted l" "accounted (l\<lparr>lRunning := b\<rparr>) = accounted l"
  "accounted (l\<lparr>lCancelled := b\<rparr>) = accounted l" "accounted (l\<lparr>lReplies := rs\<rparr>) = accounted l"
  "accounted (l\<lparr>lSubmits := ss\<rparr>) = accounted l"
  by (simp_all add: accounted_def)

lemma accounted_flush: "accounted l \<Longrightarrow> accounted (flush e l)"
  unfolding flush_def by (rule accounted_settle) (auto intro: evo)

lemma accounted_probe: "accounted l \<Longrightarrow> accounted (settle_in (startProbeRound (lNode l)) l)"
proof (cases "nProbing (lNode l)")
  case True
  assume "accounted l"
  then show ?thesis using True by (intro accounted_settle) (auto simp: startProbeRound_def intro: evo)
next
  case False
  assume "accounted l"
  then show ?thesis using False
    by (auto simp: accounted_def settle_in_def Let_def added_def startProbeRound_def emit_def started_in_def
        launched_in_def rounds_def self_def list_all_iff)
qed

lemma accounted_round:
  assumes "accounted l" "lRound l = Some (r, ts)"
  shows "accounted (settle_in (evaluate e (applyProbeRound e r results (lNode l))) (l\<lparr>lRound := None\<rparr>))"
proof -
  let ?l = "l\<lparr>lRound := None, lNode := (lNode l)\<lparr>nProbing := False\<rparr>\<rparr>"
  let ?n = "evaluate e (applyProbeRound e r results (lNode l))"
  have "accounted ?l" using assms by (simp add: accounted_def self_def)
  moreover have "evolves (lNode ?l) ?n" by (simp add: evolves_evaluate evolves_applyProbeRound)
  ultimately have "accounted (settle_in ?n ?l)" by (rule accounted_settle)
  then show ?thesis using settle_node[of "(lNode l)\<lparr>nProbing := False\<rparr>" "l\<lparr>lRound := None\<rparr>" ?n] by simp
qed

lemma accounted_outcome:
  assumes "accounted l" "lOutcomes l = (w, res) # q"
  shows "accounted (settle_in (handleTaskOutcome e w res (lNode l)) (l\<lparr>lOutcomes := q\<rparr>))"
proof -
  let ?l = "l\<lparr>lOutcomes := q, lNode := ended (lNode l)\<rparr>"
  let ?n = "handleTaskOutcome e w res (lNode l)"
  have "accounted ?l" using assms by (simp add: accounted_def self_def ended_def)
  moreover have "evolves (lNode ?l) ?n" by (simp add: evolves_outcome)
  ultimately have "accounted (settle_in ?n ?l)" by (rule accounted_settle)
  then show ?thesis using settle_node[of "ended (lNode l)" "l\<lparr>lOutcomes := q\<rparr>" ?n] by (simp add: ended_def)
qed

lemma accounted_branch:
  assumes "accounted l" "branch e c l = Some (l', b)"
  shows "accounted l'"
proof (cases c)
  case (OnRound results)
  then show ?thesis using assms accounted_round[OF assms(1)] by (auto split: option.splits if_splits)
next
  case OnOutcome
  then show ?thesis using assms accounted_outcome[OF assms(1)] by (auto split: list.splits)
next
  case OnProbeTick
  then show ?thesis using assms accounted_probe[OF assms(1)] by auto
qed (use assms in \<open>auto intro!: accounted_settle evo simp: Let_def case_prod_beta split: list.splits if_splits\<close>)

lemma accounted_finish:
  assumes "accounted l" "finish_task i out s f l = Some l'"
  shows "accounted l'"
  using assms length_delete_at[of i "lTasks l"]
  by (auto simp: finish_task_def Let_def case_prod_beta accounted_def split: if_splits)

lemma accounted_input:
  assumes "accounted l" "input_step hook i l = Some l'"
  shows "accounted l'"
proof (cases i)
  case (TaskFinished k out s f)
  then show ?thesis using assms accounted_finish by simp
next
  case (Tuned th hy)
  have "accounted (l\<lparr>lNode := SetElectionParams th hy (lNode l), lTune := True\<rparr>)"
    using assms(1) by (simp add: accounted_def SetElectionParams_def Let_def self_def)
  then show ?thesis using Tuned assms by (auto split: if_splits)
next
  case (ChaosDelay d)
  have "accounted (l\<lparr>lNode := SetChaosDelay d (lNode l)\<rparr>)"
    using assms(1) by (simp add: accounted_def SetChaosDelay_def self_def)
  then show ?thesis using ChaosDelay assms by auto
qed (use assms in \<open>auto simp: Handler_def split: if_splits\<close>)

section \<open>The invariant of a run\<close>

text \<open>The queues are bounded and hold frames of peers only; until the node stops, its goroutines are accounted for.\<close>

definition loop_ok :: "loop \<Rightarrow> bool" where
  "loop_ok l \<longleftrightarrow> node_ok (lNode l) \<and> (\<not> lStopped l \<longrightarrow> accounted l) \<and>
     length (lCtrl l) \<le> queue_depth l \<and> length (lData l) \<le> queue_depth l \<and>
     list_all (\<lambda>f. fst f \<noteq> self (lNode l)) (lCtrl l @ lData l)"

lemma fixed_cfg_depth: "queue_depth l = nat (ncQueueDepth (fixed_cfg (lNode l)))"
  by (simp add: queue_depth_def fixed_cfg_def)

lemma depth_evolves: "evolves (lNode l) (lNode l') \<Longrightarrow> queue_depth l' = queue_depth l"
  using evolves_fixed by (metis fixed_cfg_depth)

lemma nprobing_evolves: "evolves n m \<Longrightarrow> fixed_cfg k = fixed_cfg n \<Longrightarrow> fixed_cfg m = fixed_cfg k"
  using evolves_fixed by metis

lemma branch_node:
  assumes "branch e c l = Some (l', b)"
  shows "fixed_cfg (lNode l') = fixed_cfg (lNode l)"
    "set (lCtrl l') \<subseteq> set (lCtrl l)" "set (lData l') \<subseteq> set (lData l)"
    "length (lCtrl l') \<le> length (lCtrl l)" "length (lData l') \<le> length (lData l)"
    "lStopped l' = lStopped l" "lRunning l' = lRunning l" "lCancelled l' = lCancelled l"
proof -
  have "fixed_cfg (lNode l') = fixed_cfg (lNode l)"
  proof (cases c)
    case (OnRound results)
    then show ?thesis using assms
        evolves_fixed[OF evolves_evaluate[OF evolves_applyProbeRound]]
      by (auto simp: fixed_cfg_def split: option.splits if_splits)
  next
    case OnOutcome
    then show ?thesis using assms evolves_fixed[OF evolves_outcome]
      by (auto simp: fixed_cfg_def ended_def split: list.splits)
  next
    case OnProbeTick
    then show ?thesis using assms by (auto simp: fixed_cfg_def startProbeRound_def Let_def)
  qed (use assms in \<open>auto intro!: evolves_fixed[THEN conjunct1] evo simp: Let_def case_prod_beta split: list.splits if_splits\<close>)
  then show "fixed_cfg (lNode l') = fixed_cfg (lNode l)" .
qed (use assms in \<open>cases c; auto simp: Let_def case_prod_beta split: list.splits option.splits if_splits\<close>)+

lemma branch_ok:
  assumes "loop_ok l" "\<not> lStopped l" "branch e c l = Some (l', b)"
  shows "node_ok (lNode l')"
proof (cases c)
  case (OnRound results)
  then obtain r ts where r: "lRound l = Some (r, ts)" "fset (fmdom results) = fst ` set ts"
    using assms(3) by (auto split: option.splits if_splits)
  then have "self (lNode l) |\<notin>| fmdom results"
    using assms(1,2) by (force simp: loop_ok_def accounted_def list_all_iff)
  then show ?thesis using OnRound r assms by (auto simp: loop_ok_def evaluate_ok applyProbeRound_ok)
next
  case (OnSubmit i)
  have "node_ok (fst (submit e t (lNode l)))" for t
    using assms(1) by (simp add: loop_ok_def submit_def leadTask_ok case_prod_beta sendTask_def)
  then show ?thesis using OnSubmit assms(3) by (auto simp: Let_def case_prod_beta split: if_splits)
next
  case OnCtrl
  then show ?thesis using assms by (auto simp: loop_ok_def intro!: handleFrame_ok split: list.splits)
next
  case OnData
  then show ?thesis using assms by (auto simp: loop_ok_def intro!: handleFrame_ok split: list.splits)
qed (use assms in \<open>auto simp: loop_ok_def handlePeerEvent_ok evaluate_ok controlTick_ok applyTuning_ok
      split: list.splits if_splits\<close>)

lemma iterate_ok:
  assumes "loop_ok l" "iterate e c l = Some l'"
  shows "loop_ok l'"
proof -
  have run: "\<not> lStopped l" using assms(2) by (auto simp: iterate_def split: if_splits)
  show ?thesis
  proof (cases "lCancelled l")
    case True
    then have "l' = shutdown e l" using assms(2) by (auto simp: iterate_def split: if_splits)
    moreover have "evolves (lNode l) (lNode (shutdown e l))" by (auto simp: shutdown_def intro!: evo)
    ultimately show ?thesis using assms(1) depth_evolves[of l "shutdown e l"] evolves_self[of "lNode l" "lNode (shutdown e l)"]
      by (simp add: loop_ok_def) (simp add: shutdown_def)
  next
    case False
    then obtain l1 b where b: "branch e c l = Some (l1, b)" "l' = (if b then flush e l1 else l1)"
      using assms(2) by (auto simp: iterate_def split: if_splits option.splits)
    have f: "fixed_cfg (lNode (flush e l1)) = fixed_cfg (lNode l1)" unfolding flush_def by (auto intro!: evolves_fixed[THEN conjunct1] evo)
    have 1: "node_ok (lNode l')" using branch_ok[OF assms(1) run b(1)] b(2) by (simp add: flush_def)
    have 2: "accounted l'"
      using accounted_branch[OF _ b(1)] accounted_flush assms(1) run b(2) by (simp add: loop_ok_def)
    have 3: "fixed_cfg (lNode l') = fixed_cfg (lNode l)" using branch_node(1)[OF b(1)] b(2) f by simp
    have 4: "lCtrl l' = lCtrl l1" "lData l' = lData l1" using b(2) by (simp_all add: flush_def)
    show ?thesis
      using assms(1) 1 2 branch_node(2-5)[OF b(1)] 4
      by (auto simp: loop_ok_def fixed_cfg_depth 3 fixed_cfg_self list_all_iff)
  qed
qed

lemma input_ok:
  assumes "loop_ok l" "from_peer l i" "input_step hook i l = Some l'"
  shows "loop_ok l'"
proof (cases i)
  case (Frame w x)
  then show ?thesis using assms
    by (auto simp: loop_ok_def Handler_def queue_depth_def split: if_splits)
next
  case (TaskFinished k out s f)
  then have fin: "finish_task k out s f l = Some l'" using assms(3) by simp
  then have same: "lNode l' = lNode l" "lCtrl l' = lCtrl l" "lData l' = lData l" "lStopped l' = lStopped l"
    by (auto simp: finish_task_def Let_def case_prod_beta split: if_splits)
  then show ?thesis using assms(1) accounted_finish[OF _ fin] by (simp add: loop_ok_def queue_depth_def)
next
  case (Tuned th hy)
  have "loop_ok (l\<lparr>lNode := SetElectionParams th hy (lNode l), lTune := True\<rparr>)"
    using assms(1) by (auto simp: loop_ok_def accounted_def SetElectionParams_def Let_def self_def queue_depth_def)
  then show ?thesis using Tuned assms by (auto split: if_splits)
next
  case (ChaosDelay d)
  have "loop_ok (l\<lparr>lNode := SetChaosDelay d (lNode l)\<rparr>)"
    using assms(1) by (auto simp: loop_ok_def accounted_def SetChaosDelay_def self_def queue_depth_def)
  then show ?thesis using ChaosDelay assms by auto
qed (use assms in \<open>auto simp: loop_ok_def queue_depth_def split: if_splits\<close>)

lemma run_ok:
  assumes "loop_ok l" "Run e l = Some l'"
  shows "loop_ok l'"
proof -
  let ?n = "evaluate e (applyTuning e (lNode l))"
  have ev: "evolves (lNode l) ?n" by (auto intro!: evo)
  have l': "l' = settle_in ?n (l\<lparr>lRunning := True\<rparr>)" using assms(2) by (auto simp: Run_def split: if_splits)
  have "accounted l \<Longrightarrow> accounted l'" unfolding l' by (rule accounted_settle) (simp_all add: ev)
  moreover have "queue_depth l' = queue_depth l" using depth_evolves[of l l'] ev by (simp add: l')
  ultimately show ?thesis
    using assms(1) evolves_self[OF ev] by (simp add: loop_ok_def l' evaluate_ok applyTuning_ok)
qed

lemma idle_ok:
  assumes "NewNode cfg = Inr n"
  shows "loop_ok (idle n)"
proof -
  have "inflight (nTasks n) = 0" "\<not> nProbing n"
    using assms by (auto simp: NewNode_def newState_def Let_def split: if_splits)
  then show ?thesis using NewNode_ok[OF assms] by (simp add: loop_ok_def idle_def accounted_def maxInflightTasks_def)
qed

lemma moves_ok: "moves hook l0 l \<Longrightarrow> loop_ok l0 \<Longrightarrow> loop_ok l"
  by (induction rule: moves.induct) (auto intro: input_ok run_ok iterate_ok)

section \<open>A run only moves forward\<close>

definition later :: "node \<Rightarrow> node \<Rightarrow> bool" where
  "later n m \<longleftrightarrow> nIncarnation n \<le> nIncarnation m \<and> nHighWater n \<le> nHighWater m \<and> fixed_cfg m = fixed_cfg n \<and>
     (\<exists>new. nTrace m = new @ nTrace n)"

lemma later_refl: "later n n"
  by (simp add: later_def)

lemma later_trans: "later a b \<Longrightarrow> later b c \<Longrightarrow> later a c"
  by (auto simp: later_def)

lemma later_evolves: "evolves n m \<Longrightarrow> later n m"
  using evolves_monotone evolves_fixed by (auto simp: later_def)

lemma later_start: "later n (startProbeRound n)"
  by (simp add: later_def startProbeRound_def Let_def emit_def fixed_cfg_def)

lemma later_round: "later n (evaluate e (applyProbeRound e r rs n))"
proof -
  have "later (n\<lparr>nProbing := False\<rparr>) (evaluate e (applyProbeRound e r rs n))"
    by (intro later_evolves evolves_evaluate evolves_applyProbeRound)
  then show ?thesis by (simp add: later_def fixed_cfg_def)
qed

lemma later_outcome: "later n (handleTaskOutcome e w res n)"
  using later_evolves[OF evolves_outcome, of n e w res] by (simp add: later_def fixed_cfg_def ended_def)

lemma later_branch:
  assumes "branch e c l = Some (l', b)"
  shows "later (lNode l) (lNode l')"
proof (cases c)
  case (OnRound results)
  then show ?thesis using assms later_round by (auto split: option.splits if_splits)
next
  case OnOutcome
  then show ?thesis using assms later_outcome by (auto split: list.splits)
next
  case OnProbeTick
  then show ?thesis using assms later_start by auto
qed (use assms in \<open>auto intro!: later_refl later_evolves evo simp: Let_def case_prod_beta split: list.splits if_splits\<close>)

lemma later_input:
  assumes "input_step hook i l = Some l'"
  shows "later (lNode l) (lNode l')"
  using assms
  by (cases i) (auto intro!: later_refl later_evolves evo simp: Handler_def finish_task_def Let_def case_prod_beta split: if_splits)

lemma later_iterate:
  assumes "iterate e c l = Some l'"
  shows "later (lNode l) (lNode l')"
proof (cases "lCancelled l")
  case True
  then have "l' = shutdown e l" using assms by (auto simp: iterate_def split: if_splits)
  then show ?thesis by (auto simp: shutdown_def intro!: later_evolves evo)
next
  case False
  then obtain l1 b where b: "branch e c l = Some (l1, b)" "l' = (if b then flush e l1 else l1)"
    using assms by (auto simp: iterate_def split: if_splits option.splits)
  have "later (lNode l1) (lNode (flush e l1))" by (auto simp: flush_def intro!: later_evolves evo)
  then show ?thesis using later_branch[OF b(1)] b(2) later_trans by (auto intro: later_refl)
qed

section \<open>Runs as functions\<close>

text \<open>A run as the list of its steps, which makes it a function and lets frames be counted.\<close>

datatype step = In input | Start env | Turn env turn

fun perform :: "(NodeID \<Rightarrow> Envelope \<Rightarrow> bool) \<Rightarrow> step \<Rightarrow> loop \<Rightarrow> loop option" where
  "perform hook (In i) l = (if from_peer l i then input_step hook i l else None)"
| "perform hook (Start e) l = Run e l"
| "perform hook (Turn e c) l = iterate e c l"

fun runs :: "(NodeID \<Rightarrow> Envelope \<Rightarrow> bool) \<Rightarrow> step list \<Rightarrow> loop \<Rightarrow> loop option" where
  "runs hook [] l = Some l"
| "runs hook (s # ss) l = (case perform hook s l of None \<Rightarrow> None | Some l' \<Rightarrow> runs hook ss l')"

lemma runs_snoc: "runs hook (ss @ [s]) l = (case runs hook ss l of None \<Rightarrow> None | Some l' \<Rightarrow> perform hook s l')"
  by (induction ss arbitrary: l) (auto split: option.splits)

lemma moves_iff_runs: "moves hook l0 l \<longleftrightarrow> (\<exists>ss. runs hook ss l0 = Some l)"
proof
  assume "moves hook l0 l"
  then show "\<exists>ss. runs hook ss l0 = Some l"
  proof (induction rule: moves.induct)
    case (stay l)
    show ?case by (rule exI[of _ "[]"]) simp
  next
    case (input l0 l i l')
    then obtain ss where "runs hook ss l0 = Some l" by blast
    then show ?case using input by (intro exI[of _ "ss @ [In i]"]) (simp add: runs_snoc)
  next
    case (run l0 l e l')
    then obtain ss where "runs hook ss l0 = Some l" by blast
    then show ?case using run by (intro exI[of _ "ss @ [Start e]"]) (simp add: runs_snoc)
  next
    case (turn l0 l e c l')
    then obtain ss where "runs hook ss l0 = Some l" by blast
    then show ?case using turn by (intro exI[of _ "ss @ [Turn e c]"]) (simp add: runs_snoc)
  qed
next
  assume "\<exists>ss. runs hook ss l0 = Some l"
  then obtain ss where "runs hook ss l0 = Some l" by blast
  then show "moves hook l0 l"
  proof (induction ss arbitrary: l rule: rev_induct)
    case (snoc s ss)
    then obtain l1 where l1: "moves hook l0 l1" "perform hook s l1 = Some l"
      by (auto simp: runs_snoc split: option.splits)
    then show ?case by (cases s) (auto intro: moves.intros split: if_splits)
  qed (simp add: stay)
qed

text \<open>The frames of one plane that readers have delivered and the hook has let through, and the turns that took one.\<close>

definition arrivals :: "(NodeID \<Rightarrow> Envelope \<Rightarrow> bool) \<Rightarrow> bool \<Rightarrow> step list \<Rightarrow> inboundFrame list" where
  "arrivals hook data ss = concat (map (\<lambda>s. case s of In (Frame w x) \<Rightarrow>
     if \<not> hook w x \<and> IsDataPlane (eType x) = data then [(w, x)] else [] | _ \<Rightarrow> []) ss)"

definition taken :: "turn \<Rightarrow> step list \<Rightarrow> nat" where
  "taken c ss = length (filter (\<lambda>s. case s of Turn e c' \<Rightarrow> c' = c | _ \<Rightarrow> False) ss)"

lemma arrivals_snoc [simp]: "arrivals hook d (ss @ [s]) = arrivals hook d ss @ arrivals hook d [s]"
  and taken_snoc [simp]: "taken c (ss @ [s]) = taken c ss + taken c [s]"
  by (simp_all add: arrivals_def taken_def)

lemma stopped_stays:
  assumes "perform hook s l = Some l'" "lStopped l" shows "lStopped l'"
proof (cases s)
  case (In i)
  then show ?thesis using assms
    by (cases i) (auto simp: Handler_def finish_task_def Let_def case_prod_beta split: if_splits)
qed (use assms in \<open>auto simp: Run_def iterate_def split: if_splits\<close>)

text \<open>What one step does to a queue.\<close>

lemma control_step:
  assumes "perform hook s l = Some l'" "\<not> lStopped l'"
  shows "\<exists>handled. lCtrl l @ arrivals hook False [s] = handled @ lCtrl l' \<and> length handled = taken OnCtrl [s]"
proof (cases s)
  case (In i)
  then show ?thesis using assms
    by (cases i) (auto simp: Handler_def finish_task_def Let_def case_prod_beta arrivals_def taken_def split: if_splits)
next
  case (Start e)
  then show ?thesis using assms by (auto simp: Run_def arrivals_def taken_def split: if_splits)
next
  case (Turn e c)
  then have "\<not> lCancelled l" using assms by (auto simp: iterate_def shutdown_def split: if_splits)
  then obtain l1 b where b: "branch e c l = Some (l1, b)" "l' = (if b then flush e l1 else l1)"
    using Turn assms by (auto simp: iterate_def split: if_splits option.splits)
  have "lCtrl l' = lCtrl l1" using b(2) by (simp add: flush_def)
  moreover have "if c = OnCtrl then \<exists>f. lCtrl l = f # lCtrl l1 else lCtrl l = lCtrl l1"
    using b(1) by (cases c) (auto simp: Let_def case_prod_beta split: list.splits option.splits if_splits)
  ultimately show ?thesis using Turn
    by (cases "c = OnCtrl") (auto simp: arrivals_def taken_def intro: exI[of _ "[_]"])
qed

lemma data_step:
  assumes "perform hook s l = Some l'" "\<not> lStopped l'"
  shows "length (lData l') + lDropped l' + taken OnData [s] = length (lData l) + lDropped l + length (arrivals hook True [s])"
proof (cases s)
  case (In i)
  then show ?thesis using assms
    by (cases i) (auto simp: Handler_def finish_task_def Let_def case_prod_beta arrivals_def taken_def split: if_splits)
next
  case (Start e)
  then show ?thesis using assms by (auto simp: Run_def arrivals_def taken_def settle_in_def Let_def split: if_splits)
next
  case (Turn e c)
  then have "\<not> lCancelled l" using assms by (auto simp: iterate_def shutdown_def split: if_splits)
  then obtain l1 b where b: "branch e c l = Some (l1, b)" "l' = (if b then flush e l1 else l1)"
    using Turn assms by (auto simp: iterate_def split: if_splits option.splits)
  have "lData l' = lData l1" "lDropped l' = lDropped l1" using b(2) by (simp_all add: flush_def settle_in_def Let_def)
  moreover have "lDropped l1 = lDropped l"
    using b(1) by (cases c) (auto simp: Let_def case_prod_beta settle_in_def split: list.splits option.splits if_splits)
  moreover have "if c = OnData then \<exists>f. lData l = f # lData l1 else lData l = lData l1"
    using b(1) by (cases c) (auto simp: Let_def case_prod_beta split: list.splits option.splits if_splits)
  ultimately show ?thesis using Turn
    by (cases "c = OnData") (auto simp: arrivals_def taken_def)
qed

lemma applyTuning_none:
  assumes "nTunePending n = \<lparr>tuThreshold = None, tuHysteresis = None\<rparr>"
  shows "applyTuning e n = n"
  using assms by (simp add: applyTuning_def takeTuning_def)

section \<open>Properties\<close>

definition ex_started :: loop where
  "ex_started = settle_in (evaluate ex_envr (applyTuning ex_envr ex_node)) (idle ex_node\<lparr>lRunning := True\<rparr>)"

lemma ex_started_run: "Run ex_envr (idle ex_node) = Some ex_started"
  by (simp add: Run_def ex_started_def idle_def)

lemma ex_started_node: "lNode ex_started = evaluate ex_envr ex_node"
  using applyTuning_none[of ex_node] by (simp add: ex_started_def) (simp add: ex_node_def newState_def)

lemma ex_started_simps:
  "lRunning ex_started" "\<not> lStopped ex_started" "\<not> lCancelled ex_started" "lCtrl ex_started = []"
  by (simp_all add: ex_started_def idle_def)

lemma ex_started_moves: "moves (\<lambda>w x. False) (idle ex_node) ex_started"
  by (rule moves.run[OF moves.stay ex_started_run])

text \<open>C10: The node invariant survives every interleaving of frames, peer events, timers, probe rounds, task results,
  submissions and overrides: at every point of a run the node's own record is alive at its own incarnation and address
  and shows the role it holds, it leads exactly when it is its own leader, only a leader has attached workers,
  it never suspects itself, and its ledger is within its bound.\<close>

theorem node_invariant:
  assumes "NewNode cfg = Inr n" "moves hook (idle n) l"
  shows "node_ok (lNode l)"
  using moves_ok[OF assms(2) idle_ok[OF assms(1)]] by (simp add: loop_ok_def)

theorem node_invariant_witness:
  "node_ok (evaluate ex_envr (applyTuning ex_envr ex_node))"
  using node_invariant[OF ex_node_new ex_started_moves] by (simp add: ex_started_def)

text \<open>A run only moves forward. Between any two points of a run the node's incarnation and the largest cluster it has seen
  do not decrease, what it has sent and started is never taken back, and its configuration changes in its election
  parameters alone.\<close>

theorem run_moves_forward:
  assumes "moves hook l0 l"
  shows "later (lNode l0) (lNode l)"
  using assms
proof (induction rule: moves.induct)
  case (run l0 l e l')
  then have "lNode l' = evaluate e (applyTuning e (lNode l))" by (auto simp: Run_def split: if_splits)
  then have "later (lNode l) (lNode l')" by (auto intro!: later_evolves evo)
  then show ?case using run later_trans by blast
qed (use later_refl later_trans later_input later_iterate in blast)+

theorem run_moves_forward_witness:
  "nHighWater (lNode (idle ex_node)) \<le> nHighWater (evaluate ex_envr ex_node)"
  using run_moves_forward[OF ex_started_moves] by (simp add: later_def ex_started_node)



text \<open>C13: Frames are conserved. Until the node stops, the control frames delivered by the readers are the ones the loop has
  handled followed by the ones still queued, in order of arrival, so none is lost; a data frame is handled, queued, or counted
  in \<open>dropped\<close>. Neither queue exceeds its depth.\<close>

theorem frames_conserved:
  assumes "NewNode cfg = Inr n" "runs hook ss (idle n) = Some l" "\<not> lStopped l"
  shows "(\<exists>handled. arrivals hook False ss = handled @ lCtrl l \<and> length handled = taken OnCtrl ss) \<and>
    length (arrivals hook True ss) = taken OnData ss + length (lData l) + lDropped l \<and>
    length (lCtrl l) \<le> queue_depth l \<and> length (lData l) \<le> queue_depth l"
proof -
  have "(\<exists>handled. arrivals hook False ss = handled @ lCtrl l \<and> length handled = taken OnCtrl ss) \<and>
    length (arrivals hook True ss) = taken OnData ss + length (lData l) + lDropped l"
    using assms(2,3)
  proof (induction ss arbitrary: l rule: rev_induct)
    case Nil
    then show ?case by (auto simp: idle_def arrivals_def taken_def)
  next
    case (snoc s ss)
    then obtain l1 where l1: "runs hook ss (idle n) = Some l1" "perform hook s l1 = Some l"
      by (auto simp: runs_snoc split: option.splits)
    have "\<not> lStopped l1" using stopped_stays[OF l1(2)] snoc.prems(2) by blast
    then obtain h1 where h1: "arrivals hook False ss = h1 @ lCtrl l1" "length h1 = taken OnCtrl ss"
      "length (arrivals hook True ss) = taken OnData ss + length (lData l1) + lDropped l1"
      using snoc.IH[OF l1(1)] by blast
    obtain h2 where h2: "lCtrl l1 @ arrivals hook False [s] = h2 @ lCtrl l" "length h2 = taken OnCtrl [s]"
      using control_step[OF l1(2) snoc.prems(2)] by blast
    show ?case
      using h1 h2 data_step[OF l1(2) snoc.prems(2)] by (auto intro!: exI[of _ "h1 @ h2"])
  qed
  moreover have "moves hook (idle n) l" using assms(2) moves_iff_runs by blast
  ultimately show ?thesis using moves_ok[OF _ idle_ok[OF assms(1)]] by (auto simp: loop_ok_def)
qed

theorem frames_conserved_witness:
  "\<exists>l. runs (\<lambda>w x. False) [In (Frame ''a'' ex_env)] (idle ex_node) = Some l \<and> lCtrl l = [(''a'', ex_env)]"
proof -
  have depth: "queue_depth (idle ex_node) = 256"
    by (simp add: queue_depth_def idle_def ex_node_def newState_def ex_cfgN_def NodeConfig_withDefaults_def pos_or_def DefaultQueueDepth_def)
  have ctrl: "\<not> IsDataPlane (eType ex_env)"
    by (simp add: IsDataPlane_def plane_of_def knownTypes_def ex_env_def message_types)
  let ?l = "idle ex_node\<lparr>lCtrl := [(''a'', ex_env)]\<rparr>"
  have r: "runs (\<lambda>w x. False) [In (Frame ''a'' ex_env)] (idle ex_node) = Some ?l"
    using depth ctrl by (simp add: Handler_def) (simp add: idle_def)
  then have "length (arrivals (\<lambda>w x. False) False [In (Frame ''a'' ex_env)]) = length (lCtrl ?l)"
    using frames_conserved[OF ex_node_new r] by (auto simp: idle_def taken_def)
  then show ?thesis using r by auto
qed

text \<open>C14: Cancellation wins over every queue. Once the context is done, the next iteration of a loop that is between events
  broadcasts LEAVE as its last effect, stops, answers every waiting submitter with \<open>ErrStopped\<close> and reads no frame; no
  iteration follows it.\<close>

theorem cancelled_node_leaves:
  assumes "lRunning l" "\<not> lStopped l" "\<not> nHung (lNode l)" "lCancelled l"
  shows "\<exists>l' x. iterate e c l = Some l' \<and> nTrace (lNode l') = Broadcasted x # nTrace (lNode l) \<and> eType x = TypeLeave \<and>
    lCtrl l' = lCtrl l \<and> lData l' = lData l \<and> lTasks l' = [] \<and>
    lReplies l' = replicate (length (lSubmits l)) ErrStopped @ lReplies l \<and> (iterate e' c' l' = None)"
  using assms
  by (simp add: iterate_def shutdown_def broadcast_def newEnvelope_def NewEnvelope_def emit_def publish_def Let_def case_prod_beta)

theorem cancelled_node_leaves_witness:
  "\<exists>l'. iterate ex_envr OnCtrl (ex_started\<lparr>lCancelled := True, lCtrl := [(''a'', ex_env)]\<rparr>) = Some l' \<and>
     lCtrl l' = [(''a'', ex_env)] \<and> (\<exists>x. hd (nTrace (lNode l')) = Broadcasted x \<and> eType x = TypeLeave)"
proof -
  have "\<not> nHung (lNode ex_started)" by (simp add: ex_started_node)
  then show ?thesis
    using cancelled_node_leaves[of "ex_started\<lparr>lCancelled := True, lCtrl := [(''a'', ex_env)]\<rparr>" ex_envr OnCtrl ex_envr OnCtrl]
    by (auto simp: ex_started_def idle_def)
qed

lemma boot_result:
  assumes "NewNode cfg = Inr n"
  shows "Leaders (result n) = [self n]" "nTunePending n = \<lparr>tuThreshold = None, tuHysteresis = None\<rparr>" "nTerm n = 0" "nLeaders n = []"
proof -
  let ?m = "\<lparr>mID = self n, mAddr = ncAdvertise (nCfg n), mRole = RoleWorker, mState = StateAlive,
    mIncarnation = ncIncarnation (nCfg n), mScore = ScoreUnavailable, mSeq = 1\<rparr>"
  have n: "nTable n = fst (Upsert NewTable ?m)"
    using assms by (auto simp: NewNode_def newState_def Let_def self_def split: if_splits)
  have v: "Members (snapshot n) = [?m]"
    by (simp add: snapshot_def n Snapshot_def Upsert_def NewTable_def store_def fm_vals_def fm_keys_def
        sorted_list_of_fset.rep_eq sort_by_def)
  have "\<not> IsValidScore (scoreOf (View_Scores (snapshot n)) (self n))"
    by (simp add: View_Scores_def v scoreOf_def)
  then show "Leaders (result n) = [self n]"
    by (simp add: Elect_def electorate_def v ranked_of_def eligible_of_def sortIDs_def Let_def sort_by_def)
qed (use assms in \<open>auto simp: NewNode_def newState_def Let_def split: if_splits\<close>)

text \<open>A node that has met nobody leads itself. Before \<open>Run\<close> takes its first event the node has elected itself, in term 1,
  and says so.\<close>

theorem boots_as_leader:
  assumes "NewNode cfg = Inr n" "Run e (idle n) = Some l"
  shows "isLeader (lNode l) \<and> nLeader (lNode l) = self (lNode l) \<and> nLeaders (lNode l) = [self (lNode l)] \<and> nTerm (lNode l) = 1"
proof -
  have "lNode l = evaluate e n"
    using assms(2) applyTuning_none[OF boot_result(2)[OF assms(1)]] by (auto simp: Run_def idle_def)
  then show ?thesis using boot_result[OF assms(1)] by (simp add: evaluate_fields elected_fields)
qed

theorem boots_as_leader_witness:
  "isLeader (lNode ex_started) \<and> nTerm (lNode ex_started) = 1"
  using boots_as_leader[OF ex_node_new ex_started_run] by blast

section \<open>The trimming loop that never ends\<close>

lemma esc_char_length: "1 \<le> length (esc_char c)"
  by (simp add: esc_char_def Let_def)

lemma render_str_length: "length s \<le> length (render_str s)"
proof -
  have "length s \<le> length (concat (map esc_char s))"
  proof (induction s)
    case (Cons c s)
    then show ?case using esc_char_length[of c] by simp
  qed simp
  then show ?thesis by (simp add: render_str_def)
qed

lemma commas_member: "x \<in> set xs \<Longrightarrow> length x \<le> length (commas xs)"
  using commas_length[of xs] member_le_sum_list[of "length x" "map length xs"] by force

lemma jlen_worker:
  assumes "w \<in> set (ssWorkers p)"
  shows "length w \<le> jlen (enc_StateSync p)"
proof -
  have "length w \<le> length (render (JStr w))" using render_str_length by simp
  also have "\<dots> \<le> length (render (enc_ids (ssWorkers p)))"
    using commas_member[of "render (JStr w)" "map render (map JStr (ssWorkers p))"] assms by (auto simp: enc_ids_def)
  also have "\<dots> \<le> jlen (enc_StateSync p)"
    by (simp add: jlen_def enc_StateSync_def commas_def)
  finally show ?thesis .
qed

lemma flush_hangs:
  assumes "isLeader n" "w |\<in>| nAttached n" "w \<notin> set (sentWorkers (nRepl n))" "syncBudget < length w"
  shows "nHung (flushSync e n)"
proof -
  have w: "w \<in> set (attachedIDs n)" using assms(2) by (simp add: attachedIDs_def)
  then have ne: "attachedIDs n \<noteq> sentWorkers (nRepl n)" "attachedIDs n \<noteq> []" using assms(3) by auto
  have hang: "syncPayload (attachedIDs n) m = None" for m
    unfolding syncPayload_def sync_loop_hangs
    by (rule less_le_trans[OF assms(4)]) (rule jlen_worker, simp add: w)
  show ?thesis using assms(1) ne by (simp add: flushSync_def Let_def sendSync_def hang changed_def)
qed

lemma roleChanged_session: "sentWorkers (nRepl (roleChanged b n)) = []"
  by (simp add: roleChanged_def tasksRoleChanged_def publish_def published_def Let_def)

lemma promoted_session:
  assumes "isLeader (evaluate e n) \<noteq> isLeader n"
  shows "sentWorkers (nRepl (evaluate e n)) = []"
proof (cases "isLeader (settled e n) = isLeader n")
  case False
  then show ?thesis unfolding evaluate_elected by (simp add: roleChanged_session)
qed (use assms evaluate_elected in metis)

text \<open>C11: One JOIN_CLUSTER hangs a leader for good. The name a worker joins under is not bounded, and a roster whose encoding
  alone is over the snapshot budget makes the trimming loop of \<open>syncPayload\<close> run forever with nothing left to drop: the loop
  goroutine never finishes that iteration, so no later event is handled and not even cancellation stops the node. The
  name fits in a frame: the budget is 64 KiB below the frame limit.\<close>

theorem long_join_name_hangs:
  assumes "lRunning l" "\<not> lStopped l" "\<not> lCancelled l" "\<not> nHung (lNode l)" "isLeader (lNode l)"
    and "lCtrl l = (w, x) # q" "eType x = TypeJoinCluster" "PayloadOf dec_JoinCluster x = Some p"
    and "syncBudget < length (jcWorker p)" "jcWorker p \<notin> set (sentWorkers (nRepl (lNode l)))"
  shows "syncBudget + 64 * 1024 = MaxFrameSize \<and>
    (\<exists>l'. iterate e OnCtrl l = Some l' \<and> nHung (lNode l') \<and>
      iterate e' c l' = None \<and> iterate e' c (l'\<lparr>lCancelled := True\<rparr>) = None)"
proof -
  let ?n = "handleJoinCluster e w x p (lNode l)"
  have ne: "jcWorker p \<noteq> ''''" using assms(9) by auto
  have h: "handleFrame e w x (lNode l) = ?n"
    using assms(7,8) by (simp add: handleFrame_def with_payload_def payloadOrPoison_def message_types)
  have "isLeader ?n" "jcWorker p |\<in>| nAttached ?n" "sentWorkers (nRepl ?n) = sentWorkers (nRepl (lNode l))"
    using assms(5) ne by (simp_all add: handleJoinCluster_def Let_def isLeader_def[of "lNode l\<lparr>nAttached := x\<rparr>" for x] split: option.split)
  then have "nHung (flushSync e ?n)" using flush_hangs assms(9,10) by metis
  then show ?thesis
    using assms(1-4,6) by (auto simp: iterate_def h flush_def syncBudget_def MaxFrameSize_def)
qed

theorem long_join_name_hangs_witness:
  "let p = \<lparr>jcWorker = replicate (Suc syncBudget) (CHR ''x''), jcScore = Fin 0\<rparr>;
       x = \<lparr>eVersion = 1, eType = TypeJoinCluster, eFrom = ''a'', eTo = ''w'', eID = ''0f'', eSentAt = 5, ePayload = enc_JoinCluster p\<rparr>
   in \<exists>l'. iterate ex_envr OnCtrl (ex_started\<lparr>lCtrl := [(''a'', x)]\<rparr>) = Some l' \<and> nHung (lNode l')"
proof -
  let ?p = "\<lparr>jcWorker = replicate (Suc syncBudget) (CHR ''x''), jcScore = Fin 0\<rparr>"
  let ?x = "\<lparr>eVersion = 1, eType = TypeJoinCluster, eFrom = ''a'', eTo = ''w'', eID = ''0f'', eSentAt = 5, ePayload = enc_JoinCluster ?p\<rparr>"
  have leads: "isLeader (evaluate ex_envr ex_node)"
    using boot_result[OF ex_node_new] by (simp add: evaluate_fields)
  moreover have "sentWorkers (nRepl (evaluate ex_envr ex_node)) = []"
    by (rule promoted_session) (use leads in \<open>simp add: isLeader_def\<close>)
  moreover have "PayloadOf dec_JoinCluster ?x = Some ?p"
    by (rule dec_enc_JoinCluster[of ?p 0]) (simp_all add: PayloadOf_def overflows_iff)
  moreover have "syncBudget < length (jcWorker ?p)" by simp
  ultimately show ?thesis
    using long_join_name_hangs[of "ex_started\<lparr>lCtrl := [(''a'', ?x)]\<rparr>" "''a''" ?x "[]" ?p ex_envr]
      ex_started_simps ex_started_node
    by (simp del: replicate.simps) blast
qed

end
