(* ===== verification/JsonText.thy ===== *)
theory JsonText
  imports Wire
begin

text \<open>
  The text side of \<open>encoding/json\<close>: the parser \<open>json.Unmarshal\<close> runs before it fills a Go value. Strings are
  byte strings in valid UTF-8, as in \<open>Json\<close>; the nesting limit of 10000 is not modelled. The parser
  recurses on fuel, one unit per value or element; a value of a text of length \<open>n\<close> needs at most \<open>n\<close>
  units (\<open>parse_render\<close>), so \<open>parse_json\<close> never runs out of it on a text it accepts.
\<close>

section \<open>Lexical elements\<close>

definition is_ws :: "char \<Rightarrow> bool" where
  "is_ws c = (c = CHR '' '' \<or> c = CHR 0x09 \<or> c = CHR 0x0A \<or> c = CHR 0x0D)"

definition skip_ws :: "string \<Rightarrow> string" where
  "skip_ws = dropWhile is_ws"

definition is_digit :: "char \<Rightarrow> bool" where
  "is_digit c = (let n = of_char c :: nat in 48 \<le> n \<and> n \<le> 57)"

definition digit_val :: "char \<Rightarrow> nat" where
  "digit_val c = of_char c - 48"

definition digits_val :: "string \<Rightarrow> nat" where
  "digits_val ds = foldl (\<lambda>acc c. 10 * acc + digit_val c) 0 ds"

definition hex_val :: "char \<Rightarrow> nat option" where
  "hex_val c = (let n = of_char c :: nat in
     if 48 \<le> n \<and> n \<le> 57 then Some (n - 48)
     else if 97 \<le> n \<and> n \<le> 102 then Some (n - 87)
     else if 65 \<le> n \<and> n \<le> 70 then Some (n - 55)
     else None)"

definition hex4 :: "char \<Rightarrow> char \<Rightarrow> char \<Rightarrow> char \<Rightarrow> nat option" where
  "hex4 a b c d = do { w \<leftarrow> hex_val a; x \<leftarrow> hex_val b; y \<leftarrow> hex_val c; z \<leftarrow> hex_val d;
     Some (((w * 16 + x) * 16 + y) * 16 + z) }"

definition utf8 :: "nat \<Rightarrow> string" where
  "utf8 u =
     (if u < 128 then [char_of u]
      else if u < 2048 then [char_of (192 + u div 64), char_of (128 + u mod 64)]
      else if u < 65536 then [char_of (224 + u div 4096), char_of (128 + u div 64 mod 64), char_of (128 + u mod 64)]
      else [char_of (240 + u div 262144), char_of (128 + u div 4096 mod 64), char_of (128 + u div 64 mod 64),
            char_of (128 + u mod 64)])"

definition replacement :: string where "replacement = utf8 65533"

definition simple_escape :: "char \<Rightarrow> char option" where
  "simple_escape c =
     (if c = CHR 0x22 \<or> c = CHR 0x5C \<or> c = CHR ''/'' then Some c
      else if c = CHR ''b'' then Some (CHR 0x08) else if c = CHR ''f'' then Some (CHR 0x0C)
      else if c = CHR ''n'' then Some (CHR 0x0A) else if c = CHR ''r'' then Some (CHR 0x0D)
      else if c = CHR ''t'' then Some (CHR 0x09) else None)"

text \<open>The second half of a surrogate pair, if it follows.\<close>

fun low_half :: "string \<Rightarrow> (nat \<times> string) option" where
  "low_half (s # u # a # b # c # d # r) =
     (if s = CHR 0x5C \<and> u = CHR ''u''
      then (case hex4 a b c d of
              Some l \<Rightarrow> if 56320 \<le> l \<and> l < 57344 then Some (l, r) else None
            | None \<Rightarrow> None)
      else None)"
| "low_half _ = None"

lemma low_half_length: "low_half s = Some (l, r) \<Longrightarrow> length r < length s"
  by (induction s rule: low_half.induct) (auto split: if_splits option.splits)

text \<open>A lone surrogate becomes the replacement character.\<close>

definition code_point :: "nat \<Rightarrow> string \<Rightarrow> string \<times> string" where
  "code_point u r =
     (if u < 55296 \<or> 57344 \<le> u then (utf8 u, r)
      else if u < 56320
      then (case low_half r of
              Some (l, r') \<Rightarrow> (utf8 (65536 + (u - 55296) * 1024 + (l - 56320)), r')
            | None \<Rightarrow> (replacement, r))
      else (replacement, r))"

lemma code_point_length: "length (snd (code_point u r)) \<le> length r"
  using low_half_length[of r] by (auto simp: code_point_def less_imp_le split: option.split)

text \<open>What follows a backslash.\<close>

definition escape_seq :: "string \<Rightarrow> (string \<times> string) option" where
  "escape_seq s =
     (case s of
        [] \<Rightarrow> None
      | d # r \<Rightarrow>
          if d = CHR ''u''
          then (case r of
                  h1 # h2 # h3 # h4 # q \<Rightarrow> map_option (\<lambda>u. code_point u q) (hex4 h1 h2 h3 h4)
                | _ \<Rightarrow> None)
          else map_option (\<lambda>x. ([x], r)) (simple_escape d))"

lemma escape_seq_length: "escape_seq s = Some (t, r) \<Longrightarrow> length r < length s"
proof -
  assume a: "escape_seq s = Some (t, r)"
  have "length r \<le> length q" if "code_point u q = (t, r)" for u q
    using code_point_length[of u q] that by simp
  then show ?thesis using a by (fastforce simp: escape_seq_def split: list.splits if_splits)
qed

text \<open>The contents of a string up to and including the closing quote.\<close>

function parse_chars :: "string \<Rightarrow> (string \<times> string) option" where
  "parse_chars s =
     (case s of
        [] \<Rightarrow> None
      | c # cs \<Rightarrow>
          if c = CHR 0x22 then Some ([], cs)
          else if of_char c < (32 :: nat) then None
          else if c \<noteq> CHR 0x5C then map_option (\<lambda>(t, r). (c # t, r)) (parse_chars cs)
          else (case escape_seq cs of
                  None \<Rightarrow> None
                | Some (x, r) \<Rightarrow> map_option (\<lambda>(t, q). (x @ t, q)) (parse_chars r)))"
  by pat_completeness auto

termination
  by (relation "measure length") (auto dest: escape_seq_length)

declare parse_chars.simps [simp del]

section \<open>Numbers\<close>

definition frac_part :: "string \<Rightarrow> (rat \<times> bool \<times> string) option" where
  "frac_part s =
     (case s of
        c # r \<Rightarrow>
          if c = CHR ''.''
          then let ds = takeWhile is_digit r in
            if ds = [] then None
            else Some (of_nat (digits_val ds) / 10 ^ length ds, True, dropWhile is_digit r)
          else Some (0, False, s)
      | [] \<Rightarrow> Some (0, False, s))"

definition exp_sign :: "string \<Rightarrow> int \<times> string" where
  "exp_sign s =
     (case s of
        c # r \<Rightarrow> if c = CHR ''-'' then (- 1, r) else if c = CHR ''+'' then (1, r) else (1, s)
      | [] \<Rightarrow> (1, s))"

definition exp_part :: "string \<Rightarrow> (int \<times> bool \<times> string) option" where
  "exp_part s =
     (case s of
        c # r \<Rightarrow>
          if c = CHR ''e'' \<or> c = CHR ''E''
          then let (sg, r1) = exp_sign r; ds = takeWhile is_digit r1 in
            if ds = [] then None else Some (sg * int (digits_val ds), True, dropWhile is_digit r1)
          else Some (0, False, s)
      | [] \<Rightarrow> Some (0, False, s))"

definition parse_number :: "string \<Rightarrow> (json \<times> string) option" where
  "parse_number s =
     (let neg = (s \<noteq> [] \<and> hd s = CHR ''-''); s1 = (if neg then tl s else s);
          ds = takeWhile is_digit s1; s2 = dropWhile is_digit s1;
          sg = (if neg then - 1 else 1)
      in if ds = [] \<or> (1 < length ds \<and> hd ds = CHR ''0'') then None
         else do {
           (fr, hasfr, s3) \<leftarrow> frac_part s2;
           (ex, hasex, s4) \<leftarrow> exp_part s3;
           Some (if hasfr \<or> hasex
                 then JDec (f64_of_rat (of_int sg * (of_nat (digits_val ds) + fr) * p10 ex))
                 else JInt (sg * int (digits_val ds)), s4) })"

section \<open>Values\<close>

definition literal :: "string \<Rightarrow> string \<Rightarrow> string option" where
  "literal w s = (if take (length w) s = w then Some (drop (length w) s) else None)"

text \<open>Scalars other than strings.\<close>

definition parse_scalar :: "string \<Rightarrow> (json \<times> string) option" where
  "parse_scalar s =
     (case literal ''null'' s of Some r \<Rightarrow> Some (JNull, r)
      | None \<Rightarrow> (case literal ''true'' s of Some r \<Rightarrow> Some (JBool True, r)
      | None \<Rightarrow> (case literal ''false'' s of Some r \<Rightarrow> Some (JBool False, r)
      | None \<Rightarrow> parse_number s)))"

definition token :: "char \<Rightarrow> string \<Rightarrow> string option" where
  "token c s = (case skip_ws s of [] \<Rightarrow> None | d # r \<Rightarrow> if d = c then Some r else None)"

fun parse_value :: "nat \<Rightarrow> string \<Rightarrow> (json \<times> string) option"
  and parse_elems :: "nat \<Rightarrow> string \<Rightarrow> (json list \<times> string) option"
  and parse_members :: "nat \<Rightarrow> string \<Rightarrow> ((string \<times> json) list \<times> string) option" where
  "parse_value 0 s = None"
| "parse_value (Suc n) s =
     (case token (CHR 0x22) s of
        Some r \<Rightarrow> map_option (\<lambda>(t, q). (JStr t, q)) (parse_chars r)
      | None \<Rightarrow>
     (case token (CHR ''['') s of
        Some r \<Rightarrow> (case token (CHR '']'') r of
                     Some q \<Rightarrow> Some (JArr [], q)
                   | None \<Rightarrow> map_option (\<lambda>(js, q). (JArr js, q)) (parse_elems n r))
      | None \<Rightarrow>
     (case token (CHR ''{'') s of
        Some r \<Rightarrow> (case token (CHR ''}'') r of
                     Some q \<Rightarrow> Some (JObj [], q)
                   | None \<Rightarrow> map_option (\<lambda>(kvs, q). (JObj kvs, q)) (parse_members n r))
      | None \<Rightarrow> parse_scalar (skip_ws s))))"
| "parse_elems 0 s = None"
| "parse_elems (Suc n) s =
     do { (j, r) \<leftarrow> parse_value n s;
          case token (CHR '','') r of
            Some q \<Rightarrow> map_option (\<lambda>(js, t). (j # js, t)) (parse_elems n q)
          | None \<Rightarrow> map_option (\<lambda>q. ([j], q)) (token (CHR '']'') r) }"
| "parse_members 0 s = None"
| "parse_members (Suc n) s =
     do { r0 \<leftarrow> token (CHR 0x22) s;
          (k, r1) \<leftarrow> parse_chars r0;
          r2 \<leftarrow> token (CHR '':'') r1;
          (j, r) \<leftarrow> parse_value n r2;
          case token (CHR '','') r of
            Some q \<Rightarrow> map_option (\<lambda>(kvs, t). ((k, j) # kvs, t)) (parse_members n q)
          | None \<Rightarrow> map_option (\<lambda>q. ([(k, j)], q)) (token (CHR ''}'') r) }"

declare parse_value.simps(2) [simp del] parse_elems.simps(2) [simp del] parse_members.simps(2) [simp del]

definition parse_json :: "string \<Rightarrow> json option" where
  "parse_json s =
     (case parse_value (Suc (length s)) s of
        None \<Rightarrow> None
      | Some (j, r) \<Rightarrow> if skip_ws r = [] then Some j else None)"

section \<open>Parsing what is rendered\<close>

lemma token_hit [simp]: "\<not> is_ws c \<Longrightarrow> token c (c # r) = Some r"
  and token_miss [simp]: "\<not> is_ws d \<Longrightarrow> d \<noteq> c \<Longrightarrow> token c (d # r) = None"
  by (simp_all add: token_def skip_ws_def)

lemma hex_val_digit: "k < 16 \<Longrightarrow> hex_val (hex_digit k) = Some k"
  by (simp add: hex_val_def hex_digit_def Let_def)

lemma of_char_div: "of_char (c :: char) div 16 < (16 :: nat)"
proof -
  have "of_char c mod 256 = (of_char c :: nat)" by (rule of_char_mod_256)
  then have "of_char c < (256 :: nat)" by (metis mod_less_divisor zero_less_numeral)
  then show ?thesis by (simp add: div_less_iff_less_mult)
qed

lemma hex4_digit: "hex4 (CHR ''0'') (CHR ''0'') (hex_digit (of_char c div 16)) (hex_digit (of_char c mod 16)) = Some (of_char c)"
  using of_char_div[of c] by (simp add: hex4_def hex_val_digit) (simp add: hex_val_def)

lemma parse_chars_quote: "parse_chars (CHR 0x22 # r) = Some ([], r)"
  by (subst parse_chars.simps) simp

lemma parse_chars_escape:
  "parse_chars (CHR 0x5C # cs) = (case escape_seq cs of None \<Rightarrow> None
     | Some (x, r) \<Rightarrow> map_option (\<lambda>(t, q). (x @ t, q)) (parse_chars r))"
  by (subst parse_chars.simps) simp

lemma parse_chars_esc: "parse_chars (esc_char c @ r) = map_option (\<lambda>(t, q). (c # t, q)) (parse_chars r)"
proof -
  have u: "code_point (of_char c) r = ([c], r)" if "of_char c < (128 :: nat)"
    using that by (simp add: code_point_def utf8_def)
  have small: "of_char c < (128 :: nat)" if "of_char c < (32 :: nat) \<or> c = CHR ''<'' \<or> c = CHR ''>'' \<or> c = CHR ''&''"
    using that by auto
  have lit: "parse_chars (c # r) = map_option (\<lambda>(t, q). (c # t, q)) (parse_chars r)"
    if "c \<noteq> CHR 0x22" "c \<noteq> CHR 0x5C" "\<not> of_char c < (32 :: nat)"
    using that by (subst parse_chars.simps) simp
  show ?thesis
    by (simp add: esc_char_def parse_chars_escape escape_seq_def simple_escape_def hex4_digit u small lit)
qed

lemma parse_chars_render: "parse_chars (concat (map esc_char s) @ CHR 0x22 # r) = Some (s, r)"
  by (induction s) (simp_all add: parse_chars_quote parse_chars_esc)

lemma digit_facts: "is_digit (digit n)" "digit_val (digit n) = n mod 10"
  by (simp_all add: is_digit_def digit_def digit_val_def Let_def)

lemma nat_digits_facts:
  "digits_val (nat_digits n) = n \<and> list_all is_digit (nat_digits n) \<and> nat_digits n \<noteq> [] \<and>
   (1 < length (nat_digits n) \<longrightarrow> hd (nat_digits n) \<noteq> CHR ''0'')"
proof (induction n rule: nat_digits.induct)
  case (1 n)
  show ?case
  proof (cases "n < 10")
    case True
    then show ?thesis by (subst (1 2 3 4 5) nat_digits.simps) (simp add: digits_val_def digit_facts)
  next
    case False
    then have IH: "digits_val (nat_digits (n div 10)) = n div 10" "list_all is_digit (nat_digits (n div 10))"
      "nat_digits (n div 10) \<noteq> []" "1 < length (nat_digits (n div 10)) \<Longrightarrow> hd (nat_digits (n div 10)) \<noteq> CHR ''0''"
      using 1 by auto
    have e: "nat_digits n = nat_digits (n div 10) @ [digit n]" using False by (subst nat_digits.simps) simp
    have "hd (nat_digits (n div 10)) \<noteq> CHR ''0''"
    proof (cases "n div 10 < 10")
      case True
      then have "nat_digits (n div 10) = [digit (n div 10)]" by (subst nat_digits.simps) simp
      then have "digit_val (hd (nat_digits (n div 10))) = n div 10" using True by (simp add: digit_facts)
      then show ?thesis using False by (auto simp: digit_val_def)
    next
      case F: False
      then have "nat_digits (n div 10) = nat_digits (n div 10 div 10) @ [digit (n div 10)]" by (subst nat_digits.simps) simp
      moreover have "nat_digits (n div 10 div 10) \<noteq> []" by (subst nat_digits.simps) simp
      ultimately show ?thesis using IH(4) by (cases "nat_digits (n div 10 div 10)") auto
    qed
    then show ?thesis using IH by (simp add: e digits_val_def digit_facts)
  qed
qed

definition number_end :: "string \<Rightarrow> bool" where
  "number_end r = (case r of [] \<Rightarrow> True | c # s \<Rightarrow> \<not> is_digit c \<and> c \<noteq> CHR ''.'' \<and> c \<noteq> CHR ''e'' \<and> c \<noteq> CHR ''E'')"

lemma number_end_parts: "number_end r \<Longrightarrow> frac_part r = Some (0, False, r) \<and> exp_part r = Some (0, False, r)"
  by (auto simp: number_end_def frac_part_def exp_part_def split: list.splits)

lemma takeWhile_digits:
  assumes "number_end r"
  shows "takeWhile is_digit (nat_digits n @ r) = nat_digits n" "dropWhile is_digit (nat_digits n @ r) = r"
proof -
  have "takeWhile is_digit r = []" "dropWhile is_digit r = r"
    using assms by (auto simp: number_end_def split: list.splits)
  moreover have "\<forall>c\<in>set (nat_digits n). is_digit c" using nat_digits_facts by (simp add: list_all_iff)
  ultimately show "takeWhile is_digit (nat_digits n @ r) = nat_digits n" "dropWhile is_digit (nat_digits n @ r) = r"
    by (simp_all add: takeWhile_append dropWhile_append)
qed

lemma nat_digits_hd:
  obtains c t where "nat_digits n = c # t" "is_digit c"
  using nat_digits_facts[of n] by (cases "nat_digits n") auto

lemma parse_number_int:
  assumes "number_end r"
  shows "parse_number (render_int i @ r) = Some (JInt i, r)"
proof -
  obtain c t where c: "nat_digits (nat i) = c # t" "is_digit c" by (rule nat_digits_hd)
  then have nm: "c \<noteq> CHR ''-''" by (auto simp: is_digit_def)
  show ?thesis
  proof (cases "i < 0")
    case True
    then show ?thesis using assms nat_digits_facts[of "nat (- i)"]
      by (auto simp: parse_number_def render_int_def Let_def takeWhile_digits number_end_parts)
  next
    case False
    have h: "hd (nat_digits (nat i) @ r) \<noteq> CHR ''-''" using c nm by simp
    show ?thesis using assms nat_digits_facts[of "nat i"] False h
      by (auto simp: parse_number_def render_int_def Let_def takeWhile_digits number_end_parts)
  qed
qed

lemma literal_hit [simp]: "literal w (w @ r) = Some r"
  by (simp add: literal_def)

lemma literal_miss: "w = d # v \<Longrightarrow> s = c # t \<Longrightarrow> c \<noteq> d \<Longrightarrow> literal w s = None"
  by (simp add: literal_def)

lemma parse_scalar_int:
  assumes "number_end r"
  shows "parse_scalar (render_int i @ r) = Some (JInt i, r)"
proof -
  obtain c t where c: "render_int i @ r = c # t" "is_digit c \<or> c = CHR ''-''"
  proof (cases "i < 0")
    case False
    obtain c t where "nat_digits (nat i) = c # t" "is_digit c" by (rule nat_digits_hd)
    then show ?thesis using False by (intro that[of c "t @ r"]) (simp_all add: render_int_def)
  qed (use that in \<open>simp add: render_int_def\<close>)
  then have "c \<noteq> CHR ''n''" "c \<noteq> CHR ''t''" "c \<noteq> CHR ''f''" by (auto simp: is_digit_def)
  then have "literal ''null'' (render_int i @ r) = None" "literal ''true'' (render_int i @ r) = None"
    "literal ''false'' (render_int i @ r) = None"
    using c(1) by (simp_all add: literal_miss)
  then show ?thesis by (simp add: parse_scalar_def parse_number_int[OF assms])
qed

text \<open>Values whose numbers are all integral literals.\<close>

fun integral :: "json \<Rightarrow> bool" where
  "integral (JDec f) = False"
| "integral (JArr js) = list_all integral js"
| "integral (JObj kvs) = list_all (\<lambda>(k, j). integral j) kvs"
| "integral j = True"

lemma commas_simps: "commas [] = []" "commas [x] = x" "commas (x # y # ys) = x @ CHR '','' # commas (y # ys)"
  by (simp_all add: commas_def)

lemma not_ws [simp]: "\<not> is_ws (CHR 0x22)" "\<not> is_ws (CHR ''['')" "\<not> is_ws (CHR '']'')" "\<not> is_ws (CHR ''{'')"
  "\<not> is_ws (CHR ''}'')" "\<not> is_ws (CHR '','')" "\<not> is_ws (CHR '':'')" "\<not> is_ws (CHR ''n'')" "\<not> is_ws (CHR ''t'')"
  "\<not> is_ws (CHR ''f'')" "\<not> is_ws (CHR ''-'')"
  by (simp_all add: is_ws_def)

lemma end_marks [simp]: "number_end []" "number_end (CHR '','' # r)" "number_end (CHR '']'' # r)" "number_end (CHR ''}'' # r)"
  by (simp_all add: number_end_def is_digit_def)


lemma render_int_hd:
  obtains c t where "render_int i = c # t" "is_digit c \<or> c = CHR ''-''"
proof (cases "i < 0")
  case False
  obtain c t where "nat_digits (nat i) = c # t" "is_digit c" by (rule nat_digits_hd)
  then show ?thesis using False by (intro that[of c t]) (simp_all add: render_int_def)
qed (use that in \<open>simp add: render_int_def\<close>)

text \<open>The first character of a rendered value.\<close>

lemma render_hd:
  assumes "integral j"
  obtains c t where "render j = c # t" "\<not> is_ws c" "c \<noteq> CHR '']''" "c \<noteq> CHR ''}''"
proof (cases j)
  case (JInt i)
  obtain c t where c: "render_int i = c # t" "is_digit c \<or> c = CHR ''-''" by (rule render_int_hd)
  then have "\<not> is_ws c" "c \<noteq> CHR '']''" "c \<noteq> CHR ''}''" by (auto simp: is_digit_def is_ws_def)
  then show ?thesis using c JInt that by simp
next
  case (JBool b)
  then show ?thesis using that by (cases b) simp_all
qed (use assms that in \<open>simp_all add: render_str_def\<close>)

lemma parse_scalar_value:
  assumes "parse_scalar (c # s) = Some x" "\<not> is_ws c" "c \<noteq> CHR 0x22" "c \<noteq> CHR ''[''" "c \<noteq> CHR ''{''"
  shows "parse_value (Suc n) (c # s) = Some x"
  using assms by (simp add: skip_ws_def parse_value.simps)

lemma parse_elems_render:
  assumes "js \<noteq> []" "\<And>j n r. j \<in> set js \<Longrightarrow> length (render j) \<le> n \<Longrightarrow> number_end r \<Longrightarrow>
      parse_value (Suc n) (render j @ r) = Some (j, r)" "\<forall>j\<in>set js. integral j"
    and "length (commas (map render js)) \<le> n"
  shows "parse_elems (Suc (Suc n)) (commas (map render js) @ CHR '']'' # r) = Some (js, r)"
  using assms
proof (induction js arbitrary: n)
  case (Cons j js)
  have j: "length (render j) \<le> n \<Longrightarrow> number_end q \<Longrightarrow> parse_value (Suc n) (render j @ q) = Some (j, q)" for n q
    using Cons.prems(2) by simp
  show ?case
  proof (cases js)
    case Nil
    then show ?thesis using j[of n "CHR '']'' # r"] Cons.prems(4) by (simp add: commas_simps parse_elems.simps)
  next
    case (Cons k ks)
    obtain c t where "render j = c # t" by (rule render_hd[of j]) (use Cons.prems(3) in simp)
    then obtain m where m: "n = Suc m" "length (commas (map render js)) \<le> m" "length (render j) \<le> n"
      using Cons.prems(4) Cons by (cases n) (simp_all add: commas_simps)
    have "parse_elems (Suc (Suc m)) (commas (map render js) @ CHR '']'' # r) = Some (js, r)"
      using Cons.IH[of m] Cons.prems(2,3) Cons m(2) by simp
    moreover have "parse_value (Suc n) (render j @ CHR '','' # commas (map render js) @ CHR '']'' # r) =
        Some (j, CHR '','' # commas (map render js) @ CHR '']'' # r)"
      using j[OF m(3)] by simp
    ultimately show ?thesis using Cons m(1) by (simp add: commas_simps parse_elems.simps(2)[of "Suc (Suc m)"])
  qed
qed simp

lemma parse_members_render:
  assumes "kvs \<noteq> []" "\<And>k j n r. (k, j) \<in> set kvs \<Longrightarrow> length (render j) \<le> n \<Longrightarrow> number_end r \<Longrightarrow>
      parse_value (Suc n) (render j @ r) = Some (j, r)"
    and "length (commas (map (\<lambda>(k, j). render_str k @ '':'' @ render j) kvs)) \<le> n"
  shows "parse_members (Suc (Suc n)) (commas (map (\<lambda>(k, j). render_str k @ '':'' @ render j) kvs) @ CHR ''}'' # r) = Some (kvs, r)"
  using assms
proof (induction kvs arbitrary: n)
  case (Cons kv kvs)
  obtain k j where kv: "kv = (k, j)" by fastforce
  let ?f = "\<lambda>(k, j). render_str k @ '':'' @ render j"
  have j: "length (render j) \<le> n \<Longrightarrow> number_end q \<Longrightarrow> parse_value (Suc n) (render j @ q) = Some (j, q)" for n q
    by (rule Cons.prems(2)[of k]) (simp_all add: kv)
  show ?case
  proof (cases kvs)
    case Nil
    then have "length (render j) \<le> n" using Cons.prems(3) kv by (simp add: commas_simps)
    then show ?thesis using Nil j[of n "CHR ''}'' # r"]
      by (simp add: kv commas_simps render_str_def parse_chars_render parse_members.simps)
  next
    case (Cons x xs)
    then obtain m where m: "n = Suc m" "length (commas (map ?f kvs)) \<le> m" "length (render j) \<le> n"
      using Cons.prems(3) kv by (cases n) (simp_all add: commas_simps render_str_def)
    have "parse_members (Suc (Suc m)) (commas (map ?f kvs) @ CHR ''}'' # r) = Some (kvs, r)"
    proof (rule Cons.IH)
      show "parse_value (Suc n) (render j @ r) = Some (j, r)"
        if "(k, j) \<in> set kvs" "length (render j) \<le> n" "number_end r" for k j n r
        by (rule Cons.prems(2)[of k]) (use that in simp_all)
    qed (use Cons m(2) in simp_all)
    moreover have "parse_value (Suc n) (render j @ CHR '','' # commas (map ?f kvs) @ CHR ''}'' # r) =
        Some (j, CHR '','' # commas (map ?f kvs) @ CHR ''}'' # r)"
      using j[OF m(3)] by simp
    ultimately show ?thesis using Cons m(1) 
      by (simp add: kv commas_simps render_str_def parse_chars_render parse_members.simps(2)[of "Suc (Suc m)"])
  qed
qed simp

lemma parse_render:
  "integral j \<Longrightarrow> length (render j) \<le> n \<Longrightarrow> number_end r \<Longrightarrow> parse_value (Suc n) (render j @ r) = Some (j, r)"
proof (induction j arbitrary: n r)
  case JNull
  then show ?case using parse_scalar_value[of "CHR ''n''" "''ull'' @ r"] literal_hit[of "''null''" r]
    by (simp add: parse_scalar_def)
next
  case (JBool b)
  then show ?case
    using parse_scalar_value[of "CHR ''t''" "''rue'' @ r"] parse_scalar_value[of "CHR ''f''" "''alse'' @ r"]
      literal_hit[of "''true''" r] literal_hit[of "''false''" r]
    by (cases b) (simp_all add: parse_scalar_def literal_miss)
next
  case (JInt i)
  obtain c t where c: "render_int i = c # t" "is_digit c \<or> c = CHR ''-''" by (rule render_int_hd)
  then have "\<not> is_ws c" "c \<noteq> CHR 0x22" "c \<noteq> CHR ''[''" "c \<noteq> CHR ''{''" by (auto simp: is_digit_def is_ws_def)
  then show ?case using parse_scalar_value[of c "t @ r"] parse_scalar_int[OF JInt(3), of i] c(1)
    by (simp)
next
  case (JStr s)
  then show ?case by (simp add: render_str_def parse_chars_render parse_value.simps)
next
  case (JArr js)
  show ?case
  proof (cases js)
    case (Cons x xs)
    obtain m where m: "n = Suc (Suc m)" "length (commas (map render js)) \<le> m"
      using JArr.prems(2) by (cases n; cases "n - 1") auto
    have "parse_elems n (commas (map render js) @ CHR '']'' # r) = Some (js, r)"
      unfolding m(1)
    proof (rule parse_elems_render)
      show "parse_value (Suc n) (render j @ r) = Some (j, r)"
        if "j \<in> set js" "length (render j) \<le> n" "number_end r" for j n r
        using JArr.IH[OF that(1) _ that(2,3)] JArr.prems(1) that(1) by (simp add: list_all_iff)
    qed (use JArr.prems(1) m(2) Cons in \<open>simp_all add: list_all_iff\<close>)
    moreover obtain c t where "commas (map render js) = c # t" "\<not> is_ws c" "c \<noteq> CHR '']''"
    proof -
      obtain c t where "render x = c # t" "\<not> is_ws c" "c \<noteq> CHR '']''"
        by (rule render_hd[of x]) (use JArr.prems(1) Cons in simp)
      then show ?thesis using Cons that by (cases xs) (simp_all add: commas_simps)
    qed
    ultimately show ?thesis by (simp add: parse_value.simps)
  qed (simp add: commas_simps parse_value.simps)
next
  case (JObj kvs)
  let ?f = "\<lambda>(k, j). render_str k @ '':'' @ render j"
  show ?case
  proof (cases kvs)
    case (Cons x xs)
    obtain m where m: "n = Suc (Suc m)" "length (commas (map ?f kvs)) \<le> m"
      using JObj.prems(2) by (cases n; cases "n - 1") auto
    have "parse_members n (commas (map ?f kvs) @ CHR ''}'' # r) = Some (kvs, r)"
      unfolding m(1)
    proof (rule parse_members_render)
      show "parse_value (Suc n) (render j @ r) = Some (j, r)"
        if "(k, j) \<in> set kvs" "length (render j) \<le> n" "number_end r" for k j n r
        using JObj.IH[OF that(1) _ _ that(2,3)] JObj.prems(1) that(1) by (auto simp: list_all_iff)
    qed (use m(2) Cons in simp_all)
    moreover obtain t where "commas (map ?f kvs) = CHR 0x22 # t"
      using Cons by (cases xs; cases x) (simp_all add: commas_simps render_str_def)
    ultimately show ?thesis by (simp add: parse_value.simps)
  qed (simp add: commas_simps parse_value.simps)
qed simp

lemma parse_json_render: "integral j \<Longrightarrow> parse_json (render j) = Some j"
  using parse_render[of j "length (render j)" "[]"] by (simp add: parse_json_def skip_ws_def)

end
