(* ===== verification/Framing.thy ===== *)
theory Framing
  imports JsonText Replication
begin

text \<open>
  The frame codec, \<open>pkg/protocol/framing.go\<close>: a big-endian 32-bit length and a JSON envelope. A stream is
  the bytes that arrive on a connection and how it ends; \<open>io.ReadFull\<close> over it tells an end at a frame
  boundary from an end inside one. The scratch buffers only avoid allocation and are not modelled, and
  the encoder's mutex makes a write atomic, which is how it is modelled.
\<close>

section \<open>Streams\<close>

datatype frame_error = EOF | ErrUnexpectedEOF | ErrRead | ErrFrameTooLarge | ErrZeroLengthFrame
  | ErrUnsupportedVersion | ErrMalformedFrame

datatype ending = CleanEnd | Broken

record stream =
  sBytes :: "byte list"
  sEnd :: ending

definition ReadFull :: "nat \<Rightarrow> stream \<Rightarrow> (frame_error + byte list) \<times> stream" where
  "ReadFull k s =
     (if k \<le> length (sBytes s) then (Inr (take k (sBytes s)), s\<lparr>sBytes := drop k (sBytes s)\<rparr>)
      else (Inl (case sEnd s of Broken \<Rightarrow> ErrRead | CleanEnd \<Rightarrow> if sBytes s = [] then EOF else ErrUnexpectedEOF),
            s\<lparr>sBytes := []\<rparr>))"

definition IsProtocolViolation :: "frame_error \<Rightarrow> bool" where
  "IsProtocolViolation e =
     (e = ErrFrameTooLarge \<or> e = ErrZeroLengthFrame \<or> e = ErrUnsupportedVersion \<or> e = ErrMalformedFrame)"

section \<open>Bytes\<close>

definition bytes_of :: "string \<Rightarrow> byte list" where
  "bytes_of s = map (\<lambda>c. word_of_nat (of_char c)) s"

definition chars_of :: "byte list \<Rightarrow> string" where
  "chars_of bs = map (\<lambda>b. char_of (unat b)) bs"

definition headerSize :: nat where "headerSize = 4"

definition PutUint32 :: "32 word \<Rightarrow> byte list" where
  "PutUint32 w = [ucast (drop_bit 24 w), ucast (drop_bit 16 w), ucast (drop_bit 8 w), ucast w]"

definition Uint32 :: "byte list \<Rightarrow> 32 word" where
  "Uint32 bs = word_of_nat (((unat (bs ! 0) * 256 + unat (bs ! 1)) * 256 + unat (bs ! 2)) * 256 + unat (bs ! 3))"

section \<open>Encoder and decoder\<close>

datatype write_error = TooLarge | WriteFailed

text \<open>\<open>ok\<close> is the outcome of the single \<open>Write\<close>. The version of an envelope without one is filled in, in place.\<close>

definition versioned :: "Envelope \<Rightarrow> Envelope" where
  "versioned env = (if eVersion env = 0 then env\<lparr>eVersion := CurrentVersion\<rparr> else env)"

definition WriteEnvelope :: "bool \<Rightarrow> Envelope \<Rightarrow> (write_error + byte list) \<times> Envelope" where
  "WriteEnvelope ok env0 =
     (let env = versioned env0; body = render (enc_Envelope env) in
      (if MaxFrameSize < length body then Inl TooLarge
       else if \<not> ok then Inl WriteFailed
       else Inr (PutUint32 (word_of_nat (length body)) @ bytes_of body), env))"

definition ReadFrame :: "stream \<Rightarrow> (frame_error + Envelope) \<times> stream" where
  "ReadFrame s =
     (case ReadFull headerSize s of
        (Inl e, s1) \<Rightarrow> (Inl e, s1)
      | (Inr hdr, s1) \<Rightarrow>
          let n = unat (Uint32 hdr) in
          if n = 0 then (Inl ErrZeroLengthFrame, s1)
          else if MaxFrameSize < n then (Inl ErrFrameTooLarge, s1)
          else case ReadFull n s1 of
            (Inl e, s2) \<Rightarrow> (Inl (if e = EOF then ErrUnexpectedEOF else e), s2)
          | (Inr body, s2) \<Rightarrow>
              (case Option.bind (parse_json (chars_of body)) dec_Envelope of
                 None \<Rightarrow> (Inl ErrMalformedFrame, s2)
               | Some env \<Rightarrow> if eVersion env \<noteq> CurrentVersion then (Inl ErrUnsupportedVersion, s2) else (Inr env, s2)))"

lemma ReadFull_length:
  "ReadFull k s = (Inr bs, s1) \<Longrightarrow> sBytes s = bs @ sBytes s1 \<and> length bs = k \<and> sEnd s1 = sEnd s"
  by (auto simp: ReadFull_def split: if_splits)

lemma ReadFrame_consumes:
  assumes "ReadFrame s = (Inr env, s1)"
  shows "length (sBytes s1) < length (sBytes s)"
proof -
  obtain hdr s0 where h: "ReadFull headerSize s = (Inr hdr, s0)"
    using assms by (auto simp: ReadFrame_def split: prod.splits sum.splits)
  then have "length (sBytes s0) < length (sBytes s)" using ReadFull_length[OF h] by (simp add: headerSize_def)
  moreover have "length (sBytes s1) \<le> length (sBytes s0)"
    using assms h by (auto simp: ReadFrame_def Let_def ReadFull_def split: if_splits option.splits sum.splits)
  ultimately show ?thesis by simp
qed

text \<open>The read loop of a connection: frames until the first error.\<close>

function ReadFrames :: "stream \<Rightarrow> Envelope list \<times> frame_error" where
  "ReadFrames s =
     (case ReadFrame s of
        (Inl e, s1) \<Rightarrow> ([], e)
      | (Inr env, s1) \<Rightarrow> let (envs, e) = ReadFrames s1 in (env # envs, e))"
  by pat_completeness auto

termination
  by (relation "measure (length \<circ> sBytes)") (auto dest: ReadFrame_consumes[OF sym])

declare ReadFrames.simps [simp del]

section \<open>Round trips\<close>

lemma of_char_byte: "unat (word_of_nat (of_char c) :: byte) = of_char c"
  by (simp add: unsigned_of_nat take_bit_eq_mod of_char_mod_256)

lemma chars_bytes [simp]: "chars_of (bytes_of s) = s"
  by (induction s) (simp_all add: chars_of_def bytes_of_def of_char_byte)

lemma length_bytes [simp]: "length (bytes_of s) = length s" "bytes_of s = [] \<longleftrightarrow> s = []"
  by (simp_all add: bytes_of_def)

lemma PutUint32_length [simp]: "length (PutUint32 w) = 4"
  by (simp add: PutUint32_def)

lemma Uint32_Put:
  assumes "n < 2 ^ 32"
  shows "unat (Uint32 (PutUint32 (word_of_nat n))) = n"
proof -
  have d: "unat (drop_bit k (word_of_nat n :: 32 word)) = n div 2 ^ k" for k
    using assms by (simp add: unsigned_drop_bit_eq unsigned_of_nat take_bit_eq_mod drop_bit_eq_div[where 'a = nat])
  have b: "unat (ucast (drop_bit k (word_of_nat n :: 32 word)) :: byte) = n div 2 ^ k mod 256" for k
    by (simp add: unsigned_ucast_eq take_bit_eq_mod d)
  have l: "unat (ucast (word_of_nat n :: 32 word) :: byte) = n mod 256"
    using assms by (simp add: unsigned_ucast_eq unsigned_of_nat take_bit_eq_mod)
  have top: "n div 2 ^ 24 mod 256 = n div 2 ^ 24" using assms by (simp add: div_less_iff_less_mult)
  have "((n div 2 ^ 24 * 256 + n div 2 ^ 16 mod 256) * 256 + n div 2 ^ 8 mod 256) * 256 + n mod 256 = n"
  proof -
    have "n div 2 ^ 24 * 256 + n div 2 ^ 16 mod 256 = n div 2 ^ 16"
      using div_mult_mod_eq[of "n div 2 ^ 16" 256] by (simp add: div_mult2_eq[symmetric])
    moreover have "n div 2 ^ 16 * 256 + n div 2 ^ 8 mod 256 = n div 2 ^ 8"
      using div_mult_mod_eq[of "n div 2 ^ 8" 256] by (simp add: div_mult2_eq[symmetric])
    moreover have "n div 2 ^ 8 * 256 + n mod 256 = n" using div_mult_mod_eq[of n 256] by simp
    ultimately show ?thesis by metis
  qed
  then show ?thesis
    using assms by (simp add: Uint32_def PutUint32_def b[of 24, simplified] b[of 16, simplified] b[of 8, simplified] l
        top[simplified] unsigned_of_nat take_bit_eq_mod)
qed

lemma ReadFull_exact: "length bs = k \<Longrightarrow> ReadFull k (s\<lparr>sBytes := bs @ r\<rparr>) = (Inr bs, s\<lparr>sBytes := r\<rparr>)"
  by (simp add: ReadFull_def)

definition frame_of :: "Envelope \<Rightarrow> byte list" where
  "frame_of env = (let body = render (enc_Envelope env) in PutUint32 (word_of_nat (length body)) @ bytes_of body)"

text \<open>An envelope the wire can carry: its body fits a frame and its payload's numbers are integral literals.\<close>

definition sendable :: "Envelope \<Rightarrow> bool" where
  "sendable env \<longleftrightarrow> length (render (enc_Envelope env)) \<le> MaxFrameSize \<and> int64_ok (eSentAt env) \<and>
     (case ePayload env of None \<Rightarrow> True | Some j \<Rightarrow> integral j)"

lemma dec_enc_Envelope: "int64_ok (eSentAt e) \<Longrightarrow> dec_Envelope (enc_Envelope e) = Some e"
  by (cases "ePayload e"; cases "eTo e = ''''"; cases "eID e = ''''")
    (simp_all add: dec_Envelope_def enc_Envelope_def dec_defs dec_enc_int64 int64_ok_def)

lemma integral_envelope: "sendable e \<Longrightarrow> integral (enc_Envelope e)"
  by (cases "ePayload e") (simp_all add: sendable_def enc_Envelope_def omitempty_def)

lemma render_envelope_ne: "0 < length (render (enc_Envelope e))"
  by (simp add: enc_Envelope_def)

lemma MaxFrameSize_small: "n \<le> MaxFrameSize \<Longrightarrow> n < 2 ^ 32"
  by (simp add: MaxFrameSize_def)

lemma ReadFrame_frame:
  assumes "sendable env" "eVersion env = CurrentVersion"
  shows "ReadFrame (s\<lparr>sBytes := frame_of env @ r\<rparr>) = (Inr env, s\<lparr>sBytes := r\<rparr>)"
proof -
  let ?body = "render (enc_Envelope env)"
  have len: "length ?body \<le> MaxFrameSize" "0 < length ?body" "length ?body < 2 ^ 32"
    using assms(1) render_envelope_ne MaxFrameSize_small by (auto simp: sendable_def)
  have "parse_json ?body = Some (enc_Envelope env)" by (rule parse_json_render[OF integral_envelope[OF assms(1)]])
  moreover have "dec_Envelope (enc_Envelope env) = Some env"
    using assms(1) by (intro dec_enc_Envelope) (simp add: sendable_def)
  moreover have "ReadFull headerSize (s\<lparr>sBytes := frame_of env @ r\<rparr>) =
      (Inr (PutUint32 (word_of_nat (length ?body))), s\<lparr>sBytes := bytes_of ?body @ r\<rparr>)"
    by (simp add: frame_of_def Let_def headerSize_def ReadFull_exact)
  moreover have "ReadFull (length ?body) (s\<lparr>sBytes := bytes_of ?body @ r\<rparr>) = (Inr (bytes_of ?body), s\<lparr>sBytes := r\<rparr>)"
    by (rule ReadFull_exact) simp
  ultimately show ?thesis
    using len assms(2) by (simp add: ReadFrame_def Uint32_Put Let_def)
qed

section \<open>Truncation\<close>

lemma take_prefix_header:
  assumes "headerSize \<le> k"
  shows "take k (frame_of env) = PutUint32 (word_of_nat (length (render (enc_Envelope env)))) @
    take (k - headerSize) (bytes_of (render (enc_Envelope env)))"
  using assms by (simp add: frame_of_def Let_def headerSize_def)

lemma ReadFrame_truncated:
  assumes "length (render (enc_Envelope env)) \<le> MaxFrameSize" "k < length (frame_of env)"
  shows "fst (ReadFrame \<lparr>sBytes = take k (frame_of env), sEnd = CleanEnd\<rparr>) = Inl (if k = 0 then EOF else ErrUnexpectedEOF)"
proof (cases "k < headerSize")
  case True
  have "length (frame_of env) \<ge> 4" by (simp add: frame_of_def Let_def)
  then show ?thesis using True by (auto simp: ReadFrame_def ReadFull_def headerSize_def)
next
  case False
  let ?body = "render (enc_Envelope env)"
  let ?s = "\<lparr>sBytes = take (k - headerSize) (bytes_of ?body), sEnd = CleanEnd\<rparr>"
  have "ReadFull headerSize \<lparr>sBytes = take k (frame_of env), sEnd = CleanEnd\<rparr> =
      (Inr (PutUint32 (word_of_nat (length ?body))), ?s)"
    using False by (simp add: take_prefix_header ReadFull_def headerSize_def)
  moreover have "unat (Uint32 (PutUint32 (word_of_nat (length ?body)))) = length ?body"
    by (rule Uint32_Put[OF MaxFrameSize_small[OF assms(1)]])
  moreover have "k - headerSize < length ?body" using False assms(2) by (simp add: frame_of_def Let_def headerSize_def)
  then have "\<exists>e. ReadFull (length ?body) ?s = (Inl e, ?s\<lparr>sBytes := []\<rparr>) \<and> (e = EOF \<or> e = ErrUnexpectedEOF)"
    by (auto simp: ReadFull_def)
  ultimately show ?thesis
    using False assms(1) render_envelope_ne[of env] by (auto simp: ReadFrame_def Let_def headerSize_def)
qed

lemma ex_env_fits: "length (render (enc_Envelope ex_env)) \<le> MaxFrameSize"
  by (simp add: enc_Envelope_def ex_env_def omitempty_def commas_def render_str_def esc_char_def render_int_def
      nat_digits.simps MaxFrameSize_def)

section \<open>Properties\<close>



text \<open>A connection that ends inside a frame is told from one that ends between frames: of the proper prefixes of a frame
  only the empty one reads as a clean close, every other as a peer that died, and neither as a protocol violation.\<close>

theorem truncation_classified:
  assumes "length (render (enc_Envelope env)) \<le> MaxFrameSize" "k < length (frame_of env)"
    and "ReadFrame \<lparr>sBytes = take k (frame_of env), sEnd = CleanEnd\<rparr> = (res, s)"
  shows "res = Inl (if k = 0 then EOF else ErrUnexpectedEOF) \<and> \<not> IsProtocolViolation (if k = 0 then EOF else ErrUnexpectedEOF)"
  using ReadFrame_truncated[OF assms(1,2)] assms(3) by (simp add: IsProtocolViolation_def)

theorem truncation_classified_witness:
  "fst (ReadFrame \<lparr>sBytes = take 3 (frame_of ex_env), sEnd = CleanEnd\<rparr>) = Inl ErrUnexpectedEOF"
proof -
  have "length (render (enc_Envelope ex_env)) \<le> MaxFrameSize" by (rule ex_env_fits)
  moreover have "3 < length (frame_of ex_env)" by (simp add: frame_of_def Let_def)
  moreover obtain res s where "ReadFrame \<lparr>sBytes = take 3 (frame_of ex_env), sEnd = CleanEnd\<rparr> = (res, s)"
    by fastforce
  ultimately show ?thesis using truncation_classified[of ex_env 3] by simp
qed

text \<open>The length is checked before anything is read for it. A header that declares more than the maximum (or zero) is refused
  with nothing consumed beyond the header, and no frame makes the reader take in more than the header and the maximum.\<close>

theorem oversized_frame_refused:
  assumes "headerSize \<le> length (sBytes s)" and "n = unat (Uint32 (take headerSize (sBytes s)))"
  shows "if n = 0 then ReadFrame s = (Inl ErrZeroLengthFrame, s\<lparr>sBytes := drop headerSize (sBytes s)\<rparr>)
    else if MaxFrameSize < n then ReadFrame s = (Inl ErrFrameTooLarge, s\<lparr>sBytes := drop headerSize (sBytes s)\<rparr>)
    else length (sBytes s) \<le> length (sBytes (snd (ReadFrame s))) + headerSize + n"
  using assms(1)
  by (auto simp: ReadFrame_def Let_def ReadFull_def assms(2) split: option.split)

theorem oversized_frame_refused_witness:
  "fst (ReadFrame \<lparr>sBytes = [255, 0, 0, 0, 7], sEnd = CleanEnd\<rparr>) = Inl ErrFrameTooLarge"
proof -
  have "unat (Uint32 (take headerSize [255, 0, 0, 0, 7])) = 255 * 2 ^ 24"
    by (simp add: Uint32_def headerSize_def)
  then show ?thesis
    using oversized_frame_refused[of "\<lparr>sBytes = [255, 0, 0, 0, 7], sEnd = CleanEnd\<rparr>"]
    by (simp add: headerSize_def MaxFrameSize_def)
qed

end
