(* ===== verification/Conn.thy ===== *)
theory Conn
  imports Framing NodeLoop "HOL-Library.Sublist"
begin

text \<open>
  One link to a peer, \<open>pkg/network/conn.go\<close>: the two send queues, the writer that drains control before data,
  the reader, and the classification of how the link ended. Reader, writer, senders and closers interleave
  freely: \<open>conn_step\<close> is one atomic move of one of them, and what a select picks, whether a deadline fires and
  whether a write succeeds are arguments of the move.
\<close>

section \<open>Definitions\<close>

definition Disposition_IsFailure :: "Disposition \<Rightarrow> bool" where
  "Disposition_IsFailure d = (d = DispositionPeerDied \<or> d = DispositionTimeout)"

datatype net_error = DeadlineExceeded | Codec frame_error | OtherError

definition Classify :: "net_error option \<Rightarrow> Disposition" where
  "Classify err =
     (case err of
        None \<Rightarrow> DispositionOther
      | Some DeadlineExceeded \<Rightarrow> DispositionTimeout
      | Some (Codec e) \<Rightarrow>
          if e = ErrUnexpectedEOF then DispositionPeerDied
          else if e = EOF then DispositionCleanClose
          else if IsProtocolViolation e then DispositionProtocolViolation
          else DispositionOther
      | Some OtherError \<Rightarrow> DispositionOther)"

record ConnConfig =
  ccIdleTimeout :: duration
  ccWriteTimeout :: duration
  ccCtrlDepth :: int
  ccDataDepth :: int
  ccCtrlSendTimeout :: duration

definition ConnConfig_withDefaults :: "ConnConfig \<Rightarrow> ConnConfig" where
  "ConnConfig_withDefaults c =
     c\<lparr>ccIdleTimeout := pos_or (15 * Second) (ccIdleTimeout c), ccWriteTimeout := pos_or (5 * Second) (ccWriteTimeout c),
       ccCtrlDepth := pos_or 64 (ccCtrlDepth c), ccDataDepth := pos_or 256 (ccDataDepth c),
       ccCtrlSendTimeout := pos_or (250 * Millisecond) (ccCtrlSendTimeout c)\<rparr>"

text \<open>Where the two goroutines are: at the check of \<open>done\<close>, at a select, holding a dequeued frame, or gone.\<close>

datatype writer = WCheck | WPick | WWait | WHold Envelope | WExited

datatype reader = RCheck | RRead | RExited

text \<open>
  \<open>cnIn\<close> is what the socket will still bring and how that ends, \<open>cnOut\<close> the bytes written to it so far, and
  \<open>cnHandled\<close> the frames the handler has been called with.
\<close>

record conn =
  cnPeer :: NodeID
  cnCfg :: ConnConfig
  cnCtrl :: "Envelope list"
  cnData :: "Envelope list"
  cnDone :: bool
  cnWriter :: writer
  cnReader :: reader
  cnDropped :: "64 word"
  cnDisposition :: Disposition
  cnErr :: "net_error option"
  cnIn :: stream
  cnOut :: "byte list"
  cnHandled :: "inboundFrame list"

definition NewConn :: "NodeID \<Rightarrow> stream \<Rightarrow> ConnConfig \<Rightarrow> conn" where
  "NewConn p raw cfg = \<lparr>cnPeer = p, cnCfg = ConnConfig_withDefaults cfg, cnCtrl = [], cnData = [], cnDone = False,
     cnWriter = WCheck, cnReader = RCheck, cnDropped = 0, cnDisposition = DispositionOther, cnErr = None,
     cnIn = raw, cnOut = [], cnHandled = []\<rparr>"

text \<open>\<open>Conn.Disposition\<close>: only meaningful once the link is done.\<close>

definition Conn_Disposition :: "conn \<Rightarrow> Disposition \<times> net_error option" where
  "Conn_Disposition c = (if cnDone c then (cnDisposition c, cnErr c) else (DispositionOther, None))"

section \<open>Sending\<close>

datatype send_error = ErrConnClosed | ErrDataDropped | ErrSendQueueFull | ErrContext

text \<open>
  The branch the sender's select takes. \<open>wasDone\<close> is what the check before the select has seen: the link may close
  in between. \<open>None\<close> when the branch is not ready, or for \<open>TakeDefault\<close> when another one is.
\<close>

datatype select = TakeQueue | TakeDone | TakeContext | TakeTimer | TakeDefault

definition room :: "Envelope list \<Rightarrow> int \<Rightarrow> bool" where
  "room q depth = (int (length q) < depth)"

definition Conn_Send :: "bool \<Rightarrow> select \<Rightarrow> Envelope \<Rightarrow> conn \<Rightarrow> (send_error option \<times> conn) option" where
  "Conn_Send wasDone pick env c =
     (if wasDone then Some (Some ErrConnClosed, c)
      else if IsDataPlane (eType env)
      then (case pick of
              TakeQueue \<Rightarrow> if room (cnData c) (ccDataDepth (cnCfg c)) then Some (None, c\<lparr>cnData := cnData c @ [env]\<rparr>) else None
            | TakeDone \<Rightarrow> if cnDone c then Some (Some ErrConnClosed, c) else None
            | TakeDefault \<Rightarrow> if room (cnData c) (ccDataDepth (cnCfg c)) \<or> cnDone c then None
                else Some (Some ErrDataDropped, c\<lparr>cnDropped := cnDropped c + 1\<rparr>)
            | _ \<Rightarrow> None)
      else (case pick of
              TakeQueue \<Rightarrow> if room (cnCtrl c) (ccCtrlDepth (cnCfg c)) then Some (None, c\<lparr>cnCtrl := cnCtrl c @ [env]\<rparr>) else None
            | TakeDone \<Rightarrow> if cnDone c then Some (Some ErrConnClosed, c) else None
            | TakeContext \<Rightarrow> Some (Some ErrContext, c)
            | TakeTimer \<Rightarrow> Some (Some ErrSendQueueFull, c)
            | TakeDefault \<Rightarrow> None))"

section \<open>Closing\<close>

definition closeWith :: "Disposition \<Rightarrow> net_error option \<Rightarrow> conn \<Rightarrow> conn" where
  "closeWith d err c = (if cnDone c then c else c\<lparr>cnDone := True, cnDisposition := d, cnErr := err\<rparr>)"

definition Conn_Close :: "conn \<Rightarrow> conn" where
  "Conn_Close c = c\<lparr>cnDone := True\<rparr>"

text \<open>What is left in the queues, once the writer has exited.\<close>

definition drainUnsent :: "conn \<Rightarrow> (Envelope list \<times> conn) option" where
  "drainUnsent c = (if cnWriter c = WExited then Some (cnCtrl c @ cnData c, c\<lparr>cnCtrl := [], cnData := []\<rparr>) else None)"

section \<open>The reader and the writer\<close>

text \<open>
  What a move of the reader meets: a deadline that cannot be set, a read the deadline or a broken or closed socket ends,
  or a read that takes what the socket brings.
\<close>

datatype read_outcome = NoDeadline | Cut net_error | Arrives

definition read_step :: "read_outcome \<Rightarrow> conn \<Rightarrow> conn option" where
  "read_step r c =
     (case cnReader c of
        RCheck \<Rightarrow> Some (c\<lparr>cnReader := if cnDone c then RExited else RRead\<rparr>)
      | RRead \<Rightarrow>
          (case r of
             NoDeadline \<Rightarrow> Some ((closeWith DispositionOther (Some OtherError) c)\<lparr>cnReader := RExited\<rparr>)
           | Cut e \<Rightarrow> if e = DeadlineExceeded \<or> e = OtherError
               then Some ((closeWith (Classify (Some e)) (Some e) c)\<lparr>cnReader := RExited\<rparr>) else None
           | Arrives \<Rightarrow>
               (case ReadFrame (cnIn c) of
                  (Inl e, s) \<Rightarrow>
                    let err = (if e = ErrRead then OtherError else Codec e)
                    in Some ((closeWith (Classify (Some err)) (Some err) (c\<lparr>cnIn := s\<rparr>))\<lparr>cnReader := RExited\<rparr>)
                | (Inr env, s) \<Rightarrow>
                    Some (c\<lparr>cnIn := s, cnHandled := cnHandled c @ [(cnPeer c, env)], cnReader := RCheck\<rparr>)))
      | RExited \<Rightarrow> None)"

text \<open>
  The branch the writer's inner select takes, and the outcome of the write: a deadline that cannot be set, a write that
  fails, or success. An envelope over the limit fails before any byte is written.
\<close>

datatype ready = CtrlReady | DataReady | DoneReady

datatype write_outcome = WriteOK | WriteNoDeadline | WriteFails bool

definition write_frame :: "write_outcome \<Rightarrow> Envelope \<Rightarrow> conn \<Rightarrow> conn" where
  "write_frame w env c =
     (case w of
        WriteNoDeadline \<Rightarrow> (closeWith DispositionOther (Some OtherError) c)\<lparr>cnWriter := WExited\<rparr>
      | _ \<Rightarrow>
          (case fst (WriteEnvelope (w = WriteOK) env) of
             Inr bytes \<Rightarrow> c\<lparr>cnOut := cnOut c @ bytes, cnWriter := WCheck\<rparr>
           | Inl e \<Rightarrow>
               let err = (if e = TooLarge then Codec ErrFrameTooLarge
                          else if w = WriteFails True then DeadlineExceeded else OtherError)
               in (closeWith (Classify (Some err)) (Some err) c)\<lparr>cnWriter := WExited\<rparr>))"

definition write_step :: "ready \<Rightarrow> write_outcome \<Rightarrow> conn \<Rightarrow> conn option" where
  "write_step pick w c =
     (case cnWriter c of
        WCheck \<Rightarrow> Some (c\<lparr>cnWriter := if cnDone c then WExited else WPick\<rparr>)
      | WPick \<Rightarrow>
          (case cnCtrl c of
             env # q \<Rightarrow> Some (c\<lparr>cnCtrl := q, cnWriter := WHold env\<rparr>)
           | [] \<Rightarrow> Some (c\<lparr>cnWriter := WWait\<rparr>))
      | WWait \<Rightarrow>
          (case pick of
             CtrlReady \<Rightarrow> (case cnCtrl c of env # q \<Rightarrow> Some (c\<lparr>cnCtrl := q, cnWriter := WHold env\<rparr>) | [] \<Rightarrow> None)
           | DataReady \<Rightarrow> (case cnData c of env # q \<Rightarrow> Some (c\<lparr>cnData := q, cnWriter := WHold env\<rparr>) | [] \<Rightarrow> None)
           | DoneReady \<Rightarrow> if cnDone c then Some (c\<lparr>cnWriter := WExited\<rparr>) else None)
      | WHold env \<Rightarrow> Some (write_frame w env c)
      | WExited \<Rightarrow> None)"

section \<open>Moves of a link\<close>

datatype conn_step = Sending bool select Envelope | Reading read_outcome | Writing ready write_outcome | Closing

definition conn_perform :: "conn_step \<Rightarrow> conn \<Rightarrow> conn option" where
  "conn_perform s c =
     (case s of
        Sending wasDone p env \<Rightarrow> if wasDone \<longrightarrow> cnDone c then map_option snd (Conn_Send wasDone p env c) else None
      | Reading r \<Rightarrow> read_step r c
      | Writing p w \<Rightarrow> write_step p w c
      | Closing \<Rightarrow> Some (Conn_Close c))"

text \<open>A schedule of moves, and the envelopes it has accepted: those whose send has returned no error.\<close>

fun conn_run :: "conn_step list \<Rightarrow> conn \<Rightarrow> conn option" where
  "conn_run [] c = Some c"
| "conn_run (s # ss) c = Option.bind (conn_perform s c) (conn_run ss)"

definition accepted :: "conn_step \<Rightarrow> Envelope list" where
  "accepted s = (case s of Sending False TakeQueue env \<Rightarrow> [env] | _ \<Rightarrow> [])"


section \<open>What the writer has put on the wire\<close>

text \<open>The frames of one traffic plane, the one the writer holds, and the bytes of a frame.\<close>

definition in_plane :: "bool \<Rightarrow> Envelope list \<Rightarrow> Envelope list" where
  "in_plane data = filter (\<lambda>env. IsDataPlane (eType env) = data)"

definition held :: "conn \<Rightarrow> Envelope list" where
  "held c = (case cnWriter c of WHold env \<Rightarrow> [env] | _ \<Rightarrow> [])"

definition waiting :: "bool \<Rightarrow> conn \<Rightarrow> Envelope list" where
  "waiting data c = in_plane data (held c) @ (if data then cnData c else cnCtrl c)"

definition wire :: "Envelope \<Rightarrow> byte list" where
  "wire env = frame_of (versioned env)"

definition fits :: "Envelope \<Rightarrow> bool" where
  "fits env = (length (render (enc_Envelope (versioned env))) \<le> MaxFrameSize)"

definition queues_ok :: "conn \<Rightarrow> bool" where
  "queues_ok c \<longleftrightarrow> list_all (\<lambda>env. \<not> IsDataPlane (eType env)) (cnCtrl c) \<and> list_all (\<lambda>env. IsDataPlane (eType env)) (cnData c)"

definition sent_by :: "conn_step \<Rightarrow> conn \<Rightarrow> Envelope list" where
  "sent_by s c = (case s of Writing p w \<Rightarrow> if w = WriteOK then filter fits (held c) else [] | _ \<Rightarrow> [])"

definition lost_by :: "conn_step \<Rightarrow> conn \<Rightarrow> Envelope list" where
  "lost_by s c = (case s of Writing p w \<Rightarrow> if w = WriteOK then filter (\<lambda>env. \<not> fits env) (held c) else held c | _ \<Rightarrow> [])"

lemma in_plane_simps [simp]:
  "in_plane d [] = []" "in_plane d (xs @ ys) = in_plane d xs @ in_plane d ys"
  "in_plane d (env # xs) = (if IsDataPlane (eType env) = d then env # in_plane d xs else in_plane d xs)"
  by (simp_all add: in_plane_def)

lemma closeWith_fields [simp]:
  "cnCtrl (closeWith d e c) = cnCtrl c" "cnData (closeWith d e c) = cnData c" "cnOut (closeWith d e c) = cnOut c"
  "cnWriter (closeWith d e c) = cnWriter c" "cnCfg (closeWith d e c) = cnCfg c" "cnPeer (closeWith d e c) = cnPeer c"
  "cnHandled (closeWith d e c) = cnHandled c" "cnIn (closeWith d e c) = cnIn c" "cnDone (closeWith d e c)"
  by (simp_all add: closeWith_def)

lemma WriteEnvelope_cases:
  "fst (WriteEnvelope ok env) = (if \<not> fits env then Inl TooLarge else if \<not> ok then Inl WriteFailed else Inr (wire env))"
  by (simp add: WriteEnvelope_def fits_def wire_def frame_of_def Let_def)

lemma read_step_frame:
  assumes "read_step r c = Some c'"
  shows "cnCtrl c' = cnCtrl c" "cnData c' = cnData c" "cnOut c' = cnOut c" "cnWriter c' = cnWriter c"
    "cnCfg c' = cnCfg c" "cnPeer c' = cnPeer c" "cnDropped c' = cnDropped c"
  using assms by (auto simp: read_step_def Let_def closeWith_def split: reader.splits read_outcome.splits prod.splits sum.splits if_splits)

lemma Conn_Send_frame:
  assumes "Conn_Send was p env c = Some (r, c')"
  shows "cnOut c' = cnOut c" "cnWriter c' = cnWriter c" "cnIn c' = cnIn c" "cnReader c' = cnReader c" "cnDone c' = cnDone c"
    "cnErr c' = cnErr c" "cnDisposition c' = cnDisposition c" "cnHandled c' = cnHandled c" "cnPeer c' = cnPeer c" "cnCfg c' = cnCfg c"
  using assms by (auto simp: Conn_Send_def split: if_splits select.splits)

lemma Conn_Send_queues:
  assumes "Conn_Send was p env c = Some (r, c')"
  shows "cnCtrl c' = cnCtrl c @ in_plane False (accepted (Sending was p env))"
    "cnData c' = cnData c @ in_plane True (accepted (Sending was p env))"
  using assms by (auto simp: Conn_Send_def accepted_def split: if_splits select.splits)

lemma accepted_simps [simp]: "accepted (Reading r) = []" "accepted (Writing p w) = []" "accepted Closing = []"
  by (simp_all add: accepted_def)

lemma in_plane_waiting:
  "waiting False c = in_plane False (held c) @ cnCtrl c" "waiting True c = in_plane True (held c) @ cnData c"
  by (simp_all add: waiting_def)

text \<open>What a move leaves of the frames: accepted frames join the end of their queue, the writer takes them from the front.\<close>

lemma conn_perform_cases [consumes 1, case_names other sending writing]:
  assumes "conn_perform s c = Some c'"
  obtains "accepted s = []" "sent_by s c = []" "lost_by s c = []" "cnCtrl c' = cnCtrl c" "cnData c' = cnData c"
      "cnOut c' = cnOut c" "cnWriter c' = cnWriter c"
    | was p env r where "s = Sending was p env" "Conn_Send was p env c = Some (r, c')" "sent_by s c = []" "lost_by s c = []"
    | p w where "s = Writing p w" "write_step p w c = Some c'" "accepted s = []"
proof (cases s)
  case (Sending was p env)
  then show ?thesis using assms that(2)
    by (auto simp: conn_perform_def sent_by_def lost_by_def split: if_splits)
next
  case (Reading r)
  then show ?thesis using assms that(1) read_step_frame[of r c c']
    by (auto simp: conn_perform_def sent_by_def lost_by_def)
next
  case (Writing p w)
  then show ?thesis using assms that(3) by (auto simp: conn_perform_def)
next
  case Closing
  then show ?thesis using assms that(1) by (auto simp: conn_perform_def sent_by_def lost_by_def Conn_Close_def)
qed

lemma write_frame_fields:
  "cnCtrl (write_frame w env c) = cnCtrl c" "cnData (write_frame w env c) = cnData c"
  "cnOut (write_frame w env c) = cnOut c @ (if w = WriteOK \<and> fits env then wire env else [])"
  "cnWriter (write_frame w env c) = (if w = WriteOK \<and> fits env then WCheck else WExited)"
  by (cases w; simp add: write_frame_def WriteEnvelope_cases Let_def)+

lemma held_simps [simp]:
  "cnWriter c = WCheck \<Longrightarrow> held c = []" "cnWriter c = WPick \<Longrightarrow> held c = []" "cnWriter c = WWait \<Longrightarrow> held c = []"
  "cnWriter c = WHold env \<Longrightarrow> held c = [env]" "cnWriter c = WExited \<Longrightarrow> held c = []"
  by (simp_all add: held_def)

text \<open>A move of the writer: nothing, a frame taken from a queue, or the frame it holds written or lost.\<close>

lemma write_step_cases [consumes 1, case_names idle take hold]:
  assumes "write_step p w c = Some c'"
  obtains "held c = []" "held c' = []" "cnCtrl c' = cnCtrl c" "cnData c' = cnData c" "cnOut c' = cnOut c" "cnWriter c \<noteq> WExited"
    | env where "held c = []" "held c' = [env]" "cnOut c' = cnOut c" "cnWriter c \<noteq> WExited"
        "cnCtrl c = env # cnCtrl c' \<and> cnData c = cnData c' \<or> cnData c = env # cnData c' \<and> cnCtrl c = cnCtrl c'"
    | env where "cnWriter c = WHold env" "c' = write_frame w env c"
proof (cases "cnWriter c")
  case (WHold env)
  then show ?thesis using assms that(3) by (auto simp: write_step_def)
qed (use assms that(1,2) in \<open>auto simp: write_step_def held_def split: list.splits ready.splits if_splits\<close>)

lemma waiting_both:
  assumes "in_plane False xs @ waiting False c' = waiting False c @ in_plane False ys"
    "in_plane True xs @ waiting True c' = waiting True c @ in_plane True ys"
  shows "in_plane d xs @ waiting d c' = waiting d c @ in_plane d ys"
  using assms by (cases d) simp_all

lemma in_plane_ok: "list_all (\<lambda>env. IsDataPlane (eType env) = d) (in_plane d xs)"
  by (simp add: in_plane_def list_all_iff)

lemma held_writing:
  "sent_by (Writing p w) c = (if w = WriteOK then filter fits (held c) else [])"
  "lost_by (Writing p w) c = (if w = WriteOK then filter (\<lambda>env. \<not> fits env) (held c) else held c)"
  by (simp_all add: sent_by_def lost_by_def)

lemma held_cong: "cnWriter c' = cnWriter c \<Longrightarrow> held c' = held c"
  by (simp add: held_def)

lemma conn_perform_writes:
  assumes "conn_perform s c = Some c'" "queues_ok c"
  shows "cnOut c' = cnOut c @ concat (map wire (sent_by s c)) \<and> queues_ok c' \<and>
    in_plane d (sent_by s c @ lost_by s c) @ waiting d c' = waiting d c @ in_plane d (accepted s)"
  using assms(1)
proof (cases rule: conn_perform_cases)
  case other
  then show ?thesis using assms(2) held_cong[of c' c] by (simp add: waiting_def queues_ok_def)
next
  case (sending was p env r)
  then show ?thesis
    using assms(2) Conn_Send_frame[OF sending(2)] Conn_Send_queues[OF sending(2)] held_cong[of c' c]
      in_plane_ok[of True] in_plane_ok[of False]
    by (simp add: waiting_def queues_ok_def)
next
  case (writing p w)
  from writing(2) show ?thesis
  proof (cases rule: write_step_cases)
    case idle
    then show ?thesis using assms(2) writing(1,3) by (simp add: waiting_def queues_ok_def held_writing)
  next
    case (take env)
    then show ?thesis using assms(2) writing(1,3) by (cases d) (auto simp: waiting_def queues_ok_def held_writing)
  next
    case (hold env)
    moreover have "held c' = []" using hold by (simp add: held_def write_frame_fields)
    ultimately show ?thesis using assms(2) writing(1,3)
      by (auto simp: waiting_def queues_ok_def held_writing write_frame_fields)
  qed
qed

lemma conn_perform_loses:
  assumes "conn_perform s c = Some c'"
  shows "length (lost_by s c) \<le> 1 \<and> (lost_by s c \<noteq> [] \<longrightarrow> cnWriter c' = WExited) \<and> list_all fits (sent_by s c) \<and>
    (cnWriter c = WExited \<longrightarrow> sent_by s c = [] \<and> lost_by s c = [] \<and> cnWriter c' = WExited)"
  using assms
proof (cases rule: conn_perform_cases)
  case (sending was p env r)
  then show ?thesis using Conn_Send_frame[OF sending(2)] by simp
next
  case (writing p w)
  from writing(2) show ?thesis
  proof (cases rule: write_step_cases)
    case (hold env)
    then show ?thesis using writing(1) by (simp add: held_writing write_frame_fields)
  qed (simp_all add: writing(1) held_writing)
qed simp

lemma conn_run_writes:
  assumes "conn_run ss c = Some c'" "queues_ok c"
  shows "\<exists>sent lost. cnOut c' = cnOut c @ concat (map wire sent) \<and> list_all fits sent \<and> queues_ok c' \<and>
    length lost \<le> 1 \<and> (lost \<noteq> [] \<longrightarrow> cnWriter c' = WExited) \<and> (cnWriter c = WExited \<longrightarrow> sent = [] \<and> lost = [] \<and> cnWriter c' = WExited) \<and>
    (\<forall>d. in_plane d (sent @ lost) @ waiting d c' = waiting d c @ in_plane d (concat (map accepted ss)))"
  using assms
proof (induction ss arbitrary: c)
  case Nil
  then show ?case by (intro exI[of _ "[]"]) simp
next
  case (Cons s ss)
  then obtain c1 where c1: "conn_perform s c = Some c1" "conn_run ss c1 = Some c'" by (auto split: bind_splits)
  note one = conn_perform_writes[OF c1(1) Cons.prems(2)] conn_perform_loses[OF c1(1)]
  from Cons.IH[OF c1(2)] one obtain sent lost where ih:
    "cnOut c' = cnOut c1 @ concat (map wire sent)" "list_all fits sent" "queues_ok c'" "length lost \<le> 1"
    "lost \<noteq> [] \<longrightarrow> cnWriter c' = WExited" "cnWriter c1 = WExited \<longrightarrow> sent = [] \<and> lost = [] \<and> cnWriter c' = WExited"
    "\<forall>d. in_plane d (sent @ lost) @ waiting d c' = waiting d c1 @ in_plane d (concat (map accepted ss))"
    by blast
  have "in_plane d (sent_by s c @ sent @ lost_by s c @ lost) @ waiting d c' = waiting d c @ in_plane d (concat (map accepted (s # ss)))" for d
    using conn_perform_writes[OF c1(1) Cons.prems(2), of d] ih(6) spec[OF ih(7), of d] one(2) by (cases "lost_by s c") auto
  moreover have "length (lost_by s c @ lost) \<le> 1" using ih(4,6) one(2) by (cases "lost_by s c") auto
  ultimately show ?case
    using ih one by (intro exI[of _ "sent_by s c @ sent"] exI[of _ "lost_by s c @ lost"]) auto
qed

section \<open>Control before data\<close>

text \<open>How many bulk frames may still be written before a waiting control frame.\<close>

definition overtakers :: "conn \<Rightarrow> nat" where
  "overtakers c = (case cnWriter c of WWait \<Rightarrow> 1 | WHold env \<Rightarrow> (if IsDataPlane (eType env) then 1 else 0) | _ \<Rightarrow> 0)"

definition control_due :: "conn \<Rightarrow> bool" where
  "control_due c \<longleftrightarrow> cnCtrl c \<noteq> [] \<or> (\<exists>env. cnWriter c = WHold env \<and> \<not> IsDataPlane (eType env))"

abbreviation bulk_run :: "Envelope list \<Rightarrow> Envelope list" where
  "bulk_run \<equiv> takeWhile (\<lambda>env. IsDataPlane (eType env))"

lemma control_due_step:
  assumes "conn_perform s c = Some c'" "queues_ok c" "control_due c"
  shows "sent_by s c = [] \<and> (cnWriter c' = WExited \<or> control_due c' \<and> overtakers c' \<le> overtakers c) \<or>
    (\<exists>env. sent_by s c = [env] \<and> \<not> IsDataPlane (eType env)) \<or>
    (\<exists>env. sent_by s c = [env] \<and> control_due c' \<and> overtakers c' < overtakers c)"
  using assms(1)
proof (cases rule: conn_perform_cases)
  case other
  then show ?thesis using assms(3) by (simp add: control_due_def overtakers_def)
next
  case (sending was p env r)
  then show ?thesis using assms(3) Conn_Send_frame[OF sending(2)] Conn_Send_queues[OF sending(2)]
    by (auto simp: control_due_def overtakers_def)
next
  case (writing p w)
  show ?thesis
  proof (cases "cnWriter c")
    case (WHold env)
    then show ?thesis using writing assms(3)
      by (auto simp: write_step_def held_writing write_frame_fields control_due_def overtakers_def)
  qed (use writing assms(2,3) in \<open>auto simp: write_step_def held_writing control_due_def overtakers_def queues_ok_def
      split: list.splits ready.splits if_splits\<close>)
qed

lemma exited_run:
  "conn_run ss c = Some c' \<Longrightarrow> queues_ok c \<Longrightarrow> cnWriter c = WExited \<Longrightarrow> cnOut c' = cnOut c"
  using conn_run_writes[of ss c c'] by auto

lemma control_due_run:
  assumes "conn_run ss c = Some c'" "queues_ok c" "control_due c"
  shows "\<exists>sent. cnOut c' = cnOut c @ concat (map wire sent) \<and> length (bulk_run sent) \<le> overtakers c"
  using assms
proof (induction ss arbitrary: c)
  case Nil
  then show ?case by (intro exI[of _ "[]"]) simp
next
  case (Cons s ss)
  then obtain c1 where c1: "conn_perform s c = Some c1" "conn_run ss c1 = Some c'" by (auto split: bind_splits)
  have q: "queues_ok c1" "cnOut c1 = cnOut c @ concat (map wire (sent_by s c))"
    using conn_perform_writes[OF c1(1) Cons.prems(2)] by auto
  from control_due_step[OF c1(1) Cons.prems(2,3)] show ?case
  proof (elim disjE exE conjE)
    assume *: "sent_by s c = []" "cnWriter c1 = WExited"
    then show ?thesis using q exited_run[OF c1(2) q(1)] by (intro exI[of _ "[]"]) simp
  next
    assume *: "sent_by s c = []" "control_due c1" "overtakers c1 \<le> overtakers c"
    then show ?thesis using q Cons.IH[OF c1(2) q(1)] by fastforce
  next
    fix env assume *: "sent_by s c = [env]" "\<not> IsDataPlane (eType env)"
    obtain sent where "cnOut c' = cnOut c1 @ concat (map wire sent)" using conn_run_writes[OF c1(2) q(1)] by blast
    then show ?thesis using q * by (intro exI[of _ "env # sent"]) simp
  next
    fix env assume *: "sent_by s c = [env]" "control_due c1" "overtakers c1 < overtakers c"
    then obtain sent where "cnOut c' = cnOut c1 @ concat (map wire sent)" "length (bulk_run sent) \<le> overtakers c1"
      using Cons.IH[OF c1(2) q(1)] by blast
    then show ?thesis using q * by (intro exI[of _ "env # sent"]) simp
  qed
qed

lemma overtakers_le: "overtakers c \<le> 1"
  by (simp add: overtakers_def split: writer.split)

lemma queues_ok_New [simp]: "queues_ok (NewConn p raw cfg)"
  by (simp add: queues_ok_def NewConn_def)

lemma waiting_New [simp]: "waiting d (NewConn p raw cfg) = []" "cnOut (NewConn p raw cfg) = []"
  by (simp_all add: waiting_def held_def NewConn_def)

section \<open>What the reader hands on\<close>

text \<open>
  The reader against \<open>ReadFrames\<close> over everything the socket brings: while it runs it has handed on a prefix and the
  rest is still to come; the error the link reports is the one the stream ends with, and then nothing was left.
\<close>

definition read_ok :: "stream \<Rightarrow> conn \<Rightarrow> bool" where
  "read_ok raw c \<longleftrightarrow> (\<exists>got rest e. cnHandled c = map (Pair (cnPeer c)) got \<and> ReadFrames raw = (got @ rest, e) \<and>
     (cnReader c \<noteq> RExited \<longrightarrow> ReadFrames (cnIn c) = (rest, e)) \<and>
     (\<forall>x. cnErr c = Some (Codec x) \<and> x \<noteq> ErrFrameTooLarge \<longrightarrow> rest = [] \<and> x = e))"

lemma ReadFrames_err: "ReadFrame s = (Inl e, s1) \<Longrightarrow> ReadFrames s = ([], e)"
  by (simp add: ReadFrames.simps[of s])

lemma ReadFrames_ok: "ReadFrame s = (Inr env, s1) \<Longrightarrow> ReadFrames s = (env # fst (ReadFrames s1), snd (ReadFrames s1))"
  by (simp add: ReadFrames.simps[of s] case_prod_beta Let_def)

lemma closeWith_err:
  "cnErr (closeWith d e c) = (if cnDone c then cnErr c else e)"
  "cnReader (closeWith d e c) = cnReader c"
  by (simp_all add: closeWith_def)

lemma read_ok_New [simp]: "read_ok raw (NewConn p raw cfg)"
  by (cases "ReadFrames raw") (simp add: read_ok_def NewConn_def)

lemma read_ok_same:
  assumes "read_ok raw c" "cnHandled c' = cnHandled c" "cnPeer c' = cnPeer c" "cnIn c' = cnIn c"
    and "cnReader c' \<noteq> RExited \<Longrightarrow> cnReader c \<noteq> RExited"
    and "\<And>x. cnErr c' = Some (Codec x) \<Longrightarrow> x \<noteq> ErrFrameTooLarge \<Longrightarrow> cnErr c = cnErr c'"
  shows "read_ok raw c'"
  using assms unfolding read_ok_def by (metis (no_types, lifting))

lemma read_ok_read:
  assumes "read_ok raw c" "read_step r c = Some c'"
  shows "read_ok raw c'"
proof (cases "cnReader c = RRead \<and> r = Arrives")
  case False
  then show ?thesis using assms(2)
    by (intro read_ok_same[OF assms(1)])
      (auto simp: read_step_def closeWith_err split: reader.splits read_outcome.splits if_splits)
next
  case True
  obtain got rest e where ok: "cnHandled c = map (Pair (cnPeer c)) got" "ReadFrames raw = (got @ rest, e)"
    "ReadFrames (cnIn c) = (rest, e)" "\<forall>x. cnErr c = Some (Codec x) \<and> x \<noteq> ErrFrameTooLarge \<longrightarrow> rest = [] \<and> x = e"
    using assms(1) True unfolding read_ok_def by auto
  show ?thesis
  proof (cases "ReadFrame (cnIn c)")
    case (Pair res s1)
    show ?thesis
    proof (cases res)
      case (Inl x)
      then have "rest = []" "x = e" using ok(3) ReadFrames_err Pair by auto
      then show ?thesis using assms(2) True ok Pair Inl unfolding read_ok_def
        by - (rule exI[of _ got], rule exI[of _ "[]"], rule exI[of _ e],
          auto simp: read_step_def Let_def closeWith_err split: if_splits)
    next
      case (Inr env)
      then have "rest = env # fst (ReadFrames s1)" "e = snd (ReadFrames s1)" using ok(3) ReadFrames_ok Pair by auto
      then show ?thesis using assms(2) True ok Pair Inr unfolding read_ok_def
        by - (rule exI[of _ "got @ [env]"], rule exI[of _ "fst (ReadFrames s1)"], rule exI[of _ e],
          auto simp: read_step_def)
    qed
  qed
qed

lemma write_frame_err:
  "cnHandled (write_frame w env c) = cnHandled c" "cnPeer (write_frame w env c) = cnPeer c" "cnIn (write_frame w env c) = cnIn c"
  "cnReader (write_frame w env c) = cnReader c"
  "cnErr (write_frame w env c) = Some (Codec x) \<Longrightarrow> x \<noteq> ErrFrameTooLarge \<Longrightarrow> cnErr c = Some (Codec x)"
  by (auto simp: write_frame_def Let_def closeWith_def split: write_outcome.splits sum.splits if_splits)

lemma write_step_err:
  assumes "write_step p w c = Some c'"
  shows "cnHandled c' = cnHandled c \<and> cnPeer c' = cnPeer c \<and> cnIn c' = cnIn c \<and> cnReader c' = cnReader c \<and>
    (\<forall>x. cnErr c' = Some (Codec x) \<and> x \<noteq> ErrFrameTooLarge \<longrightarrow> cnErr c = Some (Codec x))"
proof (cases "cnWriter c")
  case (WHold env)
  then have "c' = write_frame w env c" using assms by (simp add: write_step_def)
  then show ?thesis by (simp add: write_frame_err(1-4)) (blast intro: write_frame_err(5))
qed (use assms in \<open>auto simp: write_step_def split: list.splits ready.splits if_splits\<close>)

lemma read_ok_perform:
  assumes "read_ok raw c" "conn_perform s c = Some c'"
  shows "read_ok raw c'"
proof (cases s)
  case (Sending was p env)
  then obtain r where "Conn_Send was p env c = Some (r, c')" using assms(2) by (auto simp: conn_perform_def split: if_splits)
  from Conn_Send_frame[OF this] show ?thesis by (intro read_ok_same[OF assms(1)]) simp_all
next
  case (Reading r)
  then show ?thesis using assms read_ok_read by (simp add: conn_perform_def)
next
  case (Writing p w)
  then have "write_step p w c = Some c'" using assms(2) by (simp add: conn_perform_def)
  from write_step_err[OF this] show ?thesis by (intro read_ok_same[OF assms(1)]) auto
next
  case Closing
  then show ?thesis using assms(2) by (intro read_ok_same[OF assms(1)]) (auto simp: conn_perform_def Conn_Close_def)
qed

lemma read_ok_run: "conn_run ss c = Some c' \<Longrightarrow> read_ok raw c \<Longrightarrow> read_ok raw c'"
  by (induction ss arbitrary: c) (auto split: bind_splits intro: read_ok_perform)

text \<open>The disposition is always the class of the recorded error.\<close>

definition classified :: "conn \<Rightarrow> bool" where
  "classified c \<longleftrightarrow> cnDisposition c = Classify (cnErr c)"

lemma classified_simps [simp]:
  "classified (NewConn p raw cfg)" "classified (c\<lparr>cnReader := r\<rparr>) = classified c" "classified (c\<lparr>cnWriter := w\<rparr>) = classified c"
  "classified (c\<lparr>cnIn := i\<rparr>) = classified c" "classified (c\<lparr>cnOut := bs\<rparr>) = classified c" "classified (c\<lparr>cnHandled := h\<rparr>) = classified c"
  "classified (c\<lparr>cnCtrl := q\<rparr>) = classified c" "classified (c\<lparr>cnData := q\<rparr>) = classified c" "classified (c\<lparr>cnDone := b\<rparr>) = classified c"
  by (simp_all add: classified_def NewConn_def Classify_def)

lemma classified_close: "classified c \<Longrightarrow> d = Classify e \<Longrightarrow> classified (closeWith d e c)"
  by (simp add: classified_def closeWith_def)

lemma classified_write_frame: "classified c \<Longrightarrow> classified (write_frame w env c)"
  by (auto simp: write_frame_def Let_def Classify_def[of "Some OtherError"] split: write_outcome.splits sum.splits intro!: classified_close)

lemma classified_write: "classified c \<Longrightarrow> write_step p w c = Some c' \<Longrightarrow> classified c'"
  by (cases "cnWriter c") (auto simp: write_step_def classified_write_frame split: list.splits ready.splits if_splits)

lemma classified_read: "classified c \<Longrightarrow> read_step r c = Some c' \<Longrightarrow> classified c'"
  by (auto simp: read_step_def Let_def Classify_def[of "Some OtherError"] split: reader.splits read_outcome.splits prod.splits sum.splits if_splits
      intro!: classified_close)

lemma classified_run: "conn_run ss c = Some c' \<Longrightarrow> classified c \<Longrightarrow> classified c'"
proof (induction ss arbitrary: c)
  case (Cons s ss)
  then obtain c1 where c1: "conn_perform s c = Some c1" "conn_run ss c1 = Some c'" by (auto split: bind_splits)
  have "classified c1"
  proof (cases s)
    case (Sending was p env)
    then obtain r where "Conn_Send was p env c = Some (r, c1)" using c1(1) by (auto simp: conn_perform_def split: if_splits)
    from Conn_Send_frame[OF this] show ?thesis using Cons.prems(2) by (simp add: classified_def)
  next
    case (Reading r)
    then show ?thesis using c1(1) classified_read[OF Cons.prems(2), of r c1] by (simp add: conn_perform_def)
  next
    case (Writing p w)
    then show ?thesis using c1(1) classified_write[OF Cons.prems(2), of p w c1] by (simp add: conn_perform_def)
  next
    case Closing
    then show ?thesis using c1(1) Cons.prems(2) by (auto simp: conn_perform_def Conn_Close_def)
  qed
  then show ?case using Cons.IH c1(2) by blast
qed simp

lemma clean_close_means_EOF:
  "classified c \<Longrightarrow> fst (Conn_Disposition c) = DispositionCleanClose \<Longrightarrow> cnErr c = Some (Codec EOF)"
  by (auto simp: classified_def Conn_Disposition_def Classify_def split: if_splits option.splits net_error.splits)

lemma ReadFrames_take:
  assumes "\<forall>env\<in>set envs. sendable env \<and> eVersion env = CurrentVersion"
  shows "\<exists>m e. ReadFrames \<lparr>sBytes = take k (concat (map frame_of envs)), sEnd = CleanEnd\<rparr> = (take m envs, e) \<and>
    (e = EOF \<longrightarrow> concat (map frame_of (take m envs)) = take k (concat (map frame_of envs)))"
  using assms
proof (induction envs arbitrary: k)
  case Nil
  have "ReadFrame \<lparr>sBytes = [], sEnd = CleanEnd\<rparr> = (Inl EOF, \<lparr>sBytes = [], sEnd = CleanEnd\<rparr>)"
    by (simp add: ReadFrame_def ReadFull_def headerSize_def)
  then show ?case using ReadFrames_err by fastforce
next
  case (Cons env envs)
  let ?r = "concat (map frame_of envs)"
  have ok: "sendable env" "eVersion env = CurrentVersion" using Cons.prems by simp_all
  show ?case
  proof (cases "length (frame_of env) \<le> k")
    case True
    let ?k = "k - length (frame_of env)"
    have "ReadFrame \<lparr>sBytes = frame_of env @ take ?k ?r, sEnd = CleanEnd\<rparr> = (Inr env, \<lparr>sBytes = take ?k ?r, sEnd = CleanEnd\<rparr>)"
      using ReadFrame_frame[OF ok, where s = "\<lparr>sBytes = [], sEnd = CleanEnd\<rparr>"] by simp
    from ReadFrames_ok[OF this] obtain m e where
      "ReadFrames \<lparr>sBytes = frame_of env @ take ?k ?r, sEnd = CleanEnd\<rparr> = (env # take m envs, e)"
      "e = EOF \<longrightarrow> concat (map frame_of (take m envs)) = take ?k ?r"
      using Cons.IH[of ?k] Cons.prems by auto
    then show ?thesis using True by (intro exI[of _ "Suc m"] exI[of _ e]) simp
  next
    case False
    obtain s1 where "ReadFrame \<lparr>sBytes = take k (frame_of env), sEnd = CleanEnd\<rparr> =
        (Inl (if k = 0 then EOF else ErrUnexpectedEOF), s1)"
      using ReadFrame_truncated[of env k] ok(1) False by (metis sendable_def not_le prod.collapse)
    from ReadFrames_err[OF this] show ?thesis using False by (intro exI[of _ 0]) auto
  qed
qed

text \<open>An envelope the node may build: its time and payload are representable, its version is unset or current.\<close>

definition encodable :: "Envelope \<Rightarrow> bool" where
  "encodable env \<longleftrightarrow> int64_ok (eSentAt env) \<and> (case ePayload env of None \<Rightarrow> True | Some j \<Rightarrow> integral j) \<and>
     (eVersion env = 0 \<or> eVersion env = CurrentVersion)"

lemma sendable_versioned: "encodable env \<Longrightarrow> fits env \<Longrightarrow> sendable (versioned env) \<and> eVersion (versioned env) = CurrentVersion"
  by (auto simp: encodable_def fits_def sendable_def versioned_def CurrentVersion_def)

lemma versioned_plane: "in_plane d (map versioned xs) = map versioned (in_plane d xs)"
  by (induction xs) (auto simp: versioned_def)

lemma in_plane_set: "(\<forall>d. set (in_plane d xs) \<subseteq> set ys) \<Longrightarrow> set xs \<subseteq> set ys"
  by (auto simp: in_plane_def)

section \<open>Properties\<close>


definition ex_ccfg :: ConnConfig where
  "ex_ccfg = \<lparr>ccIdleTimeout = 0, ccWriteTimeout = 0, ccCtrlDepth = 0, ccDataDepth = 0, ccCtrlSendTimeout = 0\<rparr>"

definition ex_sends :: "conn_step list" where
  "ex_sends = [Sending False TakeQueue ex_env, Writing CtrlReady WriteOK, Writing CtrlReady WriteOK, Writing CtrlReady WriteOK]"

lemma ex_env_plane: "\<not> IsDataPlane (eType ex_env)" "versioned ex_env = ex_env" "fits ex_env" "encodable ex_env" "wire ex_env = frame_of ex_env"
proof -
  show v: "versioned ex_env = ex_env" by (simp add: versioned_def ex_env_def)
  show "\<not> IsDataPlane (eType ex_env)" by (simp add: IsDataPlane_def ex_env_def plane_of_def knownTypes_def message_types)
  show "fits ex_env" using ex_env_fits by (simp add: fits_def v)
  show "encodable ex_env" by (simp add: encodable_def ex_env_def int64_ok_def CurrentVersion_def)
  show "wire ex_env = frame_of ex_env" by (simp add: wire_def v)
qed

lemma ex_sends_run:
  "\<exists>c. conn_run ex_sends (NewConn ''b'' raw ex_ccfg) = Some c \<and> cnOut c = frame_of ex_env \<and> cnWriter c = WCheck \<and> cnCtrl c = [] \<and> cnData c = []"
  by (simp add: ex_sends_def conn_perform_def Conn_Send_def ex_env_plane room_def NewConn_def ConnConfig_withDefaults_def pos_or_def
      ex_ccfg_def write_step_def write_frame_def WriteEnvelope_cases)

lemma ex_sends_accepted: "concat (map accepted ex_sends) = [ex_env]"
  by (simp add: ex_sends_def accepted_def)



definition ex_reads :: "conn_step list" where
  "ex_reads = [Reading Arrives, Reading Arrives, Reading Arrives, Reading Arrives]"

lemma ex_reads_run:
  assumes "length (frame_of ex_env) \<le> k"
  shows "\<exists>c. conn_run ex_reads (NewConn ''a'' \<lparr>sBytes = take k (frame_of ex_env), sEnd = CleanEnd\<rparr> ex_ccfg) = Some c \<and>
     fst (Conn_Disposition c) = DispositionCleanClose \<and> cnPeer c = ''a''"
proof -
  have ok: "sendable ex_env" "eVersion ex_env = CurrentVersion"
    using sendable_versioned[OF ex_env_plane(4,3)] by (simp_all add: ex_env_plane)
  have "ReadFrame \<lparr>sBytes = frame_of ex_env, sEnd = CleanEnd\<rparr> = (Inr ex_env, \<lparr>sBytes = [], sEnd = CleanEnd\<rparr>)"
    using ReadFrame_frame[OF ok, where s = "\<lparr>sBytes = [], sEnd = CleanEnd\<rparr>" and r = "[]"] by simp
  moreover have "ReadFrame \<lparr>sBytes = [], sEnd = CleanEnd\<rparr> = (Inl EOF, \<lparr>sBytes = [], sEnd = CleanEnd\<rparr>)"
    by (simp add: ReadFrame_def ReadFull_def headerSize_def)
  ultimately show ?thesis using assms
    by (simp add: ex_reads_def conn_perform_def NewConn_def read_step_def closeWith_def Conn_Disposition_def Classify_def)
qed


text \<open>C28: Control goes before data. Once a control frame is queued, however the schedule goes on and however many bulk frames
  are waiting or arriving, the writer puts at most one bulk frame on the wire before a control frame.\<close>

theorem control_before_data:
  assumes "conn_run ss0 (NewConn p raw cfg) = Some c" "cnCtrl c \<noteq> []" "conn_run ss c = Some c'"
  shows "\<exists>sent. cnOut c' = cnOut c @ concat (map wire sent) \<and> length (bulk_run sent) \<le> 1"
proof -
  have "queues_ok c" using conn_run_writes[OF assms(1) queues_ok_New] by blast
  moreover have "control_due c" using assms(2) by (simp add: control_due_def)
  ultimately show ?thesis using control_due_run[OF assms(3)] overtakers_le[of c] order_trans by blast
qed

theorem control_before_data_witness:
  "\<exists>c c' sent. conn_run (take 1 ex_sends) (NewConn ''b'' \<lparr>sBytes = [], sEnd = CleanEnd\<rparr> ex_ccfg) = Some c \<and>
     conn_run (drop 1 ex_sends) c = Some c' \<and> cnOut c' = cnOut c @ concat (map wire sent) \<and> length (bulk_run sent) \<le> 1"
proof -
  let ?new = "NewConn ''b'' \<lparr>sBytes = [], sEnd = CleanEnd\<rparr> ex_ccfg"
  obtain c' where c': "conn_run ex_sends ?new = Some c'" using ex_sends_run by blast
  obtain c where c: "conn_run (take 1 ex_sends) ?new = Some c" "cnCtrl c \<noteq> []" "conn_run (drop 1 ex_sends) c = Some c'"
    using c' by (auto simp: ex_sends_def conn_perform_def Conn_Send_def ex_env_plane room_def NewConn_def ConnConfig_withDefaults_def
        pos_or_def ex_ccfg_def)
  show ?thesis using control_before_data[OF c] c by blast
qed

text \<open>C34: One envelope over the frame limit costs a healthy peer its life. When the writer of an open link comes to such an envelope,
  nothing is written and the link is closed as a protocol violation, although the peer has done nothing; the node it is
  reported to then declares that peer, alive or suspect, dead.\<close>

theorem oversized_send_kills_peer:
  assumes "cnWriter c = WHold env" "\<not> fits env" "\<not> cnDone c" "w \<noteq> WriteNoDeadline"
    and "peer n (pID p) = Some m" "mState m \<noteq> StateDead" "pID p \<noteq> self n" "pID p \<noteq> ''''"
  shows "\<exists>c'. conn_perform (Writing pick w) c = Some c' \<and> cnOut c' = cnOut c \<and>
    fst (Conn_Disposition c') = DispositionProtocolViolation \<and>
    peer (handlePeerEvent e (PeerDown p (fst (Conn_Disposition c'))) n) (pID p) = Some (dead_of m)"
proof -
  let ?c = "write_frame w env c"
  have "conn_perform (Writing pick w) c = Some ?c" using assms(1) by (simp add: conn_perform_def write_step_def)
  moreover have c': "cnOut ?c = cnOut c" "fst (Conn_Disposition ?c) = DispositionProtocolViolation"
    using assms(2-4)
    by (auto simp: write_frame_def WriteEnvelope_cases closeWith_def Conn_Disposition_def Classify_def IsProtocolViolation_def
        split: write_outcome.split)
  moreover have "peer (handlePeerEvent e (PeerDown p DispositionProtocolViolation) n) (pID p) = Some (dead_of m)"
    using assms(5-8) SetState_dead[OF assms(5,6)] self_no_det[OF no_det_markDead, of e "pID p" "n\<lparr>nAttached := nAttached n |-| {|pID p|}\<rparr>"]
    by (auto simp: handlePeerEvent_def event_peer_def peerDown_def Let_def case_prod_beta membershipChanged_peer)
  ultimately show ?thesis by auto
qed

definition ex_big :: Envelope where
  "ex_big = ex_env\<lparr>ePayload := Some (JStr (replicate (MaxFrameSize + 1) (CHR ''x'')))\<rparr>"

lemma length_render_field:
  assumes "(k, v) \<in> set fs"
  shows "length (render v) \<le> length (render (JObj fs))"
proof -
  have "render_str k @ CHR '':'' # render v \<in> set (map (\<lambda>(k, v). render_str k @ CHR '':'' # render v) fs)"
    using assms by force
  from commas_member[OF this] show ?thesis by simp
qed

lemma ex_big_unfit: "\<not> fits ex_big"
proof -
  let ?p = "JStr (replicate (MaxFrameSize + 1) (CHR ''x''))"
  have "MaxFrameSize + 1 \<le> length (render ?p)" using render_str_length[of "replicate (MaxFrameSize + 1) (CHR ''x'')"] by simp
  also have "length (render ?p) \<le> length (render (enc_Envelope ex_big))"
    unfolding enc_Envelope_def
    by (rule length_render_field[of "''payload''"]) (simp add: ex_big_def ex_env_def omitempty_def)
  finally show ?thesis by (simp add: fits_def versioned_def ex_big_def ex_env_def)
qed

theorem oversized_send_kills_peer_witness:
  "\<exists>c'. conn_perform (Writing CtrlReady WriteOK) ((NewConn ''a'' \<lparr>sBytes = [], sEnd = CleanEnd\<rparr> ex_ccfg)\<lparr>cnWriter := WHold ex_big\<rparr>) = Some c' \<and>
     fst (Conn_Disposition c') = DispositionProtocolViolation \<and>
     peer (handlePeerEvent ex_envr (PeerDown \<lparr>pID = ''a'', pAdvertise = ''a'', pIncarnation = 1, pKnownPeers = []\<rparr>
       (fst (Conn_Disposition c'))) ex_pair) ''a'' = Some (dead_of (ex_member ''a'' RoleWorker (Fin 5)))"
  using oversized_send_kills_peer[of "(NewConn ''a'' \<lparr>sBytes = [], sEnd = CleanEnd\<rparr> ex_ccfg)\<lparr>cnWriter := WHold ex_big\<rparr>" ex_big WriteOK
      ex_pair "\<lparr>pID = ''a'', pAdvertise = ''a'', pIncarnation = 1, pKnownPeers = []\<rparr>" "ex_member ''a'' RoleWorker (Fin 5)" CtrlReady ex_envr]
    ex_big_unfit ex_pair_simps(2,3) by (auto simp: NewConn_def ex_member_def)

end
