(* ===== verification/Handshake.thy ===== *)
theory Handshake
  imports Conn
begin

text \<open>
  HELLO and HELLO_ACK, \<open>pkg/network/handshake.go\<close> with the two payloads of \<open>pkg/protocol/message.go\<close>: what a dialer
  and an acceptor learn about each other over one socket, and every way this fails. A socket is what it will
  bring (\<open>stream\<close>); what is written to it is part of the result. Errors are the sentinels \<open>errors.Is\<close> finds
  in them. The wording of a rejection (\<open>fmt.Sprintf\<close>) is the parameter \<open>say\<close>.
\<close>

section \<open>Payloads\<close>

record HelloPayload =
  hpAdvertise :: NodeAddress
  hpIncarnation :: int
  hpKnownPeers :: "NodeAddress list"

definition enc_Hello :: "HelloPayload \<Rightarrow> json" where
  "enc_Hello p = JObj ([(''advertise'', JStr (hpAdvertise p)), (''incarnation'', JInt (hpIncarnation p))] @
     omitempty (hpKnownPeers p = []) ''known_peers'' (enc_ids (hpKnownPeers p)))"

definition dec_Hello :: "json \<Rightarrow> HelloPayload option" where
  "dec_Hello = dec_struct (\<lambda>o1. do {
     a \<leftarrow> fld dec_str '''' ''advertise'' o1; i \<leftarrow> fld dec_int64 0 ''incarnation'' o1;
     k \<leftarrow> fld dec_ids [] ''known_peers'' o1;
     Some \<lparr>hpAdvertise = a, hpIncarnation = i, hpKnownPeers = k\<rparr> })"

record HelloAckPayload =
  akAccepted :: bool
  akReason :: string
  akAdvertise :: NodeAddress
  akIncarnation :: int
  akKnownPeers :: "NodeAddress list"

definition enc_HelloAck :: "HelloAckPayload \<Rightarrow> json" where
  "enc_HelloAck p = JObj ([(''accepted'', JBool (akAccepted p))] @
     omitempty (akReason p = '''') ''reason'' (JStr (akReason p)) @
     [(''advertise'', JStr (akAdvertise p)), (''incarnation'', JInt (akIncarnation p))] @
     omitempty (akKnownPeers p = []) ''known_peers'' (enc_ids (akKnownPeers p)))"

definition dec_HelloAck :: "json \<Rightarrow> HelloAckPayload option" where
  "dec_HelloAck = dec_struct (\<lambda>o1. do {
     c \<leftarrow> fld dec_bool False ''accepted'' o1; r \<leftarrow> fld dec_str '''' ''reason'' o1;
     a \<leftarrow> fld dec_str '''' ''advertise'' o1; i \<leftarrow> fld dec_int64 0 ''incarnation'' o1;
     k \<leftarrow> fld dec_ids [] ''known_peers'' o1;
     Some \<lparr>akAccepted = c, akReason = r, akAdvertise = a, akIncarnation = i, akKnownPeers = k\<rparr> })"

section \<open>Identities, errors, the socket\<close>

record Identity =
  idID :: NodeID
  idAdvertise :: NodeAddress
  idIncarnation :: int

datatype sentinel = ErrHandshakeRejected | ErrHandshakeTimeout | ErrSelfConnect | Cause net_error

definition info_of :: "NodeID \<Rightarrow> NodeAddress \<Rightarrow> int \<Rightarrow> NodeAddress list \<Rightarrow> PeerInfo" where
  "info_of i a n k = \<lparr>pID = i, pAdvertise = a, pIncarnation = n, pKnownPeers = k\<rparr>"

definition no_info :: PeerInfo where "no_info = info_of '''' '''' 0 []"

text \<open>
  How the socket behaves: whether the deadline can be set and cleared, how the write goes, whether a failed read
  is the deadline's; and the correlation ID and the wall clock of the envelope built.
\<close>

record socket =
  skIn :: stream
  skSet :: bool
  skClear :: bool
  skWrite :: write_outcome
  skLate :: bool
  skMsgID :: string
  skWall :: int

definition timeoutOr :: "net_error \<Rightarrow> sentinel list" where
  "timeoutOr e = (if e = DeadlineExceeded then [ErrHandshakeTimeout, Cause DeadlineExceeded] else [Cause e])"

definition read_error :: "socket \<Rightarrow> frame_error \<Rightarrow> net_error" where
  "read_error k e = (if e = ErrRead then (if skLate k then DeadlineExceeded else OtherError) else Codec e)"

definition malformed :: "sentinel list" where "malformed = [Cause (Codec ErrMalformedFrame)]"

text \<open>A write to the socket: the bytes that went out and the error, if any.\<close>

definition put_envelope :: "socket \<Rightarrow> Envelope \<Rightarrow> byte list \<times> net_error option" where
  "put_envelope k env =
     (case fst (WriteEnvelope (skWrite k = WriteOK) env) of
        Inr bytes \<Rightarrow> (bytes, None)
      | Inl TooLarge \<Rightarrow> ([], Some (Codec ErrFrameTooLarge))
      | Inl WriteFailed \<Rightarrow> ([], Some (if skWrite k = WriteFails True then DeadlineExceeded else OtherError)))"

section \<open>The dialer\<close>

definition hello_of :: "socket \<Rightarrow> Identity \<Rightarrow> NodeAddress list \<Rightarrow> Envelope" where
  "hello_of k me known = \<lparr>eVersion = CurrentVersion, eType = TypeHello, eFrom = idID me, eTo = '''', eID = skMsgID k,
     eSentAt = skWall k, ePayload = Some (enc_Hello
       \<lparr>hpAdvertise = idAdvertise me, hpIncarnation = idIncarnation me, hpKnownPeers = known\<rparr>)\<rparr>"

definition judge_ack :: "Identity \<Rightarrow> Envelope \<Rightarrow> PeerInfo \<times> sentinel list" where
  "judge_ack me ack =
     (if eType ack \<noteq> TypeHelloAck then (no_info, malformed)
      else case PayloadOf dec_HelloAck ack of
        None \<Rightarrow> (no_info, malformed)
      | Some p \<Rightarrow>
          (info_of (eFrom ack) (akAdvertise p) (akIncarnation p) (akKnownPeers p),
           if \<not> akAccepted p \<and> eFrom ack = idID me then [ErrSelfConnect, ErrHandshakeRejected]
           else if \<not> akAccepted p then [ErrHandshakeRejected]
           else if eFrom ack = '''' then malformed
           else if eFrom ack = idID me then [ErrSelfConnect]
           else []))"

text \<open>The result is what was learnt, the errors (none: success) and the bytes written.\<close>

definition dialHandshake :: "socket \<Rightarrow> Identity \<Rightarrow> NodeAddress list \<Rightarrow> (PeerInfo \<times> sentinel list) \<times> byte list" where
  "dialHandshake k me known =
     (if \<not> skSet k then ((no_info, [Cause OtherError]), [])
      else let (out, werr) = put_envelope k (hello_of k me known) in
        (case werr of
           Some e \<Rightarrow> ((no_info, timeoutOr e), out)
         | None \<Rightarrow>
             (case ReadFrame (skIn k) of
                (Inl e, _) \<Rightarrow> ((no_info, timeoutOr (read_error k e)), out)
              | (Inr ack, _) \<Rightarrow>
                  let (info, errs) = judge_ack me ack in
                  ((info, if errs \<noteq> [] then errs else if \<not> skClear k then [Cause OtherError] else []), out))))"

section \<open>The acceptor\<close>

datatype rejection = WrongVersion | WrongType MessageType | BadPayload | EmptyID | SelfID NodeID | Older NodeID int int | TieLost NodeID NodeID

definition reply_to :: "socket \<Rightarrow> Identity \<Rightarrow> Envelope option \<Rightarrow> HelloAckPayload \<Rightarrow> Envelope" where
  "reply_to k me req p = \<lparr>eVersion = CurrentVersion, eType = TypeHelloAck, eFrom = idID me,
     eTo = (case req of None \<Rightarrow> '''' | Some r \<Rightarrow> eFrom r), eID = (case req of None \<Rightarrow> skMsgID k | Some r \<Rightarrow> eID r),
     eSentAt = skWall k, ePayload = Some (enc_HelloAck p)\<rparr>"

definition sendRejection :: "socket \<Rightarrow> Identity \<Rightarrow> Envelope option \<Rightarrow> string \<Rightarrow> byte list" where
  "sendRejection k me req reason =
     fst (put_envelope k (reply_to k me req \<lparr>akAccepted = False, akReason = reason, akAdvertise = idAdvertise me,
       akIncarnation = idIncarnation me, akKnownPeers = []\<rparr>))"

text \<open>
  The acceptor up to its caller's decision: the HELLO and what it says, or what was learnt, the errors and the
  rejection written.
\<close>

definition read_hello ::
  "(rejection \<Rightarrow> string) \<Rightarrow> socket \<Rightarrow> Identity \<Rightarrow> ((PeerInfo \<times> sentinel list) \<times> byte list) + Envelope \<times> PeerInfo" where
  "read_hello say k me =
     (if \<not> skSet k then Inl ((no_info, [Cause OtherError]), [])
      else case ReadFrame (skIn k) of
        (Inl e, _) \<Rightarrow>
          Inl ((no_info, timeoutOr (read_error k e)),
               if e = ErrUnsupportedVersion then sendRejection k me None (say WrongVersion) else [])
      | (Inr hello, _) \<Rightarrow>
          if eType hello \<noteq> TypeHello
          then Inl ((no_info, malformed), sendRejection k me (Some hello) (say (WrongType (eType hello))))
          else case PayloadOf dec_Hello hello of
            None \<Rightarrow> Inl ((no_info, malformed), sendRejection k me (Some hello) (say BadPayload))
          | Some p \<Rightarrow>
              let info = info_of (eFrom hello) (hpAdvertise p) (hpIncarnation p) (hpKnownPeers p) in
              if pID info = '''' then Inl ((info, [ErrHandshakeRejected]), sendRejection k me (Some hello) (say EmptyID))
              else if pID info = idID me
              then Inl ((info, [ErrSelfConnect]), sendRejection k me (Some hello) (say (SelfID (pID info))))
              else Inr (hello, info))"

text \<open>The acceptor after its caller has agreed.\<close>

definition write_ack :: "socket \<Rightarrow> Identity \<Rightarrow> NodeAddress list \<Rightarrow> Envelope \<Rightarrow> PeerInfo \<Rightarrow> (PeerInfo \<times> sentinel list) \<times> byte list" where
  "write_ack k me known hello info =
     (let (out, werr) = put_envelope k (reply_to k me (Some hello) \<lparr>akAccepted = True, akReason = '''',
            akAdvertise = idAdvertise me, akIncarnation = idIncarnation me, akKnownPeers = known\<rparr>)
      in ((info, case werr of Some e \<Rightarrow> timeoutOr e | None \<Rightarrow> if \<not> skClear k then [Cause OtherError] else []), out))"

definition acceptHandshake ::
  "(rejection \<Rightarrow> string) \<Rightarrow> socket \<Rightarrow> Identity \<Rightarrow> NodeAddress list \<Rightarrow> (PeerInfo \<Rightarrow> bool \<times> string) \<Rightarrow>
     (PeerInfo \<times> sentinel list) \<times> byte list" where
  "acceptHandshake say k me known accept =
     (case read_hello say k me of
        Inl r \<Rightarrow> r
      | Inr (hello, info) \<Rightarrow>
          let (agreed, reason) = accept info in
          if \<not> agreed then ((info, [ErrHandshakeRejected]), sendRejection k me (Some hello) reason)
          else write_ack k me known hello info)"

section \<open>Lemmas\<close>

lemma dec_enc_Hello: "int64_ok (hpIncarnation p) \<Longrightarrow> dec_Hello (enc_Hello p) = Some p"
  by (cases "hpKnownPeers p = []") (simp_all add: dec_Hello_def enc_Hello_def dec_defs dec_enc_int64 int64_ok_def)

lemma dec_enc_HelloAck: "int64_ok (akIncarnation p) \<Longrightarrow> dec_HelloAck (enc_HelloAck p) = Some p"
  by (cases "akKnownPeers p = []"; cases "akReason p = ''''")
    (simp_all add: dec_HelloAck_def enc_HelloAck_def dec_defs dec_enc_int64 int64_ok_def)

lemma integral_ids [simp]: "integral (enc_ids xs)"
  by (simp add: enc_ids_def list_all_iff)

lemma integral_hello [simp]: "integral (enc_Hello p)" "integral (enc_HelloAck q)"
  by (simp_all add: enc_Hello_def enc_HelloAck_def omitempty_def)

lemma hello_of_NewEnvelope:
  "NewEnvelope (skMsgID k) (skWall k) TypeHello (idID me) '''' (Some (enc_Hello
     \<lparr>hpAdvertise = idAdvertise me, hpIncarnation = idIncarnation me, hpKnownPeers = known\<rparr>)) = Some (hello_of k me known)"
  by (simp add: NewEnvelope_def hello_of_def)

lemma reply_to_NewReply:
  "NewReply (skMsgID k) (skWall k) req TypeHelloAck (idID me) (Some (enc_HelloAck p)) = Some (reply_to k me (Some req) p)"
  "NewEnvelope (skMsgID k) (skWall k) TypeHelloAck (idID me) '''' (Some (enc_HelloAck p)) = Some (reply_to k me None p)"
  by (simp_all add: NewReply_def NewEnvelope_def reply_to_def)

definition ack_of :: "socket \<Rightarrow> Identity \<Rightarrow> NodeAddress list \<Rightarrow> Envelope \<Rightarrow> Envelope" where
  "ack_of k me known hello = reply_to k me (Some hello) \<lparr>akAccepted = True, akReason = '''', akAdvertise = idAdvertise me,
     akIncarnation = idIncarnation me, akKnownPeers = known\<rparr>"

definition nack_of :: "socket \<Rightarrow> Identity \<Rightarrow> Envelope option \<Rightarrow> string \<Rightarrow> Envelope" where
  "nack_of k me req reason = reply_to k me req \<lparr>akAccepted = False, akReason = reason, akAdvertise = idAdvertise me,
     akIncarnation = idIncarnation me, akKnownPeers = []\<rparr>"

text \<open>A socket on which nothing goes wrong.\<close>

definition sound :: "socket \<Rightarrow> bool" where
  "sound k \<longleftrightarrow> skSet k \<and> skClear k \<and> skWrite k = WriteOK \<and> int64_ok (skWall k)"

lemma put_fits: "sound k \<Longrightarrow> fits env \<Longrightarrow> eVersion env = CurrentVersion \<Longrightarrow> put_envelope k env = (frame_of env, None)"
  by (simp add: put_envelope_def WriteEnvelope_cases wire_def versioned_def sound_def CurrentVersion_def)

lemma read_fits:
  assumes "sound k" "fits env" "eVersion env = CurrentVersion" "eSentAt env = skWall k" "ePayload env = Some j" "integral j"
  shows "ReadFrame \<lparr>sBytes = frame_of env, sEnd = CleanEnd\<rparr> = (Inr env, \<lparr>sBytes = [], sEnd = CleanEnd\<rparr>)"
proof -
  have "sendable env"
    using assms by (simp add: sendable_def fits_def versioned_def sound_def CurrentVersion_def)
  from ReadFrame_frame[OF this assms(3), where s = "\<lparr>sBytes = [], sEnd = CleanEnd\<rparr>" and r = "[]"] show ?thesis by simp
qed

lemma hello_fields [simp]:
  "eVersion (hello_of k me known) = CurrentVersion" "eSentAt (hello_of k me known) = skWall k" "eType (hello_of k me known) = TypeHello"
  "eFrom (hello_of k me known) = idID me"
  "ePayload (hello_of k me known) = Some (enc_Hello \<lparr>hpAdvertise = idAdvertise me, hpIncarnation = idIncarnation me, hpKnownPeers = known\<rparr>)"
  by (simp_all add: hello_of_def)

lemma reply_fields [simp]:
  "eVersion (reply_to k me req p) = CurrentVersion" "eSentAt (reply_to k me req p) = skWall k" "eType (reply_to k me req p) = TypeHelloAck"
  "eFrom (reply_to k me req p) = idID me" "ePayload (reply_to k me req p) = Some (enc_HelloAck p)"
  by (simp_all add: reply_to_def)

lemma read_hello_honest:
  assumes "sound k" "sound k1" "skIn k = \<lparr>sBytes = frame_of (hello_of k1 d kd), sEnd = CleanEnd\<rparr>" "fits (hello_of k1 d kd)"
    and "int64_ok (idIncarnation d)"
  defines "hello \<equiv> hello_of k1 d kd" and "info \<equiv> info_of (idID d) (idAdvertise d) (idIncarnation d) kd"
  shows "read_hello say k me =
    (if idID d = '''' then Inl ((info, [ErrHandshakeRejected]), sendRejection k me (Some hello) (say EmptyID))
     else if idID d = idID me then Inl ((info, [ErrSelfConnect]), sendRejection k me (Some hello) (say (SelfID (idID d))))
     else Inr (hello, info))"
proof -
  have "ReadFrame (skIn k) = (Inr hello, \<lparr>sBytes = [], sEnd = CleanEnd\<rparr>)"
    unfolding assms(3) hello_def by (rule read_fits[OF assms(2,4) _ _ hello_fields(5)]) simp_all
  moreover have "PayloadOf dec_Hello hello = Some \<lparr>hpAdvertise = idAdvertise d, hpIncarnation = idIncarnation d, hpKnownPeers = kd\<rparr>"
    using assms(5) by (simp add: hello_def PayloadOf_def dec_enc_Hello)
  ultimately show ?thesis
    using assms(1) by (simp add: read_hello_def sound_def hello_def info_def info_of_def Let_def)
qed

lemma judge_reply:
  assumes "int64_ok (idIncarnation a)"
  shows "judge_ack d (ack_of k a known req) = (info_of (idID a) (idAdvertise a) (idIncarnation a) known,
      if idID a = '''' then malformed else if idID a = idID d then [ErrSelfConnect] else [])"
    and "judge_ack d (nack_of k a r reason) = (info_of (idID a) (idAdvertise a) (idIncarnation a) [],
      if idID a = idID d then [ErrSelfConnect, ErrHandshakeRejected] else [ErrHandshakeRejected])"
  using assms by (simp_all add: judge_ack_def ack_of_def nack_of_def PayloadOf_def dec_enc_HelloAck)

lemma dial_reply:
  assumes "sound k1" "sound k2" "fits (hello_of k1 d kd)" "fits ack" "ack = ack_of k2 a ka req \<or> ack = nack_of k2 a r reason"
    and "skIn k1 = \<lparr>sBytes = frame_of ack, sEnd = CleanEnd\<rparr>"
  shows "dialHandshake k1 d kd = (judge_ack d ack, frame_of (hello_of k1 d kd))"
proof -
  obtain p where p: "ePayload ack = Some (enc_HelloAck p)" using assms(5) by (auto simp: ack_of_def nack_of_def)
  have "ReadFrame (skIn k1) = (Inr ack, \<lparr>sBytes = [], sEnd = CleanEnd\<rparr>)"
    unfolding assms(6) by (rule read_fits[OF assms(2,4) _ _ p]) (use assms(5) in \<open>auto simp: ack_of_def nack_of_def\<close>)
  then show ?thesis
    using assms(1) by (cases "judge_ack d ack") (simp add: dialHandshake_def sound_def put_fits[OF assms(1,3)] Let_def)
qed

lemmas dial_ack = dial_reply[OF _ _ _ _ disjI1[OF refl]]
lemmas dial_nack = dial_reply[OF _ _ _ _ disjI2[OF refl]]

section \<open>Properties\<close>


definition ex_sock :: "byte list \<Rightarrow> socket" where
  "ex_sock bs = \<lparr>skIn = \<lparr>sBytes = bs, sEnd = CleanEnd\<rparr>, skSet = True, skClear = True, skWrite = WriteOK, skLate = False,
     skMsgID = ''m'', skWall = 0\<rparr>"

definition ex_ident :: "NodeID \<Rightarrow> Identity" where
  "ex_ident i = \<lparr>idID = i, idAdvertise = i, idIncarnation = 1\<rparr>"

abbreviation ex_hello :: Envelope where
  "ex_hello \<equiv> hello_of (ex_sock []) (ex_ident ''a'') []"

lemma ex_sock_simps [simp]:
  "sound (ex_sock bs)" "skIn (ex_sock bs) = \<lparr>sBytes = bs, sEnd = CleanEnd\<rparr>" "skMsgID (ex_sock bs) = ''m''" "skWall (ex_sock bs) = 0"
  by (simp_all add: sound_def ex_sock_def int64_ok_def)

lemma ex_sock_any [simp]:
  assumes "NO_MATCH [] bs"
  shows "hello_of (ex_sock bs) d kd = hello_of (ex_sock []) d kd"
    "ack_of (ex_sock bs) d kd req = ack_of (ex_sock []) d kd req" "nack_of (ex_sock bs) d r why = nack_of (ex_sock []) d r why"
  by (simp_all add: hello_of_def ack_of_def nack_of_def reply_to_def split: option.split)

lemmas fits_eval = fits_def versioned_def CurrentVersion_def enc_Envelope_def omitempty_def commas_def render_str_def esc_char_def
  render_int_def nat_digits.simps MaxFrameSize_def enc_ids_def message_types

lemma ex_fits:
  "fits ex_hello" "fits (ack_of (ex_sock []) (ex_ident ''b'') [] ex_hello)" "fits (nack_of (ex_sock []) (ex_ident ''b'') (Some ex_hello) ''no'')"
proof -
  show "fits ex_hello" by (simp add: fits_eval hello_of_def ex_sock_def ex_ident_def enc_Hello_def)
  show "fits (ack_of (ex_sock []) (ex_ident ''b'') [] ex_hello)"
    by (simp add: fits_eval hello_of_def ex_sock_def ex_ident_def enc_HelloAck_def ack_of_def reply_to_def)
  show "fits (nack_of (ex_sock []) (ex_ident ''b'') (Some ex_hello) ''no'')"
    by (simp add: fits_eval hello_of_def ex_sock_def ex_ident_def enc_HelloAck_def nack_of_def reply_to_def)
qed


end
