(* ===== verification/Pool.thy ===== *)
theory Pool
  imports Handshake "HOL-Library.Multiset"
begin

text \<open>
  The connection pool, \<open>pkg/network\<close> (pool.go, registry.go, admit.go, dial.go). The shared state is a record;
  every goroutine is the list of what it still has to do, and \<open>perform\<close> is one atomic piece of it: a critical section of
  the pool's mutex, or a wait, an emission or a handshake outside it. Goroutines interleave freely. Entries are compared
  by pointer in the source and numbered here, in the order of registration.
\<close>

section \<open>State\<close>

record peerEntry =
  peInfo :: PeerInfo
  peConn :: conn
  peGone :: bool

record PoolConfig =
  pcSelf :: Identity
  pcConn :: ConnConfig
  pcHandshakeTimeout :: duration
  pcMaxRedials :: int
  pcMaxPending :: int
  pcEventBuffer :: int

definition PoolConfig_withDefaults :: "PoolConfig \<Rightarrow> PoolConfig" where
  "PoolConfig_withDefaults c =
     c\<lparr>pcHandshakeTimeout := pos_or (3 * Second) (pcHandshakeTimeout c), pcMaxPending := pos_or 128 (pcMaxPending c),
       pcEventBuffer := pos_or 64 (pcEventBuffer c)\<rparr>"

type_synonym eid = nat

text \<open>
  \<open>plEvents\<close> is every event delivered so far, \<open>plCtxDone\<close> the pool's context, \<open>plStopped\<close> the dial loops whose own context
  is cancelled. The set of sockets in mid-handshake only lets \<open>Close\<close> cut handshakes short, which here may fail at any time.
\<close>

record pool =
  plCfg :: PoolConfig
  plEntries :: "peerEntry list"
  plPeers :: "(NodeID, eid) fmap"
  plDials :: "(NodeAddress, nat) fmap"
  plLoops :: nat
  plStopped :: "nat fset"
  plAdmitting :: int
  plClaims :: "(NodeID, int) fmap"
  plDialing :: "(NodeAddress, int) fmap"
  plDeferred :: "(NodeID, eid) fmap"
  plDownInFlight :: "(NodeID, eid) fmap"
  plAddrOf :: "(NodeID, NodeAddress fset) fmap"
  plKnown :: "NodeAddress fset"
  plClosed :: bool
  plCtxDone :: bool
  plEvents :: "PeerEvent list"

definition NewPool :: "PoolConfig \<Rightarrow> pool" where
  "NewPool cfg = \<lparr>plCfg = PoolConfig_withDefaults cfg, plEntries = [], plPeers = fmempty, plDials = fmempty, plLoops = 0,
     plStopped = {||}, plAdmitting = 0, plClaims = fmempty, plDialing = fmempty, plDeferred = fmempty, plDownInFlight = fmempty,
     plAddrOf = fmempty, plKnown = {||}, plClosed = False, plCtxDone = False, plEvents = []\<rparr>"

definition entry :: "pool \<Rightarrow> eid \<Rightarrow> peerEntry" where
  "entry p e = plEntries p ! e"

abbreviation eid_of :: "pool \<Rightarrow> eid \<Rightarrow> NodeID" where
  "eid_of p e \<equiv> pID (peInfo (entry p e))"

definition set_entry :: "eid \<Rightarrow> peerEntry \<Rightarrow> pool \<Rightarrow> pool" where
  "set_entry e x p = p\<lparr>plEntries := (plEntries p)[e := x]\<rparr>"

definition retire :: "eid \<Rightarrow> pool \<Rightarrow> pool" where
  "retire e p = set_entry e ((entry p e)\<lparr>peGone := True\<rparr>) p"

definition set_conn :: "eid \<Rightarrow> conn \<Rightarrow> pool \<Rightarrow> pool" where
  "set_conn e c p = set_entry e ((entry p e)\<lparr>peConn := c\<rparr>) p"

definition learnAddr :: "NodeAddress \<Rightarrow> pool \<Rightarrow> pool" where
  "learnAddr a p = (if a = '''' \<or> a = idAdvertise (pcSelf (plCfg p)) then p else p\<lparr>plKnown := finsert a (plKnown p)\<rparr>)"

definition Known :: "pool \<Rightarrow> NodeAddress list" where
  "Known p = sorted_list_of_fset (plKnown p)"

definition Peers :: "pool \<Rightarrow> PeerInfo list" where
  "Peers p = map (\<lambda>e. peInfo (entry p e)) (fm_vals (plPeers p))"

definition isConnected :: "NodeID \<Rightarrow> pool \<Rightarrow> bool" where
  "isConnected i p = (i \<noteq> '''' \<and> (fmlookup (plPeers p) i \<noteq> None \<or> fmlookup (plDeferred p) i \<noteq> None))"

text \<open>\<open>Pool.Send\<close> up to handing the frame to the connection, which is a move of that connection.\<close>

definition Pool_Send :: "NodeID \<Rightarrow> pool \<Rightarrow> eid option" where
  "Pool_Send i p = fmlookup (plPeers p) i"

text \<open>\<open>BroadcastRecipients\<close>: one send per peer of the snapshot; \<open>picks\<close> is what each send's select takes.\<close>

definition broadcast_one :: "(eid \<Rightarrow> bool \<times> select) \<Rightarrow> Envelope \<Rightarrow> pool \<times> NodeID list \<Rightarrow> NodeID \<times> eid \<Rightarrow> pool \<times> NodeID list" where
  "broadcast_one picks env acc ie =
     (case Conn_Send (fst (picks (snd ie))) (snd (picks (snd ie))) env (peConn (entry (fst acc) (snd ie))) of
        Some (None, c) \<Rightarrow> (set_conn (snd ie) c (fst acc), snd acc @ [fst ie])
      | Some (Some _, c) \<Rightarrow> (set_conn (snd ie) c (fst acc), snd acc)
      | None \<Rightarrow> acc)"

definition BroadcastRecipients :: "(eid \<Rightarrow> bool \<times> select) \<Rightarrow> Envelope \<Rightarrow> pool \<Rightarrow> pool \<times> NodeID list" where
  "BroadcastRecipients picks env p =
     foldl (broadcast_one picks env) (p, []) (map (\<lambda>i. (i, the (fmlookup (plPeers p) i))) (fm_keys (plPeers p)))"

section \<open>Claims and the tie-break\<close>

definition claimed :: "pool \<Rightarrow> eid \<Rightarrow> bool" where
  "claimed p e =
     (let info = peInfo (entry p e) in
      0 < fm_get 0 (plClaims p) (pID info) \<or> 0 < fm_get 0 (plDialing p) (pAdvertise info) \<or>
      fBex (fm_get {||} (plAddrOf p) (pID info)) (\<lambda>a. 0 < fm_get 0 (plDialing p) a))"

definition preferred :: "Identity \<Rightarrow> PeerInfo \<Rightarrow> PeerInfo \<Rightarrow> bool \<Rightarrow> bool" where
  "preferred me candidate existing weInitiated =
     (if pIncarnation candidate \<noteq> pIncarnation existing then pIncarnation existing < pIncarnation candidate
      else if weInitiated then idID me < pID candidate
      else pID candidate < idID me)"

definition bump :: "'k \<Rightarrow> ('k, int) fmap \<Rightarrow> ('k, int) fmap" where
  "bump k m = fmupd k (fm_get 0 m k + 1) m"

definition unbump :: "'k \<Rightarrow> ('k, int) fmap \<Rightarrow> ('k, int) fmap" where
  "unbump k m = (let n = fm_get 0 m k - 1 in if n \<le> 0 then fmdrop k m else fmupd k n m)"

text \<open>A deferred PeerDown no claim covers any more is decided; those decided are emitted after the lock is released.\<close>

definition settle_down :: "NodeID \<Rightarrow> pool \<times> eid list \<Rightarrow> pool \<times> eid list" where
  "settle_down i pe =
     (let (p, es) = pe in
      case fmlookup (plDeferred p) i of
        None \<Rightarrow> pe
      | Some e \<Rightarrow> if claimed p e then pe
          else (p\<lparr>plDeferred := fmdrop i (plDeferred p), plDownInFlight := fmupd i e (plDownInFlight p)\<rparr>, es @ [e]))"

definition releaseClaim :: "NodeID \<Rightarrow> pool \<Rightarrow> pool \<times> eid list" where
  "releaseClaim i p = settle_down i (p\<lparr>plClaims := unbump i (plClaims p)\<rparr>, [])"

definition releaseDialing :: "NodeAddress \<Rightarrow> pool \<Rightarrow> pool \<times> eid list" where
  "releaseDialing a p = fold settle_down (fm_keys (plDeferred p)) (p\<lparr>plDialing := unbump a (plDialing p)\<rparr>, [])"

definition admitPolicy :: "(rejection \<Rightarrow> string) \<Rightarrow> PeerInfo \<Rightarrow> pool \<Rightarrow> (bool \<times> string) \<times> pool" where
  "admitPolicy say info p =
     (case fmlookup (plPeers p) (pID info) of
        Some e \<Rightarrow>
          let x = peInfo (entry p e) in
          if \<not> preferred (pcSelf (plCfg p)) info x False
          then ((False, if pIncarnation info < pIncarnation x then say (Older (pID info) (pIncarnation x) (pIncarnation info))
                        else say (TieLost (pID info) (idID (pcSelf (plCfg p))))), p)
          else ((True, ''''), p\<lparr>plClaims := bump (pID info) (plClaims p)\<rparr>)
      | None \<Rightarrow> ((True, ''''), p\<lparr>plClaims := bump (pID info) (plClaims p)\<rparr>))"

text \<open>The critical section of \<open>register\<close>: the new entry with what it replaces, un-parks or has to wait for.\<close>

definition register :: "PeerInfo \<Rightarrow> stream \<Rightarrow> bool \<Rightarrow> pool \<Rightarrow> (eid \<times> eid option \<times> eid option \<times> eid option) option \<times> pool" where
  "register info raw weInitiated p =
     (let existing = fmlookup (plPeers p) (pID info) in
      if plClosed p then (None, p)
      else if (case existing of Some x \<Rightarrow> \<not> preferred (pcSelf (plCfg p)) info (peInfo (entry p x)) weInitiated | None \<Rightarrow> False)
      then (None, p)
      else
        let parked = fmlookup (plDeferred p) (pID info);
            p1 = (case parked of None \<Rightarrow> p | Some d \<Rightarrow> retire d (p\<lparr>plDeferred := fmdrop (pID info) (plDeferred p)\<rparr>));
            e = length (plEntries p1);
            p2 = p1\<lparr>plEntries := plEntries p1 @ [\<lparr>peInfo = info, peConn = NewConn (pID info) raw (pcConn (plCfg p1)), peGone = False\<rparr>],
                    plPeers := fmupd (pID info) e (plPeers p1)\<rparr>
        in (Some (e, existing, parked, fmlookup (plDownInFlight p) (pID info)),
            fold learnAddr (pAdvertise info # pKnownPeers info) p2))"

text \<open>The critical section of \<open>watch\<close>: silent, parked or decided.\<close>

definition watch :: "eid \<Rightarrow> pool \<Rightarrow> bool \<times> pool" where
  "watch e p =
     (let i = eid_of p e in
      if fmlookup (plPeers p) i \<noteq> Some e then (False, retire e p)
      else let p1 = p\<lparr>plPeers := fmdrop i (plPeers p)\<rparr> in
        if claimed p1 e then (False, p1\<lparr>plDeferred := fmupd i e (plDeferred p1)\<rparr>)
        else (True, p1\<lparr>plDownInFlight := fmupd i e (plDownInFlight p1)\<rparr>))"

definition emit_down :: "eid \<Rightarrow> pool \<Rightarrow> pool" where
  "emit_down e p = p\<lparr>plEvents := plEvents p @ [PeerDown (peInfo (entry p e)) (fst (Conn_Disposition (peConn (entry p e))))]\<rparr>"

definition emit_up :: "PeerInfo \<Rightarrow> pool \<Rightarrow> pool" where
  "emit_up info p = p\<lparr>plEvents := plEvents p @ [PeerUp info]\<rparr>"

definition down_done :: "eid \<Rightarrow> pool \<Rightarrow> pool" where
  "down_done e p =
     (let i = eid_of p e in
      retire e (if fmlookup (plDownInFlight p) i = Some e then p\<lparr>plDownInFlight := fmdrop i (plDownInFlight p)\<rparr> else p))"

section \<open>Goroutines\<close>

text \<open>
  What a goroutine still has to do. \<open>WatchNew\<close> is the \<open>watch\<close> of whatever entry the preceding registration returns; a
  context is a dial loop's own or, for inbound connections, the pool's.
\<close>

datatype job =
    AdmitHello
  | AdmitAck Envelope PeerInfo
  | Register PeerInfo bool
  | WatchNew "nat option"
  | Swap eid eid
  | SwapDrain eid eid
  | SwapSend eid eid "Envelope list"
  | AwaitGone eid PeerInfo
  | EmitUp PeerInfo
  | ReleaseClaim NodeID
  | ReleaseDialing NodeAddress
  | EmitDown eid
  | DownDone eid
  | Watch "nat option" eid
  | Dial nat NodeAddress int
  | DialHs nat NodeAddress int
  | AfterReject nat NodeAddress NodeID int
  | WaitConn nat NodeID
  | WaitGone nat eid NodeID
  | Redial nat NodeAddress int
  | Pause nat NodeAddress int
  | EndDial nat NodeAddress
  | CloseAll "eid list"

text \<open>What the outside contributes to a piece of work: nothing, a cancelled context, no route, a socket, a select.\<close>

datatype choice = Go | Cancel | NoRoute | Sock socket | Pick bool select

definition ctx_done :: "nat option \<Rightarrow> pool \<Rightarrow> bool" where
  "ctx_done c p = (plCtxDone p \<or> (case c of None \<Rightarrow> False | Some l \<Rightarrow> l |\<in>| plStopped p))"

definition watch_jobs :: "eid option \<Rightarrow> job list \<Rightarrow> job list" where
  "watch_jobs oe js =
     concat (map (\<lambda>j. case j of WatchNew c \<Rightarrow> (case oe of None \<Rightarrow> [] | Some e \<Rightarrow> [Watch c e]) | _ \<Rightarrow> [j]) js)"

text \<open>\<open>register\<close>: the critical section and what its caller does next, the caller's own work \<open>rest\<close> included.\<close>

definition register_jobs :: "PeerInfo \<Rightarrow> bool \<Rightarrow> stream \<Rightarrow> job list \<Rightarrow> pool \<Rightarrow> job list \<times> pool" where
  "register_jobs info weInitiated raw rest p =
     (let (r, p1) = register info raw weInitiated p in
      case r of
        None \<Rightarrow> (watch_jobs None rest, p1)
      | Some (e, existing, parked, inFlight) \<Rightarrow>
          ((case existing of
              Some x \<Rightarrow> [Swap x e]
            | None \<Rightarrow> if parked \<noteq> None then []
                else (case inFlight of None \<Rightarrow> [EmitUp info] | Some f \<Rightarrow> [AwaitGone f info]))
           @ watch_jobs (Some e) rest, p1))"

definition admit_hello :: "(rejection \<Rightarrow> string) \<Rightarrow> socket \<Rightarrow> pool \<Rightarrow> job list \<times> pool" where
  "admit_hello say k p =
     (case read_hello say k (pcSelf (plCfg p)) of
        Inl _ \<Rightarrow> ([], p\<lparr>plAdmitting := plAdmitting p - 1\<rparr>)
      | Inr (hello, info) \<Rightarrow>
          let ((agreed, _), p1) = admitPolicy say info p in
          if agreed then ([AdmitAck hello info], p1) else ([], p1\<lparr>plAdmitting := plAdmitting p1 - 1\<rparr>))"

definition admit_ack :: "socket \<Rightarrow> Envelope \<Rightarrow> PeerInfo \<Rightarrow> pool \<Rightarrow> job list \<times> pool" where
  "admit_ack k hello info p =
     (let p1 = p\<lparr>plAdmitting := plAdmitting p - 1\<rparr> in
      if snd (fst (write_ack k (pcSelf (plCfg p)) (Known p) hello info)) = []
      then ([Register info False, ReleaseClaim (pID info), WatchNew None], p1)
      else ([ReleaseClaim (pID info)], p1))"

text \<open>\<open>dialOnce\<close> after the claim on the address, with what \<open>dialLoop\<close> makes of its result.\<close>

definition dial_hs :: "nat \<Rightarrow> NodeAddress \<Rightarrow> int \<Rightarrow> choice \<Rightarrow> pool \<Rightarrow> job list \<times> pool" where
  "dial_hs l addr n c p =
     (case c of
        Sock k \<Rightarrow>
          if plClosed p then ([ReleaseDialing addr, Redial l addr n], p)
          else let ((info, errs), _) = dialHandshake k (pcSelf (plCfg p)) (Known p); i = pID info;
              named = (i \<noteq> '''');
              p1 = (if named then p\<lparr>plClaims := bump i (plClaims p),
                       plAddrOf := fmupd i (finsert addr (fm_get {||} (plAddrOf p) i)) (plAddrOf p)\<rparr> else p);
              release = (if named then [ReleaseClaim i] else []) @ [ReleaseDialing addr]
          in (if errs = [] then [Register info True] @ release @ [WatchNew (Some l), WaitConn l i, Pause l addr 0]
              else if ErrSelfConnect \<in> set errs then release @ [EndDial l addr]
              else if ErrHandshakeRejected \<in> set errs then release @ [AfterReject l addr i n]
              else release @ [Redial l addr n], p1)
      | _ \<Rightarrow> ([ReleaseDialing addr, Redial l addr n], p))"

text \<open>Closing the loser of a swap and moving its unsent control frames to the winner, one send at a time.\<close>

definition swap_send :: "eid \<Rightarrow> eid \<Rightarrow> Envelope list \<Rightarrow> bool \<Rightarrow> select \<Rightarrow> pool \<Rightarrow> (job list \<times> pool) option" where
  "swap_send x e envs wasDone pick p =
     (case envs of
        [] \<Rightarrow> Some ([], retire x p)
      | env # q \<Rightarrow>
          if IsDataPlane (eType env) then Some ([SwapSend x e q], p)
          else if (wasDone \<longrightarrow> cnDone (peConn (entry p e))) \<and> pick \<noteq> TakeContext
          then map_option (\<lambda>(_, c). ([SwapSend x e q], set_conn e c p)) (Conn_Send wasDone pick env (peConn (entry p e)))
          else None)"

definition jobs_down :: "pool \<times> eid list \<Rightarrow> job list \<times> pool" where
  "jobs_down pe = (map EmitDown (snd pe), fst pe)"

text \<open>One piece of a goroutine's work: what it does next, before \<open>rest\<close>; \<open>None\<close> while it has to wait.\<close>

definition do_job :: "(rejection \<Rightarrow> string) \<Rightarrow> choice \<Rightarrow> job \<Rightarrow> pool \<Rightarrow> (job list \<times> pool) option" where
  "do_job say c j p =
     (case j of
        AdmitHello \<Rightarrow> (case c of Sock k \<Rightarrow> Some (admit_hello say k p) | _ \<Rightarrow> None)
      | AdmitAck hello info \<Rightarrow> (case c of Sock k \<Rightarrow> Some (admit_ack k hello info p) | _ \<Rightarrow> None)
      | Register info w \<Rightarrow> None
      | WatchNew x \<Rightarrow> None
      | Swap x e \<Rightarrow> Some ([SwapDrain x e], set_conn x (Conn_Close (peConn (entry p x))) p)
      | SwapDrain x e \<Rightarrow> map_option (\<lambda>(envs, cx). ([SwapSend x e envs], set_conn x cx p)) (drainUnsent (peConn (entry p x)))
      | SwapSend x e envs \<Rightarrow> (case c of Pick was pick \<Rightarrow> swap_send x e envs was pick p | _ \<Rightarrow> None)
      | AwaitGone f info \<Rightarrow> if peGone (entry p f) then Some ([EmitUp info], p) else None
      | EmitUp info \<Rightarrow> if c = Go then Some ([], emit_up info p) else if plCtxDone p then Some ([], p) else None
      | ReleaseClaim i \<Rightarrow> Some (jobs_down (releaseClaim i p))
      | ReleaseDialing a \<Rightarrow> Some (jobs_down (releaseDialing a p))
      | EmitDown e \<Rightarrow> if c = Go then Some ([DownDone e], emit_down e p) else if plCtxDone p then Some ([DownDone e], p) else None
      | DownDone e \<Rightarrow> Some ([], down_done e p)
      | Watch x e \<Rightarrow>
          if cnDone (peConn (entry p e)) then Some (let (down, p1) = watch e p in (if down then [EmitDown e] else [], p1))
          else if ctx_done x p then Some ([Watch x e], set_conn e (Conn_Close (peConn (entry p e))) p)
          else None
      | Dial l addr n \<Rightarrow> Some ([DialHs l addr n], p\<lparr>plDialing := bump addr (plDialing p)\<rparr>)
      | DialHs l addr n \<Rightarrow> Some (dial_hs l addr n c p)
      | AfterReject l addr i n \<Rightarrow> Some (if isConnected i p then [WaitConn l i, Pause l addr 0] else [Redial l addr n], p)
      | WaitConn l i \<Rightarrow>
          Some (case fmlookup (plPeers p) i of
                  Some e \<Rightarrow> [WaitGone l e i]
                | None \<Rightarrow> (case fmlookup (plDeferred p) i of Some e \<Rightarrow> [WaitGone l e i] | None \<Rightarrow> []), p)
      | WaitGone l e i \<Rightarrow>
          if c = Cancel then (if ctx_done (Some l) p then Some ([], set_conn e (Conn_Close (peConn (entry p e))) p) else None)
          else if peGone (entry p e) then Some ([WaitConn l i], p) else None
      | Redial l addr n \<Rightarrow>
          Some (if 0 < pcMaxRedials (plCfg p) \<and> pcMaxRedials (plCfg p) < n + 1 then [EndDial l addr] else [Pause l addr (n + 1)], p)
      | Pause l addr n \<Rightarrow>
          if c = Cancel then (if ctx_done (Some l) p then Some ([EndDial l addr], p) else None) else Some ([Dial l addr n], p)
      | EndDial l addr \<Rightarrow>
          Some ([], if fmlookup (plDials p) addr = Some l then p\<lparr>plDials := fmdrop addr (plDials p)\<rparr> else p)
      | CloseAll es \<Rightarrow>
          Some ([], foldl (\<lambda>p e. set_conn e (Conn_Close (peConn (entry p e))) p) (p\<lparr>plCtxDone := True\<rparr>) es))"

definition perform :: "(rejection \<Rightarrow> string) \<Rightarrow> choice \<Rightarrow> job \<Rightarrow> job list \<Rightarrow> pool \<Rightarrow> (job list \<times> pool) option" where
  "perform say c j rest p =
     (case j of
        Register info w \<Rightarrow> (case c of Sock k \<Rightarrow> Some (register_jobs info w (skIn k) rest p) | _ \<Rightarrow> None)
      | _ \<Rightarrow> map_option (\<lambda>(js, p1). (js @ rest, p1)) (do_job say c j p))"

section \<open>Moves of the pool\<close>

datatype move = Run nat choice | Connect NodeAddress | Forget NodeAddress | Admit | ClosePool | Link eid conn_step

definition Pool_Connect :: "NodeAddress \<Rightarrow> pool \<Rightarrow> job list list \<times> pool" where
  "Pool_Connect addr p =
     (if plClosed p \<or> fmlookup (plDials p) addr \<noteq> None then ([], p)
      else let p1 = learnAddr addr p; l = plLoops p1 in
        ([[Dial l addr 0]], p1\<lparr>plDials := fmupd addr l (plDials p1), plLoops := l + 1\<rparr>))"

definition Pool_Forget :: "NodeAddress \<Rightarrow> pool \<Rightarrow> pool" where
  "Pool_Forget addr p =
     (let p1 = p\<lparr>plDials := fmdrop addr (plDials p)\<rparr> in
      case fmlookup (plDials p) addr of None \<Rightarrow> p1 | Some l \<Rightarrow> p1\<lparr>plStopped := finsert l (plStopped p1)\<rparr>)"

definition Pool_Admit :: "pool \<Rightarrow> job list list \<times> pool" where
  "Pool_Admit p =
     (if plClosed p \<or> pcMaxPending (plCfg p) \<le> plAdmitting p then ([], p)
      else ([[AdmitHello]], p\<lparr>plAdmitting := plAdmitting p + 1\<rparr>))"

definition Pool_Close :: "pool \<Rightarrow> job list list \<times> pool" where
  "Pool_Close p = (if plClosed p then ([], p) else ([[CloseAll (fm_vals (plPeers p))]], p\<lparr>plClosed := True\<rparr>))"

type_synonym system = "pool \<times> job list list"

definition pool_move :: "(rejection \<Rightarrow> string) \<Rightarrow> move \<Rightarrow> system \<Rightarrow> system option" where
  "pool_move say m s =
     (let (p, ths) = s in
      case m of
        Run k c \<Rightarrow>
          if k < length ths then
            (case ths ! k of
               [] \<Rightarrow> None
             | j # rest \<Rightarrow> map_option (\<lambda>(js, p1). (p1, ths[k := js])) (perform say c j rest p))
          else None
      | Connect addr \<Rightarrow> (let (js, p1) = Pool_Connect addr p in Some (p1, ths @ js))
      | Forget addr \<Rightarrow> Some (Pool_Forget addr p, ths)
      | Admit \<Rightarrow> (let (js, p1) = Pool_Admit p in Some (p1, ths @ js))
      | ClosePool \<Rightarrow> (let (js, p1) = Pool_Close p in Some (p1, ths @ js))
      | Link e st \<Rightarrow>
          if e < length (plEntries p) then map_option (\<lambda>c. (set_conn e c p, ths)) (conn_perform st (peConn (entry p e))) else None)"

fun pool_run :: "(rejection \<Rightarrow> string) \<Rightarrow> move list \<Rightarrow> system \<Rightarrow> system option" where
  "pool_run say [] s = Some s"
| "pool_run say (m # ms) s = Option.bind (pool_move say m s) (pool_run say ms)"

end
