(* ===== verification/PoolEvents.thy ===== *)
theory PoolEvents
  imports Pool
begin

text \<open>
  The promise of the pool's events: for every peer they alternate, beginning with a PeerUp, however the goroutines
  interleave. The account behind it is an invariant over the core of the shared state and the jobs the
  goroutines still have.
\<close>

section \<open>The part of the state the events depend on\<close>

record core =
  cClaims :: "(NodeID, int) fmap"
  cPeers :: "(NodeID, eid) fmap"
  cDeferred :: "(NodeID, eid) fmap"
  cDown :: "(NodeID, eid) fmap"
  cEvents :: "PeerEvent list"
  cIds :: "NodeID list"
  cGone :: "bool list"

definition core_of :: "pool \<Rightarrow> core" where
  "core_of p = \<lparr>cClaims = plClaims p, cPeers = plPeers p, cDeferred = plDeferred p, cDown = plDownInFlight p, cEvents = plEvents p,
     cIds = map (\<lambda>x. pID (peInfo x)) (plEntries p), cGone = map peGone (plEntries p)\<rparr>"

definition history :: "PeerEvent list \<Rightarrow> NodeID \<Rightarrow> PeerEvent list" where
  "history evs i = filter (\<lambda>ev. pID (event_peer ev) = i) evs"

text \<open>The consumer's view of a peer: up after an odd number of events.\<close>

definition up_now :: "PeerEvent list \<Rightarrow> NodeID \<Rightarrow> bool" where
  "up_now evs i = odd (length (history evs i))"

definition up_event :: "PeerEvent \<Rightarrow> bool" where
  "up_event ev = (case ev of PeerUp _ \<Rightarrow> True | PeerDown _ _ \<Rightarrow> False)"

fun alternating :: "bool \<Rightarrow> PeerEvent list \<Rightarrow> bool" where
  "alternating up [] = True"
| "alternating up (ev # evs) = (up_event ev = up \<and> alternating (\<not> up) evs)"

definition linked :: "core \<Rightarrow> NodeID \<Rightarrow> bool" where
  "linked k i = (fmlookup (cPeers k) i \<noteq> None \<or> fmlookup (cDeferred k) i \<noteq> None)"

text \<open>The roles of a job in the account, and how many jobs have one.\<close>

definition claim_job :: "NodeID \<Rightarrow> job \<Rightarrow> bool" where
  "claim_job i j = (case j of ReleaseClaim k \<Rightarrow> k = i | AdmitAck h info \<Rightarrow> pID info = i | _ \<Rightarrow> False)"

definition up_job :: "NodeID \<Rightarrow> job \<Rightarrow> bool" where
  "up_job i j = (case j of AwaitGone f info \<Rightarrow> pID info = i | EmitUp info \<Rightarrow> pID info = i | _ \<Rightarrow> False)"

definition down_job :: "NodeID list \<Rightarrow> NodeID \<Rightarrow> job \<Rightarrow> bool" where
  "down_job ns i j = (case j of EmitDown e \<Rightarrow> ns ! e = i | _ \<Rightarrow> False)"

definition watch_job :: "eid \<Rightarrow> job \<Rightarrow> bool" where
  "watch_job e j = (case j of Watch c k \<Rightarrow> k = e | _ \<Rightarrow> False)"

definition fate_job :: "eid \<Rightarrow> job \<Rightarrow> bool" where
  "fate_job e j = (watch_job e j \<or> j = EmitDown e \<or> j = DownDone e)"

definition swap_job :: "eid \<Rightarrow> job \<Rightarrow> bool" where
  "swap_job x j = (case j of Swap a b \<Rightarrow> a = x | SwapDrain a b \<Rightarrow> a = x | SwapSend a b q \<Rightarrow> a = x | _ \<Rightarrow> False)"

definition known_job :: "nat \<Rightarrow> job \<Rightarrow> bool" where
  "known_job n j = (case j of Swap a b \<Rightarrow> a < n | SwapDrain a b \<Rightarrow> a < n | SwapSend a b q \<Rightarrow> a < n | AwaitGone f info \<Rightarrow> f < n
     | EmitDown e \<Rightarrow> e < n | DownDone e \<Rightarrow> e < n | Watch c e \<Rightarrow> e < n | _ \<Rightarrow> True)"

definition num :: "(job \<Rightarrow> bool) \<Rightarrow> job multiset \<Rightarrow> nat" where
  "num P M = size (filter_mset P M)"

lemma num_simps [simp]:
  "num P {#} = 0" "num P (add_mset j M) = (if P j then Suc (num P M) else num P M)" "num P (M + N) = num P M + num P N"
  by (simp_all add: num_def)

lemma num_0: "num P M = 0 \<longleftrightarrow> (\<forall>j\<in>#M. \<not> P j)"
  by (auto simp: num_def filter_mset_eq_conv)

lemma num_pos: "0 < num P M \<longleftrightarrow> (\<exists>j\<in>#M. P j)"
  using num_0[of P M] by auto

lemmas role_defs = claim_job_def up_job_def down_job_def watch_job_def fate_job_def swap_job_def known_job_def

lemma role_simps [simp]:
  "\<not> claim_job i (Swap a b)"
  "\<not> up_job i (Swap a b)"
  "\<not> down_job ns i (Swap a b)"
  "\<not> watch_job e (Swap a b)"
  "\<not> fate_job e (Swap a b)"
  "swap_job x (Swap a b) \<longleftrightarrow> a = x"
  "known_job n (Swap a b) \<longleftrightarrow> a < n"
  "\<not> claim_job i (SwapDrain a b)"
  "\<not> up_job i (SwapDrain a b)"
  "\<not> down_job ns i (SwapDrain a b)"
  "\<not> watch_job e (SwapDrain a b)"
  "\<not> fate_job e (SwapDrain a b)"
  "swap_job x (SwapDrain a b) \<longleftrightarrow> a = x"
  "known_job n (SwapDrain a b) \<longleftrightarrow> a < n"
  "\<not> claim_job i (SwapSend a b q)"
  "\<not> up_job i (SwapSend a b q)"
  "\<not> down_job ns i (SwapSend a b q)"
  "\<not> watch_job e (SwapSend a b q)"
  "\<not> fate_job e (SwapSend a b q)"
  "swap_job x (SwapSend a b q) \<longleftrightarrow> a = x"
  "known_job n (SwapSend a b q) \<longleftrightarrow> a < n"
  "\<not> claim_job i (AwaitGone f info)"
  "up_job i (AwaitGone f info) \<longleftrightarrow> pID info = i"
  "\<not> down_job ns i (AwaitGone f info)"
  "\<not> watch_job e (AwaitGone f info)"
  "\<not> fate_job e (AwaitGone f info)"
  "\<not> swap_job x (AwaitGone f info)"
  "known_job n (AwaitGone f info) \<longleftrightarrow> f < n"
  "\<not> claim_job i (EmitUp info)"
  "up_job i (EmitUp info) \<longleftrightarrow> pID info = i"
  "\<not> down_job ns i (EmitUp info)"
  "\<not> watch_job e (EmitUp info)"
  "\<not> fate_job e (EmitUp info)"
  "\<not> swap_job x (EmitUp info)"
  "known_job n (EmitUp info)"
  "claim_job i (ReleaseClaim c) \<longleftrightarrow> c = i"
  "\<not> up_job i (ReleaseClaim c)"
  "\<not> down_job ns i (ReleaseClaim c)"
  "\<not> watch_job e (ReleaseClaim c)"
  "\<not> fate_job e (ReleaseClaim c)"
  "\<not> swap_job x (ReleaseClaim c)"
  "known_job n (ReleaseClaim c)"
  "claim_job i (AdmitAck h info) \<longleftrightarrow> pID info = i"
  "\<not> up_job i (AdmitAck h info)"
  "\<not> down_job ns i (AdmitAck h info)"
  "\<not> watch_job e (AdmitAck h info)"
  "\<not> fate_job e (AdmitAck h info)"
  "\<not> swap_job x (AdmitAck h info)"
  "known_job n (AdmitAck h info)"
  "\<not> claim_job i (EmitDown d)"
  "\<not> up_job i (EmitDown d)"
  "down_job ns i (EmitDown d) \<longleftrightarrow> ns ! d = i"
  "\<not> watch_job e (EmitDown d)"
  "fate_job e (EmitDown d) \<longleftrightarrow> d = e"
  "\<not> swap_job x (EmitDown d)"
  "known_job n (EmitDown d) \<longleftrightarrow> d < n"
  "\<not> claim_job i (DownDone d)"
  "\<not> up_job i (DownDone d)"
  "\<not> down_job ns i (DownDone d)"
  "\<not> watch_job e (DownDone d)"
  "fate_job e (DownDone d) \<longleftrightarrow> d = e"
  "\<not> swap_job x (DownDone d)"
  "known_job n (DownDone d) \<longleftrightarrow> d < n"
  "\<not> claim_job i (Watch w d)"
  "\<not> up_job i (Watch w d)"
  "\<not> down_job ns i (Watch w d)"
  "watch_job e (Watch w d) \<longleftrightarrow> d = e"
  "fate_job e (Watch w d) \<longleftrightarrow> d = e"
  "\<not> swap_job x (Watch w d)"
  "known_job n (Watch w d) \<longleftrightarrow> d < n"
  by (auto simp: role_defs)

section \<open>The invariant\<close>

text \<open>
  Claims are counted right; what the consumer believes, plus an Up on its way, is what is registered or parked, plus a Down on
  its way; an Up on its way is for a linked peer; a Down on its way is recorded, its entry is not retired and the consumer
  believes the peer up; an Up waits for the very Down that is on its way; every entry has one fate; what is registered is
  watched and not parked; the loser of a swap is neither; jobs name existing entries; each peer's events alternate.
\<close>

definition inv :: "core \<Rightarrow> job multiset \<Rightarrow> bool" where
  "inv k M \<longleftrightarrow>
     (\<forall>i. fm_get 0 (cClaims k) i = int (num (claim_job i) M)) \<and>
     (\<forall>i. of_bool (linked k i) + num (down_job (cIds k) i) M = of_bool (up_now (cEvents k) i) + num (up_job i) M) \<and>
     (\<forall>i. 0 < num (up_job i) M \<longrightarrow> linked k i) \<and>
     (\<forall>e. EmitDown e \<in># M \<longrightarrow> fmlookup (cDown k) (cIds k ! e) = Some e \<and> \<not> cGone k ! e \<and> up_now (cEvents k) (cIds k ! e)) \<and>
     (\<forall>f info e. AwaitGone f info \<in># M \<and> EmitDown e \<in># M \<and> cIds k ! e = pID info \<longrightarrow> e = f) \<and>
     (\<forall>info e. EmitUp info \<in># M \<and> EmitDown e \<in># M \<longrightarrow> cIds k ! e \<noteq> pID info) \<and>
     (\<forall>e<length (cIds k). num (fate_job e) M + of_bool (fmlookup (cDeferred k) (cIds k ! e) = Some e) \<le> 1) \<and>
     (\<forall>i e. fmlookup (cPeers k) i = Some e \<longrightarrow> e < length (cIds k) \<and> cIds k ! e = i \<and> num (watch_job e) M = 1 \<and>
        fmlookup (cDeferred k) i = None \<and> \<not> cGone k ! e) \<and>
     (\<forall>i e. fmlookup (cDeferred k) i = Some e \<longrightarrow> e < length (cIds k) \<and> cIds k ! e = i \<and> \<not> cGone k ! e) \<and>
     (\<forall>x. 0 < num (swap_job x) M \<longrightarrow> fmlookup (cPeers k) (cIds k ! x) \<noteq> Some x \<and> fmlookup (cDeferred k) (cIds k ! x) \<noteq> Some x \<and>
        EmitDown x \<notin># M) \<and>
     (\<forall>j\<in>#M. known_job (length (cIds k)) j) \<and>
     (length (cGone k) = length (cIds k) \<and> (\<forall>i f. fmlookup (cDown k) i = Some f \<longrightarrow> f < length (cIds k))) \<and>
     (\<forall>i. alternating True (history (cEvents k) i))"

text \<open>An Up on its way is covered by a claim: that is what keeps the peer linked until it is out.\<close>

definition guarded :: "job multiset \<Rightarrow> bool" where
  "guarded M \<longleftrightarrow> (\<forall>i. 0 < num (up_job i) M \<longrightarrow> 0 < num (claim_job i) M)"

lemma invD:
  assumes "inv k M"
  shows "fm_get 0 (cClaims k) i = int (num (claim_job i) M)"
    and "of_bool (linked k i) + num (down_job (cIds k) i) M = of_bool (up_now (cEvents k) i) + num (up_job i) M"
    and "0 < num (up_job i) M \<Longrightarrow> linked k i"
    and "EmitDown e \<in># M \<Longrightarrow> fmlookup (cDown k) (cIds k ! e) = Some e \<and> \<not> cGone k ! e \<and> up_now (cEvents k) (cIds k ! e)"
    and "AwaitGone f info \<in># M \<Longrightarrow> EmitDown e \<in># M \<Longrightarrow> cIds k ! e = pID info \<Longrightarrow> e = f"
    and "EmitUp info \<in># M \<Longrightarrow> EmitDown e \<in># M \<Longrightarrow> cIds k ! e \<noteq> pID info"
    and "e < length (cIds k) \<Longrightarrow> num (fate_job e) M + of_bool (fmlookup (cDeferred k) (cIds k ! e) = Some e) \<le> 1"
    and "fmlookup (cPeers k) i = Some e \<Longrightarrow> e < length (cIds k) \<and> cIds k ! e = i \<and> num (watch_job e) M = 1 \<and> fmlookup (cDeferred k) i = None \<and> \<not> cGone k ! e"
    and "fmlookup (cDeferred k) i = Some e \<Longrightarrow> e < length (cIds k) \<and> cIds k ! e = i \<and> \<not> cGone k ! e"
    and "0 < num (swap_job x) M \<Longrightarrow> fmlookup (cPeers k) (cIds k ! x) \<noteq> Some x \<and> fmlookup (cDeferred k) (cIds k ! x) \<noteq> Some x \<and> EmitDown x \<notin># M"
    and "j \<in># M \<Longrightarrow> known_job (length (cIds k)) j" and "length (cGone k) = length (cIds k) \<and> (\<forall>i f. fmlookup (cDown k) i = Some f \<longrightarrow> f < length (cIds k))"
    and "alternating True (history (cEvents k) i)"
  using assms unfolding inv_def by blast+

text \<open>Work that changes nothing of the core and hands its roles on.\<close>

definition same_roles :: "job \<Rightarrow> job list \<Rightarrow> bool" where
  "same_roles j js \<longleftrightarrow>
     (\<forall>P \<in> range claim_job \<union> range watch_job \<union> range fate_job \<union> range swap_job. num P (mset js) = of_bool (P j)) \<and>
     (\<forall>i ns. \<not> up_job i j \<and> num (up_job i) (mset js) = 0 \<and> \<not> down_job ns i j \<and> num (down_job ns i) (mset js) = 0) \<and>
     (\<forall>n. known_job n j \<longrightarrow> list_all (known_job n) js)"

lemma inv_same:
  assumes "inv k (add_mset j R)" "same_roles j js"
  shows "inv k (mset js + R)"
proof -
  have n: "num P (mset js + R) = num P (add_mset j R)"
    if "P \<in> range claim_job \<union> range watch_job \<union> range fate_job \<union> range swap_job" for P
    using assms(2) that unfolding same_roles_def by auto
  have n': "num (claim_job i) (mset js + R) = num (claim_job i) (add_mset j R)" "num (watch_job e) (mset js + R) = num (watch_job e) (add_mset j R)"
    "num (fate_job e) (mset js + R) = num (fate_job e) (add_mset j R)" "num (swap_job e) (mset js + R) = num (swap_job e) (add_mset j R)"
    "num (up_job i) (mset js + R) = num (up_job i) (add_mset j R)" "num (down_job ns i) (mset js + R) = num (down_job ns i) (add_mset j R)" for i e ns
    using n[of "claim_job i"] n[of "watch_job e"] n[of "fate_job e"] n[of "swap_job e"] assms(2) unfolding same_roles_def by simp_all
  have d: "EmitDown e \<in># mset js + R \<longleftrightarrow> EmitDown e \<in># add_mset j R" for e
    using assms(2) unfolding same_roles_def num_0 down_job_def by fastforce
  have u: "AwaitGone f info \<in># mset js + R \<longleftrightarrow> AwaitGone f info \<in># add_mset j R" "EmitUp info \<in># mset js + R \<longleftrightarrow> EmitUp info \<in># add_mset j R" for f info
    using assms(2) unfolding same_roles_def num_0 up_job_def by fastforce+
  have kn: "\<forall>x\<in>#mset js + R. known_job (length (cIds k)) x"
    using assms invD(11)[OF assms(1)] unfolding same_roles_def by (auto simp: list_all_iff)
  show ?thesis using assms(1) kn unfolding inv_def n' d u by (elim conjE) ((intro conjI; assumption))
qed

lemma invI:
  assumes "\<And>i. fm_get 0 (cClaims k) i = int (num (claim_job i) M)"
    and "\<And>i. of_bool (linked k i) + num (down_job (cIds k) i) M = of_bool (up_now (cEvents k) i) + num (up_job i) M"
    and "\<And>i. 0 < num (up_job i) M \<Longrightarrow> linked k i"
    and "\<And>e. EmitDown e \<in># M \<Longrightarrow> fmlookup (cDown k) (cIds k ! e) = Some e \<and> \<not> cGone k ! e \<and> up_now (cEvents k) (cIds k ! e)"
    and "\<And>f info e. AwaitGone f info \<in># M \<Longrightarrow> EmitDown e \<in># M \<Longrightarrow> cIds k ! e = pID info \<Longrightarrow> e = f"
    and "\<And>info e. EmitUp info \<in># M \<Longrightarrow> EmitDown e \<in># M \<Longrightarrow> cIds k ! e \<noteq> pID info"
    and "\<And>e. e < length (cIds k) \<Longrightarrow> num (fate_job e) M + of_bool (fmlookup (cDeferred k) (cIds k ! e) = Some e) \<le> 1"
    and "\<And>i e. fmlookup (cPeers k) i = Some e \<Longrightarrow> e < length (cIds k) \<and> cIds k ! e = i \<and> num (watch_job e) M = 1 \<and> fmlookup (cDeferred k) i = None \<and> \<not> cGone k ! e"
    and "\<And>i e. fmlookup (cDeferred k) i = Some e \<Longrightarrow> e < length (cIds k) \<and> cIds k ! e = i \<and> \<not> cGone k ! e"
    and "\<And>x. 0 < num (swap_job x) M \<Longrightarrow> fmlookup (cPeers k) (cIds k ! x) \<noteq> Some x \<and> fmlookup (cDeferred k) (cIds k ! x) \<noteq> Some x \<and> EmitDown x \<notin># M"
    and "\<And>j. j \<in># M \<Longrightarrow> known_job (length (cIds k)) j" and "length (cGone k) = length (cIds k) \<and> (\<forall>i f. fmlookup (cDown k) i = Some f \<longrightarrow> f < length (cIds k))"
    and "\<And>i. alternating True (history (cEvents k) i)"
  shows "inv k M"
  unfolding inv_def
proof (intro conjI, goal_cases)
  case 1 then show ?case using assms(1) by blast
next
  case 2 then show ?case using assms(2) by blast
next
  case 3 then show ?case using assms(3) by blast
next
  case 4 then show ?case using assms(4) by blast
next
  case 5 then show ?case using assms(5) by blast
next
  case 6 then show ?case using assms(6) by blast
next
  case 7 then show ?case using assms(7) by blast
next
  case 8 then show ?case using assms(8) by blast
next
  case 9 then show ?case using assms(9) by blast
next
  case 10 then show ?case using assms(10) by blast
next
  case 11 then show ?case using assms(11) by blast
next
  case 12 then show ?case using assms(12) by blast
next
  case 13 then show ?case using assms(12) by blast
next
  case 14 then show ?case using assms(13) by blast
qed

lemma history_snoc: "history (evs @ [ev]) i = history evs i @ (if pID (event_peer ev) = i then [ev] else [])"
  by (simp add: history_def)

lemma up_now_snoc [simp]: "up_now (evs @ [ev]) i = (if pID (event_peer ev) = i then \<not> up_now evs i else up_now evs i)"
  by (simp add: up_now_def history_snoc)

lemma alternating_snoc: "alternating u (evs @ [ev]) \<longleftrightarrow> alternating u evs \<and> up_event ev = (u = even (length evs))"
  by (induction evs arbitrary: u) auto

lemma alternating_event:
  assumes "alternating True (history evs i)" "pID (event_peer ev) = i \<Longrightarrow> up_event ev = (\<not> up_now evs i)"
  shows "alternating True (history (evs @ [ev]) i)"
  using assms by (auto simp: history_snoc alternating_snoc up_now_def)

text \<open>Work without a role.\<close>

definition quiet :: "job \<Rightarrow> bool" where
  "quiet j \<longleftrightarrow> (\<forall>i. \<not> claim_job i j) \<and> (\<forall>i. \<not> up_job i j) \<and> (\<forall>e. \<not> fate_job e j) \<and> (\<forall>x. \<not> swap_job x j) \<and> (\<forall>n. known_job n j)"

lemma quiet_inv [simp]:
  assumes "quiet j"
  shows "inv k (add_mset j M) \<longleftrightarrow> inv k M"
proof -
  have a: "\<not> claim_job i j" "\<not> up_job i j" "\<not> fate_job e j" "\<not> swap_job x j" "known_job n j" for i e x n
    using assms unfolding quiet_def by blast+
  have "\<not> down_job ns i j" "\<not> watch_job e j" "j \<noteq> EmitDown e" "j \<noteq> AwaitGone f info" "j \<noteq> EmitUp info" for ns i e f info
    using a(2)[of "pID info"] a(3) by (auto simp: down_job_def fate_job_def up_job_def split: job.splits)
  note q = this a
  have "(x \<in># add_mset j M) = (x \<in># M)" if "x \<noteq> j" for x using that by simp
  note m = this[OF q(3)[symmetric]] this[OF q(4)[symmetric]] this[OF q(5)[symmetric]]
  show ?thesis unfolding inv_def m by (simp add: q)
qed

lemma quiet_jobs [simp]:
  "quiet (AdmitHello)" "quiet (Register info w)" "quiet (WatchNew c)" "quiet (ReleaseDialing a)"
  "quiet (Dial l a m)" "quiet (DialHs l a m)" "quiet (AfterReject l a i m)" "quiet (WaitConn l i)"
  "quiet (WaitGone l e i)" "quiet (Redial l a m)" "quiet (Pause l a m)" "quiet (EndDial l a)"
  "quiet (CloseAll es)"
  by (simp_all add: quiet_def role_defs)

lemma quiet_inv2 [simp]:
  "quiet j \<Longrightarrow> inv k (add_mset x (add_mset j M)) \<longleftrightarrow> inv k (add_mset x M)"
  by (simp add: add_mset_commute[of x j])

lemma fate_unique:
  assumes "inv k (add_mset j M)" "fate_job e j" "e < length (cIds k)"
  shows "num (fate_job e) M = 0" "fmlookup (cDeferred k) (cIds k ! e) \<noteq> Some e"
    "EmitDown e \<notin># M" "DownDone e \<notin># M" "num (watch_job e) M = 0"
proof -
  show z: "num (fate_job e) M = 0" "fmlookup (cDeferred k) (cIds k ! e) \<noteq> Some e"
    using invD(7)[OF assms(1,3)] assms(2) by (auto split: if_splits)
  have n: "\<not> fate_job e x" if "x \<in># M" for x using z(1) that num_0 by blast
  show "EmitDown e \<notin># M" "DownDone e \<notin># M"
    using n[of "EmitDown e"] n[of "DownDone e"] by (auto simp: fate_job_def)
  show "num (watch_job e) M = 0" unfolding num_0 using n fate_job_def by blast
qed

lemma down_unique: "inv k M \<Longrightarrow> EmitDown e \<in># M \<Longrightarrow> EmitDown e' \<in># M \<Longrightarrow> cIds k ! e = cIds k ! e' \<Longrightarrow> e = e'"
  by (metis invD(4) option.inject)

lemma down_count: "num (down_job ns i) M = 0 \<longleftrightarrow> (\<forall>e. EmitDown e \<in># M \<longrightarrow> ns ! e \<noteq> i)"
  unfolding num_0 by (auto simp: down_job_def split: job.splits)

section \<open>Events\<close>

lemma inv_emit_down:
  assumes i: "inv k (add_mset (EmitDown e) M)" and ev: "pID (event_peer ev) = cIds k ! e" "\<not> up_event ev"
  shows "inv (k\<lparr>cEvents := cEvents k @ [ev]\<rparr>) (add_mset (DownDone e) M)"
proof -
  note d = invD[OF i]
  have len: "e < length (cIds k)" using d(11)[of "EmitDown e"] by (simp add: known_job_def)
  have up: "up_now (cEvents k) (cIds k ! e)" using d(4)[of e] by simp
  note u = fate_unique[OF i _ len, simplified]
  have other: "cIds k ! e' \<noteq> cIds k ! e" if "EmitDown e' \<in># M" for e'
    using down_unique[OF i, of e e'] that u(3) by auto
  show ?thesis
  proof (rule invI, goal_cases)
    case (2 i) then show ?case using d(2)[of i] up ev by (auto simp: linked_def)
  next
    case (4 e') then show ?case using d(4)[of e'] other[of e'] ev by auto
  next
    case (7 e') then show ?case using d(7)[of e'] by (auto split: if_splits)
  next
    case (13 i) then show ?case using alternating_event[OF d(13)[of i], of ev] up ev by auto
  next
    case (11 j) then show ?case using d(11)[of j] len by auto
  next
    case (10 x) then show ?case using d(10)[of x] by auto
  next
    case (5 f info e') then show ?case using d(5)[of f info e'] by auto
  next
    case (6 info e') then show ?case using d(6)[of info e'] by auto
  next
    case (8 i e') then show ?case using d(8)[of i e'] by auto
  qed (use d(1,3,9,12) in \<open>auto simp: linked_def\<close>)
qed

lemma inv_emit_up:
  assumes i: "inv k (add_mset (EmitUp info) M)" and ev: "pID (event_peer ev) = pID info" "up_event ev"
  shows "inv (k\<lparr>cEvents := cEvents k @ [ev]\<rparr>) M"
proof -
  note d = invD[OF i]
  have none: "cIds k ! e \<noteq> pID info" if "EmitDown e \<in># M" for e using d(6)[of info e] that by auto
  have zero: "num (down_job (cIds k) (pID info)) M = 0" using none by (simp add: down_count)
  have low: "\<not> up_now (cEvents k) (pID info)" "num (up_job (pID info)) M = 0" "linked k (pID info)"
    using d(2)[of "pID info"] d(3)[of "pID info"] zero by (auto split: if_splits)
  show ?thesis
  proof (rule invI, goal_cases)
    case (2 i) then show ?case using d(2)[of i] low zero ev by (auto simp: linked_def)
  next
    case (3 i) then show ?case using d(3)[of i] by (auto simp: linked_def)
  next
    case (4 e) then show ?case using d(4)[of e] none[of e] ev by auto
  next
    case (13 i) then show ?case using alternating_event[OF d(13)[of i], of ev] low ev by auto
  next
    case (11 j) then show ?case using d(11)[of j] by auto
  next
    case (10 x) then show ?case using d(10)[of x] by auto
  next
    case (5 f info' e) then show ?case using d(5)[of f info' e] by auto
  next
    case (6 info' e) then show ?case using d(6)[of info' e] by auto
  next
    case (7 e) then show ?case using d(7)[of e] by auto
  next
    case (8 i e) then show ?case using d(8)[of i e] by auto
  qed (use d(1,9,12) in auto)
qed

lemma inv_await:
  assumes i: "inv k (add_mset (AwaitGone f info) M)" and gone: "cGone k ! f"
  shows "inv k (add_mset (EmitUp info) M)"
proof -
  note d = invD[OF i]
  have none: "cIds k ! e \<noteq> pID info" if "EmitDown e \<in># M" for e
    using d(5)[of f info e] d(4)[of e] that gone by auto
  show ?thesis
  proof (rule invI, goal_cases)
    case (2 i) then show ?case using d(2)[of i] by simp
  next
    case (3 i) then show ?case using d(3)[of i] by auto
  next
    case (4 e) then show ?case using d(4)[of e] by auto
  next
    case (5 f info' e) then show ?case using d(5)[of f info' e] by auto
  next
    case (6 info' e) then show ?case using d(6)[of info' e] none[of e] by auto
  next
    case (7 e) then show ?case using d(7)[of e] by auto
  next
    case (8 i e) then show ?case using d(8)[of i e] by auto
  next
    case (10 x) then show ?case using d(10)[of x] by auto
  next
    case (11 j) then show ?case using d(11)[of j] by auto
  qed (use d(1,9,12,13) in auto)
qed

text \<open>Retiring an entry is harmless unless a Down for it is on its way.\<close>

lemma inv_retire:
  assumes i: "inv k M" and e: "EmitDown e \<notin># M"
    and l: "fmlookup (cPeers k) (cIds k ! e) \<noteq> Some e" "fmlookup (cDeferred k) (cIds k ! e) \<noteq> Some e"
  shows "inv (k\<lparr>cGone := (cGone k)[e := True]\<rparr>) M"
proof -
  note d = invD[OF i]
  show ?thesis
  proof (rule invI, goal_cases)
    case (2 i) then show ?case using d(2)[of i] by (simp add: linked_def)
  next
    case (3 i) then show ?case using d(3)[of i] by (simp add: linked_def)
  next
    case (4 e') then show ?case using d(4)[of e'] e by (cases "e' = e") auto
  next
    case (5 f info e') then show ?case using d(5)[of f info e'] by auto
  next
    case (6 info e') then show ?case using d(6)[of info e'] by auto
  next
    case (7 e) then show ?case using d(7)[of e] by auto
  next
    case (8 i e') then show ?case using d(8)[of i e'] l by (cases "e' = e") auto
  next
    case (9 i e') then show ?case using d(9)[of i e'] l by (cases "e' = e") auto
  next
    case (10 x) then show ?case using d(10)[of x] by auto
  next
    case (11 j) then show ?case using d(11)[of j] by auto
  qed (use d(1,12,13) in auto)
qed

text \<open>A job with nothing but a fate or a swap to its name can be dropped.\<close>

lemma inv_drop:
  assumes i: "inv k (add_mset j M)" and j: "\<And>i. \<not> claim_job i j" "\<And>i. \<not> up_job i j" "\<And>ns i. \<not> down_job ns i j"
    and w: "\<And>e. watch_job e j \<Longrightarrow> fmlookup (cPeers k) (cIds k ! e) \<noteq> Some e"
  shows "inv k M"
proof -
  note d = invD[OF i]
  show ?thesis
  proof (rule invI, goal_cases)
    case (1 i) then show ?case using d(1)[of i] j(1) by simp
  next
    case (2 i) then show ?case using d(2)[of i] j(2,3) by simp
  next
    case (3 i) then show ?case using d(3)[of i] j(2) by simp
  next
    case (4 e') then show ?case using d(4)[of e'] by auto
  next
    case (5 f info e') then show ?case using d(5)[of f info e'] by auto
  next
    case (6 info e') then show ?case using d(6)[of info e'] by auto
  next
    case (7 e) then show ?case using d(7)[of e] by (auto split: if_splits)
  next
    case (8 i e) then show ?case using d(8)[of i e] w[of e] by (auto split: if_splits)
  next
    case (10 x) then show ?case using d(10)[of x] by (auto split: if_splits)
  next
    case (11 j) then show ?case using d(11)[of j] by auto
  qed (use d(9,12,13) in auto)
qed

lemma inv_down_done:
  assumes i: "inv k (add_mset (DownDone e) M)" and m: "m = (if fmlookup (cDown k) (cIds k ! e) = Some e then fmdrop (cIds k ! e) (cDown k) else cDown k)"
  shows "inv (k\<lparr>cDown := m, cGone := (cGone k)[e := True]\<rparr>) M"
proof -
  have len: "e < length (cIds k)" using invD(11)[OF i, of "DownDone e"] by simp
  have e: "EmitDown e \<notin># M" using fate_unique(3)[OF i _ len] by simp
  have "inv k M" by (rule inv_drop[OF i]) simp_all
  note d = invD[OF this]
  have "inv (k\<lparr>cDown := m\<rparr>) M"
  proof (rule invI, goal_cases)
    case 12 then show ?case using d(12) m by (auto split: if_splits)
  next
    case (2 i) then show ?case using d(2)[of i] by (simp add: linked_def)
  next
    case (3 i) then show ?case using d(3)[of i] by (simp add: linked_def)
  next
    case (4 e') then show ?case using d(4)[of e'] e m by (cases "e' = e") auto
  next
    case (5 f info e') then show ?case using d(5)[of f info e'] by auto
  next
    case (6 info e') then show ?case using d(6)[of info e'] by auto
  next
    case (7 e) then show ?case using d(7)[of e] by auto
  next
    case (8 i e) then show ?case using d(8)[of i e] by auto
  next
    case (10 x) then show ?case using d(10)[of x] by auto
  next
    case (11 j) then show ?case using d(11)[of j] by auto
  qed (use d(1,9,13) in auto)
  moreover have "fmlookup (cPeers k) (cIds k ! e) \<noteq> Some e"
    using invD(8)[OF i, of _ e] fate_unique(5)[OF i _ len] by auto
  ultimately show ?thesis using inv_retire[of "k\<lparr>cDown := m\<rparr>" M e] e fate_unique(2)[OF i _ len] by simp
qed

lemma fm_get_bump [simp]: "fm_get 0 (bump i m) j = (if j = i then fm_get 0 m j + 1 else fm_get 0 m j)"
  by (simp add: bump_def)

lemma fm_get_drop [simp]: "fm_get c (fmdrop i m) j = (if j = i then c else fm_get c m j)"
  by (simp add: fm_get_def)

lemma fm_get_unbump: "fm_get 0 (unbump i m) j = (if j = i then max 0 (fm_get 0 m j - 1) else fm_get 0 m j)"
  by (auto simp: unbump_def Let_def)

text \<open>Taking and releasing a claim.\<close>

lemma inv_claims:
  assumes i: "inv k M" and N: "\<And>i. fm_get 0 m i = int (num (claim_job i) N)"
    and r: "\<And>i. num (up_job i) N = num (up_job i) M" "\<And>ns i. num (down_job ns i) N = num (down_job ns i) M"
      "\<And>e. num (fate_job e) N = num (fate_job e) M" "\<And>e. num (watch_job e) N = num (watch_job e) M"
      "\<And>x. num (swap_job x) N = num (swap_job x) M"
    and s: "\<And>j n. j \<in># N \<Longrightarrow> j \<notin># M \<Longrightarrow> known_job n j" "\<And>e. EmitDown e \<in># N \<longleftrightarrow> EmitDown e \<in># M"
      "\<And>f info. AwaitGone f info \<in># N \<longleftrightarrow> AwaitGone f info \<in># M" "\<And>info. EmitUp info \<in># N \<longleftrightarrow> EmitUp info \<in># M"
  shows "inv (k\<lparr>cClaims := m\<rparr>) N"
proof -
  note d = invD[OF i]
  show ?thesis
  proof (rule invI, goal_cases)
    case (1 i) then show ?case using N by simp
  next
    case (2 i) then show ?case using d(2)[of i] r by (simp add: linked_def)
  next
    case (3 i) then show ?case using d(3)[of i] r by (simp add: linked_def)
  next
    case (4 e') then show ?case using d(4)[of e'] s by auto
  next
    case (5 f info e') then show ?case using d(5)[of f info e'] s by auto
  next
    case (6 info e') then show ?case using d(6)[of info e'] s by auto
  next
    case (7 e) then show ?case using d(7)[of e] r by auto
  next
    case (8 i e) then show ?case using d(8)[of i e] r by auto
  next
    case (10 x) then show ?case using d(10)[of x] r s by auto
  next
    case (11 j) then show ?case using d(11)[of j] s(1)[of j "length (cIds k)"] by (cases "j \<in># M") auto
  qed (use d(9,12,13) in auto)
qed

lemma inv_take_claim:
  assumes "inv k M"
  shows "inv (k\<lparr>cClaims := bump i (cClaims k)\<rparr>) (add_mset (ReleaseClaim i) M)"
    and "pID info = i \<Longrightarrow> inv (k\<lparr>cClaims := bump i (cClaims k)\<rparr>) (add_mset (AdmitAck h info) M)"
  using invD(1)[OF assms] by (auto intro!: inv_claims[OF assms])

lemma inv_release_claim:
  assumes "inv k (add_mset (ReleaseClaim i) M)"
  shows "inv (k\<lparr>cClaims := unbump i (cClaims k)\<rparr>) M"
proof -
  note c = invD(1)[OF assms]
  show ?thesis
    by (rule inv_claims[OF assms]) (use c in \<open>auto simp: fm_get_unbump\<close>)
qed

lemma inv_admitted: "pID info = i \<Longrightarrow> inv k (add_mset (AdmitAck h info) M) \<longleftrightarrow> inv k (add_mset (ReleaseClaim i) M)"
proof
  assume i: "pID info = i"
  { assume v: "inv k (add_mset (AdmitAck h info) M)"
    have "inv (k\<lparr>cClaims := cClaims k\<rparr>) (add_mset (ReleaseClaim i) M)"
      by (rule inv_claims[OF v]) (use invD(1)[OF v] i in auto)
    then show "inv k (add_mset (ReleaseClaim i) M)" by simp }
  { assume v: "inv k (add_mset (ReleaseClaim i) M)"
    have "inv (k\<lparr>cClaims := cClaims k\<rparr>) (add_mset (AdmitAck h info) M)"
      by (rule inv_claims[OF v]) (use invD(1)[OF v] i in auto)
    then show "inv k (add_mset (AdmitAck h info) M)" by simp }
qed

section \<open>Parking, deciding, registering\<close>

text \<open>No Up on its way and a linked peer: no Down on its way, and the consumer believes it up.\<close>

lemma settled:
  assumes "inv k M" "num (up_job i) M = 0" "linked k i"
  shows "num (down_job (cIds k) i) M = 0" "up_now (cEvents k) i"
  using invD(2)[OF assms(1), of i] assms(2,3) by (cases "up_now (cEvents k) i"; simp)+

lemma inv_decide:
  assumes i: "inv k M" and up: "num (up_job i) M = 0" and e: "fmlookup (cDeferred k) i = Some e"
  shows "inv (k\<lparr>cDeferred := fmdrop i (cDeferred k), cDown := fmupd i e (cDown k)\<rparr>) (add_mset (EmitDown e) M)"
proof -
  note d = invD[OF i]
  have ei: "e < length (cIds k)" "cIds k ! e = i" "\<not> cGone k ! e" using d(9)[OF e] by auto
  have l: "linked k i" using e by (simp add: linked_def)
  have p: "fmlookup (cPeers k) i = None" using e d(8)[of i] by (cases "fmlookup (cPeers k) i") auto
  note s = settled[OF i up l]
  have f: "num (fate_job e) M = 0" using d(7)[OF ei(1)] ei e by auto
  have no: "EmitDown e' \<notin># M" if "cIds k ! e' = i" for e' using s(1) that unfolding down_count by blast
  have na: "AwaitGone f info \<notin># M" if "pID info = i" for f info using up that by (auto simp: num_0)
  have nu: "EmitUp info \<notin># M" if "pID info = i" for info using up that by (auto simp: num_0)
  show ?thesis
  proof (rule invI, goal_cases)
    case (2 j) then show ?case using d(2)[of j] ei s p e up by (auto simp: linked_def)
  next
    case (3 j) then show ?case using d(3)[of j] up by (auto simp: linked_def)
  next
    case (4 e') then show ?case using d(4)[of e'] no[of e'] ei s by auto
  next
    case (5 f info e') then show ?case using d(5)[of f info e'] na[of info f] ei by auto
  next
    case (6 info e') then show ?case using d(6)[of info e'] nu[of info] ei by auto
  next
    case (7 e') then show ?case using d(7)[of e'] f ei by (cases "e' = e") auto
  next
    case (8 j e') then show ?case using d(8)[of j e'] by (auto split: if_splits)
  next
    case (9 j e') then show ?case using d(9)[of j e'] by (auto split: if_splits)
  next
    case (10 x) then show ?case using d(10)[of x] e ei by (auto split: if_splits)
  next
    case (11 j) then show ?case using d(11)[of j] ei by auto
  qed (use d(1,12,13) ei in auto)
qed

lemma inv_watch_park:
  assumes i: "inv k (add_mset (Watch w e) M)" and p: "fmlookup (cPeers k) i = Some e"
  shows "inv (k\<lparr>cPeers := fmdrop i (cPeers k), cDeferred := fmupd i e (cDeferred k)\<rparr>) M"
proof -
  note d = invD[OF i]
  have ei: "e < length (cIds k)" "cIds k ! e = i" "fmlookup (cDeferred k) i = None" "\<not> cGone k ! e" using d(8)[OF p] by auto
  note u = fate_unique[OF i _ ei(1), simplified]
  have l: "linked (k\<lparr>cPeers := fmdrop i (cPeers k), cDeferred := fmupd i e (cDeferred k)\<rparr>) j = linked k j" for j
    using p by (auto simp: linked_def)
  show ?thesis
  proof (rule invI, goal_cases)
    case (2 j) then show ?case using d(2)[of j] by (simp add: l)
  next
    case (3 j) then show ?case using d(3)[of j] by (simp add: l)
  next
    case (4 e') then show ?case using d(4)[of e'] by auto
  next
    case (5 f info e') then show ?case using d(5)[of f info e'] by auto
  next
    case (6 info e') then show ?case using d(6)[of info e'] by auto
  next
    case (7 e') then show ?case using d(7)[of e'] u ei by (cases "e' = e") (auto split: if_splits)
  next
    case (8 j e') then show ?case using d(8)[of j e'] ei by (auto split: if_splits)
  next
    case (9 j e') then show ?case using d(9)[of j e'] ei by (auto split: if_splits)
  next
    case (10 x) then show ?case using d(10)[of x] p ei by (auto split: if_splits)
  next
    case (11 j) then show ?case using d(11)[of j] by auto
  qed (use d(1,12,13) in auto)
qed

text \<open>A watcher that finds nothing claimed parks and decides at once.\<close>

lemma inv_watch_down:
  assumes "inv k (add_mset (Watch w e) M)" "fmlookup (cPeers k) i = Some e" "num (up_job i) M = 0"
  shows "inv (k\<lparr>cPeers := fmdrop i (cPeers k), cDown := fmupd i e (cDown k)\<rparr>) (add_mset (EmitDown e) M)"
proof -
  have "fmlookup (cDeferred k) i = None" using invD(8)[OF assms(1,2)] by blast
  then have "fmdrop i (fmupd i e (cDeferred k)) = cDeferred k" by (intro fmap_ext) auto
  then show ?thesis using inv_decide[OF inv_watch_park[OF assms(1,2)] assms(3), of e] by simp
qed

lemma known_roles:
  "fate_job e j \<Longrightarrow> known_job n j \<Longrightarrow> e < n" "swap_job e j \<Longrightarrow> known_job n j \<Longrightarrow> e < n" "known_job n j \<Longrightarrow> known_job (Suc n) j"
  by (auto simp: role_defs split: job.splits)

lemma out_of_range:
  assumes "inv k M" "length (cIds k) \<le> e"
  shows "num (fate_job e) M = 0" "num (swap_job e) M = 0"
proof -
  have "\<not> fate_job e j \<and> \<not> swap_job e j" if "j \<in># M" for j
    using invD(11)[OF assms(1) that] assms(2) known_roles(1,2)[of e j "length (cIds k)"] by auto
  then show "num (fate_job e) M = 0" "num (swap_job e) M = 0" by (simp_all add: num_0)
qed

lemma inv_enter:
  assumes i: "inv k M"
  shows "inv (k\<lparr>cIds := cIds k @ [i], cGone := cGone k @ [False]\<rparr>) M"
proof -
  note d = invD[OF i]
  have len: "EmitDown e \<in># M \<Longrightarrow> e < length (cIds k)" for e using d(11)[of "EmitDown e"] by simp
  have down: "num (down_job (cIds k @ [i]) j) M = num (down_job (cIds k) j) M" for j
  proof -
    have "\<forall>x\<in>#M. down_job (cIds k @ [i]) j x = down_job (cIds k) j x"
      using len by (auto simp: down_job_def nth_append split: job.splits)
    then show ?thesis by (simp add: num_def cong: filter_mset_cong)
  qed
  have sw: "0 < num (swap_job x) M \<Longrightarrow> x < length (cIds k)" for x
    using out_of_range(2)[OF i, of x] by (cases "x < length (cIds k)") auto
  show ?thesis
  proof (rule invI, goal_cases)
    case (2 j) then show ?case using d(2)[of j] by (simp add: down linked_def)
  next
    case (3 j) then show ?case using d(3)[of j] by (simp add: linked_def)
  next
    case (4 e) then show ?case using d(4)[of e] len[of e] d(12) by (simp add: nth_append)
  next
    case (5 f info e) then show ?case using d(5)[of f info e] len[of e] by (simp add: nth_append)
  next
    case (6 info e) then show ?case using d(6)[of info e] len[of e] by (simp add: nth_append)
  next
    case (7 e)
    show ?case
    proof (cases "e < length (cIds k)")
      case True then show ?thesis using d(7)[of e] by (simp add: nth_append)
    next
      case False
      then have "num (fate_job e) M = 0" "fmlookup (cDeferred k) j \<noteq> Some e" for j
        using out_of_range(1)[OF i, of e] d(9)[of j e] by auto
      then show ?thesis by simp
    qed
  next
    case (8 j e) then show ?case using d(8)[of j e] d(12) by (auto simp: nth_append)
  next
    case (9 j e) then show ?case using d(9)[of j e] d(12) by (auto simp: nth_append)
  next
    case (10 x) then show ?case using d(10)[of x] sw[of x] by (simp add: nth_append)
  next
    case (11 j) then show ?case using d(11)[of j] known_roles(3) by simp
  next
    case 12 then show ?case using d(12) by (auto intro: less_SucI)
  qed (use d(1,13) in auto)
qed

text \<open>An entry nobody knows of yet.\<close>

definition unused :: "core \<Rightarrow> job multiset \<Rightarrow> NodeID \<Rightarrow> eid \<Rightarrow> bool" where
  "unused k M i e \<longleftrightarrow> e < length (cIds k) \<and> cIds k ! e = i \<and> \<not> cGone k ! e \<and> num (fate_job e) M = 0 \<and> num (swap_job e) M = 0 \<and>
     fmlookup (cDeferred k) i \<noteq> Some e \<and> fmlookup (cPeers k) i \<noteq> Some e"

lemma unused_new:
  assumes i: "inv k M"
  shows "unused (k\<lparr>cIds := cIds k @ [i], cGone := cGone k @ [False]\<rparr>) M i (length (cIds k))"
proof -
  note d = invD[OF i]
  let ?e = "length (cIds k)"
  note out_of_range[OF i, of ?e]
  moreover have "fmlookup (cDeferred k) i \<noteq> Some ?e" "fmlookup (cPeers k) i \<noteq> Some ?e"
    using d(8)[of i ?e] d(9)[of i ?e] by auto
  ultimately show ?thesis using d(12) by (simp add: unused_def nth_append)
qed

lemma inv_link:
  assumes i: "inv k M" and u: "unused k M i e" and l: "linked k i"
  shows "inv (k\<lparr>cPeers := fmupd i e (cPeers k), cDeferred := fmdrop i (cDeferred k)\<rparr>) (add_mset (Watch w e) M)"
proof -
  note d = invD[OF i]
  note u = u[unfolded unused_def]
  have l': "linked (k\<lparr>cPeers := fmupd i e (cPeers k), cDeferred := fmdrop i (cDeferred k)\<rparr>) j = linked k j" for j
    using l by (auto simp: linked_def)
  have "num (watch_job e) M = 0" using u unfolding num_0 fate_job_def by blast
  show ?thesis
  proof (rule invI, goal_cases)
    case (2 j) then show ?case using d(2)[of j] by (simp add: l')
  next
    case (3 j) then show ?case using d(3)[of j] by (simp add: l')
  next
    case (4 e') then show ?case using d(4)[of e'] by auto
  next
    case (5 f info e') then show ?case using d(5)[of f info e'] by auto
  next
    case (6 info e') then show ?case using d(6)[of info e'] by auto
  next
    case (7 e') then show ?case using d(7)[of e'] u by (cases "e' = e") (auto split: if_splits)
  next
    case (8 j e')
    then show ?case using d(8)[of j e'] u \<open>num (watch_job e) M = 0\<close> by (auto split: if_splits)
  next
    case (9 j e') then show ?case using d(9)[of j e'] by (auto split: if_splits)
  next
    case (10 x) then show ?case using d(10)[of x] u by (auto split: if_splits)
  next
    case (11 j) then show ?case using d(11)[of j] u by auto
  qed (use d(1,12,13) in auto)
qed

lemma inv_fresh:
  assumes i: "inv k M" and u: "unused k M i e" and l: "\<not> linked k i" and "pID info = i"
    and U: "U = (case fmlookup (cDown k) i of None \<Rightarrow> EmitUp info | Some f \<Rightarrow> AwaitGone f info)"
  shows "inv (k\<lparr>cPeers := fmupd i e (cPeers k)\<rparr>) (add_mset (Watch w e) (add_mset U M))"
proof -
  note d = invD[OF i]
  note u = u[unfolded unused_def]
  have z: "num (up_job i) M = 0" using d(3)[of i] l by auto
  have b: "num (down_job (cIds k) i) M = of_bool (up_now (cEvents k) i)" using d(2)[of i] l z by simp
  have na: "AwaitGone f info' \<notin># M" if "pID info' = i" for f info' using z that by (auto simp: num_0)
  have nu: "EmitUp info' \<notin># M" if "pID info' = i" for info' using z that by (auto simp: num_0)
  have dn: "fmlookup (cDown k) i = Some e'" if "EmitDown e' \<in># M" "cIds k ! e' = i" for e' using d(4)[of e'] that by auto
  have U': "\<not> claim_job j U" "up_job j U = (j = i)" "\<not> down_job ns j U" "\<not> watch_job e' U" "\<not> fate_job e' U" "\<not> swap_job e' U"
    "known_job (length (cIds k)) U" for j ns e'
    using d(12) assms(4) unfolding U by (auto split: option.split)
  have ne: "U \<noteq> EmitDown e'" for e' unfolding U by (auto split: option.split)
  have "num (watch_job e) M = 0" using u unfolding num_0 fate_job_def by blast
  show ?thesis
  proof (rule invI, goal_cases)
    case (1 j) then show ?case using d(1)[of j] U' by simp
  next
    case (2 j) then show ?case using d(2)[of j] U' l z b by (auto simp: linked_def)
  next
    case (3 j) then show ?case using d(3)[of j] U' by (auto simp: linked_def split: if_splits)
  next
    case (4 e') then show ?case using d(4)[of e'] ne[of e'] by auto
  next
    case (5 f info' e')
    then show ?case using d(5)[of f info' e'] dn[of e'] ne[of e'] assms(4) by (auto simp: U split: option.splits)
  next
    case (6 info' e')
    then show ?case using d(6)[of info' e'] dn[of e'] ne[of e'] assms(4) by (auto simp: U split: option.splits)
  next
    case (7 e') then show ?case using d(7)[of e'] u U' by (cases "e' = e") auto
  next
    case (8 j e')
    then show ?case using d(8)[of j e'] u U' l \<open>num (watch_job e) M = 0\<close> by (auto simp: linked_def split: if_splits)
  next
    case (9 j e') then show ?case using d(9)[of j e'] by auto
  next
    case (10 x) then show ?case using d(10)[of x] u U'(6)[of x] ne[of x] by (auto split: if_splits)
  next
    case (11 j) then show ?case using d(11)[of j] u U' by auto
  qed (use d(12,13) in auto)
qed

lemma inv_add_swap:
  assumes i: "inv k M" and x: "fmlookup (cPeers k) (cIds k ! x) \<noteq> Some x" "fmlookup (cDeferred k) (cIds k ! x) \<noteq> Some x" "EmitDown x \<notin># M"
    "x < length (cIds k)"
  shows "inv k (add_mset (Swap x e) M)"
proof -
  note d = invD[OF i]
  show ?thesis
  proof (rule invI, goal_cases)
    case (2 j) then show ?case using d(2)[of j] by simp
  next
    case (3 j) then show ?case using d(3)[of j] by simp
  next
    case (4 e') then show ?case using d(4)[of e'] by auto
  next
    case (5 f info e') then show ?case using d(5)[of f info e'] by auto
  next
    case (6 info e') then show ?case using d(6)[of info e'] by auto
  next
    case (7 e') then show ?case using d(7)[of e'] by auto
  next
    case (8 j e') then show ?case using d(8)[of j e'] by auto
  next
    case (10 y) then show ?case using d(10)[of y] x by (auto split: if_splits)
  next
    case (11 j) then show ?case using d(11)[of j] x by auto
  qed (use d(1,9,12,13) in auto)
qed

section \<open>The pool against the account\<close>

lemma core_of_same [simp]:
  "core_of (p\<lparr>plAdmitting := a\<rparr>) = core_of p" "core_of (p\<lparr>plDials := b\<rparr>) = core_of p" "core_of (p\<lparr>plLoops := n\<rparr>) = core_of p"
  "core_of (p\<lparr>plStopped := s\<rparr>) = core_of p" "core_of (p\<lparr>plKnown := d\<rparr>) = core_of p" "core_of (p\<lparr>plDialing := e\<rparr>) = core_of p"
  "core_of (p\<lparr>plAddrOf := f\<rparr>) = core_of p" "core_of (p\<lparr>plClosed := g\<rparr>) = core_of p" "core_of (p\<lparr>plCtxDone := h\<rparr>) = core_of p"
  by (simp_all add: core_of_def)

lemma core_of_upd [simp]:
  "core_of (p\<lparr>plClaims := m\<rparr>) = (core_of p)\<lparr>cClaims := m\<rparr>" "core_of (p\<lparr>plPeers := a\<rparr>) = (core_of p)\<lparr>cPeers := a\<rparr>"
  "core_of (p\<lparr>plDeferred := b\<rparr>) = (core_of p)\<lparr>cDeferred := b\<rparr>" "core_of (p\<lparr>plDownInFlight := d\<rparr>) = (core_of p)\<lparr>cDown := d\<rparr>"
  "core_of (p\<lparr>plEvents := evs\<rparr>) = (core_of p)\<lparr>cEvents := evs\<rparr>"
  by (simp_all add: core_of_def)

lemma core_of_sel [simp]:
  "cClaims (core_of p) = plClaims p" "cPeers (core_of p) = plPeers p" "cDeferred (core_of p) = plDeferred p"
  "cDown (core_of p) = plDownInFlight p" "cEvents (core_of p) = plEvents p" "length (cIds (core_of p)) = length (plEntries p)"
  by (simp_all add: core_of_def)

lemma core_of_idem [simp]: "(core_of p)\<lparr>cDown := plDownInFlight p\<rparr> = core_of p" "(core_of p)\<lparr>cClaims := plClaims p\<rparr> = core_of p"
  by (simp_all add: core_of_def)

lemma core_of_entry:
  "e < length (plEntries p) \<Longrightarrow> cIds (core_of p) ! e = eid_of p e" "e < length (plEntries p) \<Longrightarrow> cGone (core_of p) ! e = peGone (entry p e)"
  by (simp_all add: core_of_def entry_def)

lemma ids_update_same: "f x = f (xs ! e) \<Longrightarrow> map f (xs[e := x]) = map f xs"
  by (metis list_update_id map_update)

lemma core_of_conn [simp]: "core_of (set_conn e c p) = core_of p"
  by (simp add: core_of_def set_conn_def set_entry_def entry_def ids_update_same)

lemma core_of_retire [simp]: "core_of (retire e p) = (core_of p)\<lparr>cGone := (cGone (core_of p))[e := True]\<rparr>"
  by (simp add: core_of_def retire_def set_entry_def entry_def ids_update_same) (simp add: map_update)

lemma core_of_learn [simp]: "core_of (learnAddr a p) = core_of p"
  by (simp add: learnAddr_def)

lemma core_of_learns [simp]: "core_of (fold learnAddr as p) = core_of p"
  by (induction as arbitrary: p) simp_all

lemma settle_ok:
  assumes "inv (core_of p) (mset (map EmitDown es) + M)" "guarded M" "settle_down i (p, es) = (p', es')"
  shows "inv (core_of p') (mset (map EmitDown es') + M)"
proof (cases "fmlookup (plDeferred p) i")
  case None
  then show ?thesis using assms by (simp add: settle_down_def)
next
  case (Some e)
  note i = assms(1)
  have e: "e < length (plEntries p)" "eid_of p e = i" using invD(9)[OF i, of i e] Some core_of_entry(1)[of e p] by auto
  show ?thesis
  proof (cases "claimed p e")
    case True
    then show ?thesis using assms Some by (simp add: settle_down_def)
  next
    case False
    then have "fm_get 0 (plClaims p) i \<le> 0" using e by (simp add: claimed_def Let_def not_less)
    moreover have c: "num (claim_job i) (mset (map EmitDown es) + M) = num (claim_job i) M" "num (up_job i) (mset (map EmitDown es) + M) = num (up_job i) M"
      by (induction es) simp_all
    ultimately have "num (claim_job i) M = 0" using invD(1)[OF i, of i] by simp
    then have "num (up_job i) M = 0" using assms(2) unfolding guarded_def by (metis gr0I less_irrefl)
    from inv_decide[OF i, of i e] this c Some False assms(3) show ?thesis by (auto simp: settle_down_def)
  qed
qed

lemma settles_ok:
  assumes "inv (core_of p) (mset (map EmitDown es) + M)" "guarded M" "fold settle_down ks (p, es) = (p', es')"
  shows "inv (core_of p') (mset (map EmitDown es') + M)"
  using assms
proof (induction ks arbitrary: p es)
  case (Cons k ks)
  obtain p1 es1 where s: "settle_down k (p, es) = (p1, es1)" by fastforce
  from Cons.IH[OF settle_ok[OF Cons.prems(1,2) s] Cons.prems(2)] show ?case using Cons.prems(3) s by simp
qed simp

lemma admit_hello_ok:
  assumes "inv (core_of p) M" "admit_hello say k p = (js, p')"
  shows "inv (core_of p') (mset js + M)"
  using assms inv_take_claim(2)[OF assms(1)]
  by (auto simp: admit_hello_def admitPolicy_def Let_def split: sum.splits prod.splits option.splits if_splits)

lemma admit_ack_ok:
  assumes "inv (core_of p) (add_mset (AdmitAck h info) M)" "admit_ack k h info p = (js, p')"
  shows "inv (core_of p') (mset js + M)"
  using assms by (auto simp: admit_ack_def Let_def inv_admitted split: if_splits)

lemma dial_hs_ok:
  assumes "inv (core_of p) M" "dial_hs l a n c p = (js, p')"
  shows "inv (core_of p') (mset js + M)"
proof (cases c)
  case (Sock k)
  obtain info errs out where d: "dialHandshake k (pcSelf (plCfg p)) (Known p) = ((info, errs), out)" by (metis prod.collapse)
  have "inv ((core_of p)\<lparr>cClaims := bump i (plClaims p)\<rparr>) (add_mset (ReleaseClaim i) M)" for i
    using inv_take_claim(1)[OF assms(1)] by simp
  then show ?thesis using assms d Sock
    by (cases "pID info = ''''") (auto simp: dial_hs_def Let_def add_mset_commute split: if_splits)
qed (use assms in \<open>auto simp: dial_hs_def\<close>)

lemma watch_ok:
  assumes "inv (core_of p) (add_mset (Watch w e) M)" "guarded M" "watch e p = (down, p')"
  shows "inv (core_of p') (mset (if down then [EmitDown e] else []) + M)"
proof -
  note i = assms(1)
  have len: "e < length (plEntries p)" using invD(11)[OF i, of "Watch w e"] by simp
  then have id: "cIds (core_of p) ! e = eid_of p e" by (simp add: core_of_entry)
  note u = fate_unique[OF i, of e, simplified, OF len]
  consider "fmlookup (plPeers p) (eid_of p e) \<noteq> Some e"
    | "fmlookup (plPeers p) (eid_of p e) = Some e" "claimed (p\<lparr>plPeers := fmdrop (eid_of p e) (plPeers p)\<rparr>) e"
    | "fmlookup (plPeers p) (eid_of p e) = Some e" "\<not> claimed (p\<lparr>plPeers := fmdrop (eid_of p e) (plPeers p)\<rparr>) e" by blast
  then show ?thesis
  proof cases
    case 1
    have "inv (core_of p) M" by (rule inv_drop[OF i]) (use 1 id in auto)
    from inv_retire[OF this u(3)] 1 id u(2) assms(3) show ?thesis by (auto simp: watch_def Let_def)
  next
    case 2
    then show ?thesis using inv_watch_park[OF i, of "eid_of p e"] assms(3) by (auto simp: watch_def Let_def)
  next
    case 3
    then have "fm_get 0 (plClaims p) (eid_of p e) \<le> 0" by (simp add: claimed_def Let_def not_less entry_def)
    then have "num (claim_job (eid_of p e)) M = 0" using invD(1)[OF i, of "eid_of p e"] by simp
    then have "num (up_job (eid_of p e)) M = 0" using assms(2) unfolding guarded_def by (metis gr0I less_irrefl)
    with 3 show ?thesis using inv_watch_down[OF i, of "eid_of p e"] assms(3) by (auto simp: watch_def Let_def)
  qed
qed

lemma same_roles_swap: "same_roles (Swap x e) [SwapDrain x e]" "same_roles (SwapDrain x e) [SwapSend x e q]"
  "same_roles (SwapSend x e q) [SwapSend x e q']"
  by (auto simp: same_roles_def)

lemma swap_send_ok:
  assumes "inv (core_of p) (add_mset (SwapSend x e envs) M)" "swap_send x e envs was pick p = Some (js, p')"
  shows "inv (core_of p') (mset js + M)"
proof (cases envs)
  case Nil
  have "inv (core_of p) M" by (rule inv_drop[OF assms(1)]) simp_all
  from inv_retire[OF this] invD(10)[OF assms(1), of x] assms(2) Nil show ?thesis by (auto simp: swap_send_def)
next
  case (Cons env q)
  then show ?thesis using inv_same[OF assms(1) same_roles_swap(3)] assms(2)
    by (auto simp: swap_send_def split: if_splits)
qed

lemma do_job_ok:
  assumes i: "inv (core_of p) (add_mset j M)" and g: "guarded M" and x: "\<not> plCtxDone p" and s: "do_job say c j p = Some (js, p')"
  shows "inv (core_of p') (mset js + M)"
proof (cases j)
  case AdmitHello
  then show ?thesis using i s by (auto simp: do_job_def admit_hello_ok split: choice.splits)
next
  case (AdmitAck h info)
  then show ?thesis using i s by (auto simp: do_job_def admit_ack_ok split: choice.splits)
next
  case (Swap a e)
  then show ?thesis using inv_same[OF i[unfolded Swap] same_roles_swap(1)] s by (auto simp: do_job_def)
next
  case (SwapDrain a e)
  then show ?thesis using inv_same[OF i[unfolded SwapDrain] same_roles_swap(2)] s by (auto simp: do_job_def)
next
  case (SwapSend a e q)
  then show ?thesis using swap_send_ok[OF i[unfolded SwapSend]] s by (auto simp: do_job_def split: choice.splits)
next
  case (AwaitGone f info)
  then have "f < length (plEntries p)" using invD(11)[OF i, of j] by simp
  then show ?thesis using inv_await[OF i[unfolded AwaitGone]] s AwaitGone by (auto simp: do_job_def core_of_entry split: if_splits)
next
  case (EmitUp info)
  then show ?thesis using inv_emit_up[OF i[unfolded EmitUp], of "PeerUp info"] s x
    by (auto simp: do_job_def emit_up_def event_peer_def up_event_def split: if_splits)
next
  case (ReleaseClaim a)
  then show ?thesis
    using settle_ok[of "p\<lparr>plClaims := unbump a (plClaims p)\<rparr>" "[]" M a] inv_release_claim[OF i[unfolded ReleaseClaim]] g s
    by (auto simp: do_job_def releaseClaim_def jobs_down_def)
next
  case (ReleaseDialing a)
  then show ?thesis
    using settles_ok[of "p\<lparr>plDialing := unbump a (plDialing p)\<rparr>" "[]" M "fm_keys (plDeferred p)"] i g s
    by (auto simp: do_job_def releaseDialing_def jobs_down_def)
next
  case (EmitDown e)
  then have "e < length (plEntries p)" using invD(11)[OF i, of j] by simp
  then show ?thesis
    using inv_emit_down[OF i[unfolded EmitDown], of "PeerDown (peInfo (entry p e)) d" for d] s x EmitDown
    by (auto simp: do_job_def emit_down_def event_peer_def up_event_def core_of_entry split: if_splits)
next
  case (DownDone e)
  then have "e < length (plEntries p)" using invD(11)[OF i, of j] by simp
  then show ?thesis using inv_down_done[OF i[unfolded DownDone] refl] s DownDone
    by (auto simp: do_job_def down_done_def Let_def core_of_entry split: if_splits)
next
  case (Watch w e)
  then show ?thesis using watch_ok[OF i[unfolded Watch] g, of "fst (watch e p)" "snd (watch e p)"] i s
    by (auto simp: do_job_def case_prod_beta Let_def split: if_splits)
next
  case (DialHs l a n)
  then show ?thesis using i s by (auto simp: do_job_def dial_hs_ok)
next
  case (CloseAll es)
  have "core_of (foldl (\<lambda>p e. set_conn e (Conn_Close (peConn (entry p e))) p) q es) = core_of q" for q
    by (induction es arbitrary: q) simp_all
  then show ?thesis using i s CloseAll by (auto simp: do_job_def)
qed (use i s in \<open>auto simp: do_job_def split: if_splits option.splits\<close>)

section \<open>Registration\<close>

definition fresh_job :: "job \<Rightarrow> bool" where
  "fresh_job j = (case j of WatchNew c \<Rightarrow> True | Register info w \<Rightarrow> True | _ \<Rightarrow> False)"

lemma watch_jobs_none: "list_all (\<lambda>j. \<not> fresh_job j) js \<Longrightarrow> watch_jobs oe js = js"
  by (induction js) (auto simp: watch_jobs_def fresh_job_def split: job.splits)

lemma watch_jobs_split:
  assumes "list_all (\<lambda>j. \<not> fresh_job j) xs" "list_all (\<lambda>j. \<not> fresh_job j) ys"
  shows "watch_jobs None (xs @ WatchNew c # ys) = xs @ ys" "watch_jobs (Some e) (xs @ WatchNew c # ys) = xs @ Watch c e # ys"
  using watch_jobs_none[OF assms(1)] watch_jobs_none[OF assms(2)] by (simp_all add: watch_jobs_def)

lemma current_no_down:
  assumes "inv k M" "fmlookup (cPeers k) i = Some x"
  shows "EmitDown x \<notin># M"
proof
  assume "EmitDown x \<in># M"
  then obtain M1 where M: "M = add_mset (EmitDown x) M1" by (metis mset_add)
  have "x < length (cIds k)" "num (watch_job x) M = 1" using invD(8)[OF assms] by auto
  then show False using fate_unique(5)[of k "EmitDown x" M1 x] assms(1) M by simp
qed

lemma core_of_append [simp]:
  "core_of (p\<lparr>plEntries := plEntries p @ [x]\<rparr>) = (core_of p)\<lparr>cIds := cIds (core_of p) @ [pID (peInfo x)], cGone := cGone (core_of p) @ [peGone x]\<rparr>"
  by (simp add: core_of_def)

lemma core_of_drop_idem [simp]:
  "fmlookup (plDeferred p) i = None \<Longrightarrow> (core_of p)\<lparr>cDeferred := fmdrop i (plDeferred p)\<rparr> = core_of p"
  by (simp add: core_of_def) (intro fmap_ext, auto)

text \<open>The core after the critical section of \<open>register\<close>.\<close>

definition entered :: "core \<Rightarrow> NodeID \<Rightarrow> core" where
  "entered k i = k\<lparr>cIds := cIds k @ [i], cGone := cGone k @ [False]\<rparr>"

lemma entered_sel [simp]:
  "cPeers (entered k i) = cPeers k" "cDeferred (entered k i) = cDeferred k" "cDown (entered k i) = cDown k" "linked (entered k i) j = linked k j"
  by (simp_all add: entered_def linked_def)

lemma register_core:
  assumes "register info raw w p = (Some (e, existing, parked, inFlight), p')" "inv (core_of p) M"
  shows "e = length (plEntries p)" "existing = fmlookup (plPeers p) (pID info)" "parked = fmlookup (plDeferred p) (pID info)"
    "inFlight = fmlookup (plDownInFlight p) (pID info)"
    "core_of p' = (let k = entered (core_of p) (pID info); k1 = k\<lparr>cPeers := fmupd (pID info) e (cPeers k)\<rparr> in
       case parked of None \<Rightarrow> k1
       | Some d \<Rightarrow> k1\<lparr>cDeferred := fmdrop (pID info) (cDeferred k), cGone := (cGone k)[d := True]\<rparr>)"
proof -
  have d: "d < length (cGone (core_of p))" if "fmlookup (plDeferred p) (pID info) = Some d" for d
    using invD(9)[OF assms(2), of "pID info" d] invD(12)[OF assms(2)] that by simp
  have l: "length (plEntries (retire d q)) = length (plEntries q)" "plPeers (retire d q) = plPeers q" "plCfg (retire d q) = plCfg q" for d q
    by (simp_all add: retire_def set_entry_def)
  show "e = length (plEntries p)" "existing = fmlookup (plPeers p) (pID info)" "parked = fmlookup (plDeferred p) (pID info)"
    "inFlight = fmlookup (plDownInFlight p) (pID info)"
    using assms(1) by (auto simp: register_def Let_def l split: if_splits option.splits)
  show "core_of p' = (let k = entered (core_of p) (pID info); k1 = k\<lparr>cPeers := fmupd (pID info) e (cPeers k)\<rparr> in
       case parked of None \<Rightarrow> k1
       | Some d \<Rightarrow> k1\<lparr>cDeferred := fmdrop (pID info) (cDeferred k), cGone := (cGone k)[d := True]\<rparr>)"
    using assms(1) d by (auto simp: register_def Let_def entered_def l list_update_append1 split: if_splits option.splits)
qed

lemma register_jobs_ok:
  assumes i: "inv (core_of p) (add_mset (Register info w) (mset rest + R))" and s: "register_jobs info w raw rest p = (js, p')"
    and rest: "rest = xs @ WatchNew c # ys" "list_all (\<lambda>j. \<not> fresh_job j) xs" "list_all (\<lambda>j. \<not> fresh_job j) ys"
  shows "inv (core_of p') (mset js + R)"
proof -
  let ?M = "mset xs + mset ys + R" and ?i = "pID info"
  let ?k = "entered (core_of p) ?i" and ?e = "length (plEntries p)"
  have M: "inv (core_of p) ?M" using i rest(1) by simp
  note in' = inv_enter[OF M, of ?i, folded entered_def] unused_new[OF M, of ?i, folded entered_def]
  have u: "unused ?k ?M ?i ?e" using in'(2) by simp
  note wj = watch_jobs_split[OF rest(2,3)]
  obtain r p1 where r: "register info raw w p = (r, p1)" by fastforce
  show ?thesis
  proof (cases r)
    case None
    then have "core_of p1 = core_of p" using r by (auto simp: register_def Let_def split: if_splits option.splits)
    then show ?thesis using s r None M wj(1) rest(1) by (auto simp: register_jobs_def)
  next
    case (Some t)
    then obtain e existing parked inFlight where t: "r = Some (e, existing, parked, inFlight)" by (metis prod_cases4)
    note rc = register_core[OF r[unfolded t] M]
    have js: "js = (case existing of Some x \<Rightarrow> [Swap x e] | None \<Rightarrow> if parked \<noteq> None then []
        else (case inFlight of None \<Rightarrow> [EmitUp info] | Some f \<Rightarrow> [AwaitGone f info])) @ xs @ Watch c e # ys" and p': "p' = p1"
      using s r t wj(2) rest(1) by (auto simp: register_jobs_def)
    consider (swap) x where "existing = Some x" | (unpark) d where "existing = None" "parked = Some d" | (up) "existing = None" "parked = None"
      by (cases existing; cases parked) auto
    then show ?thesis
    proof cases
      case swap
      have d: "fmlookup (plDeferred p) ?i = None" "x < length (plEntries p)" "cIds (core_of p) ! x = ?i"
        using invD(8)[OF M, of ?i x] rc(2) swap by auto
      have "fmlookup (plPeers p) ?i = Some x" using rc(2) swap by simp
      then have l: "linked ?k ?i" by (simp add: linked_def)
      have k1: "?k\<lparr>cPeers := fmupd ?i ?e (cPeers ?k), cDeferred := fmdrop ?i (cDeferred ?k)\<rparr> = core_of p1"
        using rc(1,3,5) d(1) by (simp add: entered_def core_of_def) (intro fmap_ext, auto)
      have "inv (core_of p1) (add_mset (Watch c e) ?M)" using inv_link[OF in'(1) u l, of c] k1 rc(1) by simp
      moreover have "cIds (core_of p1) ! x = ?i" "fmlookup (cPeers (core_of p1)) ?i = Some e" "fmlookup (cDeferred (core_of p1)) ?i = None"
        using d k1[symmetric] rc(1) by (simp_all add: entered_def nth_append)
      moreover have "EmitDown x \<notin># ?M" using current_no_down[OF M, of ?i x] rc(2) swap by simp
      ultimately have "inv (core_of p1) (add_mset (Swap x e) (add_mset (Watch c e) ?M))"
        using d rc(1,5) by (intro inv_add_swap) (auto simp: entered_def Let_def split: option.split)
      then show ?thesis using js p' swap by (simp add: add_mset_commute)
    next
      case unpark
      note dd = invD(9)[OF in'(1), of ?i d]
      have f: "fmlookup (plDeferred p) ?i = Some d" using rc(3) unpark by simp
      then have l: "linked ?k ?i" by (simp add: linked_def)
      have v: "inv (?k\<lparr>cPeers := fmupd ?i ?e (cPeers ?k), cDeferred := fmdrop ?i (cDeferred ?k)\<rparr>) (add_mset (Watch c ?e) ?M)"
        by (rule inv_link[OF in'(1) u l])
      have "num (fate_job d) ?M = 0" using invD(7)[OF in'(1), of d] dd f by auto
      then have "EmitDown d \<notin># add_mset (Watch c ?e) ?M" unfolding num_0 by (auto simp: fate_job_def)
      moreover have "d \<noteq> ?e" using u f by (auto simp: unused_def)
      ultimately have "inv (core_of p1) (add_mset (Watch c ?e) ?M)"
        using inv_retire[OF v, of d] dd f rc(5) rc(1) unpark by (simp add: Let_def)
      then show ?thesis using js p' unpark rc(1) by simp
    next
      case up
      have "fmlookup (plPeers p) ?i = None" "fmlookup (plDeferred p) ?i = None" using rc(2,3) up by simp_all
      then have l: "\<not> linked ?k ?i" by (simp add: linked_def)
      have "inv (core_of p1) (add_mset (Watch c e) (add_mset (case inFlight of None \<Rightarrow> EmitUp info | Some f \<Rightarrow> AwaitGone f info) ?M))"
        using inv_fresh[OF in'(1) u l refl refl, of c] rc up by (simp add: Let_def)
      then show ?thesis using js p' up by (cases inFlight) (simp_all add: add_mset_commute)
    qed
  qed
qed

section \<open>Goroutines\<close>

text \<open>
  The shape of a goroutine's work: a registration stands first and is followed by the release of its claim and one \<open>WatchNew\<close>; an
  Up on its way stands first and is followed by the release of its claim.
\<close>

definition plain :: "job \<Rightarrow> bool" where
  "plain j \<longleftrightarrow> \<not> fresh_job j \<and> (\<forall>i. \<not> up_job i j)"

definition covered :: "job list \<Rightarrow> bool" where
  "covered th \<longleftrightarrow> (case th of [] \<Rightarrow> True | j # rest \<Rightarrow>
     (case j of
        Register info w \<Rightarrow> ReleaseClaim (pID info) \<in> set rest \<and>
          (\<exists>c xs ys. rest = xs @ WatchNew c # ys \<and> list_all plain xs \<and> list_all plain ys)
      | AwaitGone f info \<Rightarrow> ReleaseClaim (pID info) \<in> set rest \<and> list_all plain rest
      | EmitUp info \<Rightarrow> ReleaseClaim (pID info) \<in> set rest \<and> list_all plain rest
      | _ \<Rightarrow> list_all plain (j # rest)))"

lemma plain_simps [simp]:
  "\<not> plain (Register info w)" "\<not> plain (WatchNew x)" "\<not> plain (AwaitGone f info)" "\<not> plain (EmitUp info)"
  "plain AdmitHello" "plain (AdmitAck h info)" "plain (Swap a b)" "plain (SwapDrain a b)" "plain (SwapSend a b q)" "plain (ReleaseClaim i)"
  "plain (ReleaseDialing ad)" "plain (EmitDown e)" "plain (DownDone e)" "plain (Watch x e)" "plain (Dial l ad n)" "plain (DialHs l ad n)"
  "plain (AfterReject l ad i n)" "plain (WaitConn l i)" "plain (WaitGone l e i)" "plain (Redial l ad n)" "plain (Pause l ad n)"
  "plain (EndDial l ad)" "plain (CloseAll es)"
  by (simp_all add: plain_def fresh_job_def up_job_def)

lemma covered_plain: "list_all plain js \<Longrightarrow> covered js"
  by (cases js) (auto simp: covered_def split: job.split)

lemma covered_cases:
  assumes "covered (j # rest)"
  shows "plain j \<and> list_all plain rest \<or> (\<exists>info w. j = Register info w) \<or> (\<exists>f info. j = AwaitGone f info) \<or> (\<exists>info. j = EmitUp info)"
  using assms by (cases j) (auto simp: covered_def)

lemma covered_up:
  assumes "covered th" "j \<in> set th" "up_job i j"
  shows "ReleaseClaim i \<in> set th"
proof (cases th)
  case (Cons h rest)
  have p: "\<not> up_job i x" if "plain x" for x using that by (simp add: plain_def)
  then have no: "\<not> up_job i x" if "list_all plain xs" "x \<in> set xs" for x xs using that by (auto simp: list_all_iff)
  have w: "\<not> up_job i (WatchNew c)" "\<not> up_job i (Register info w)" for c info w by (simp_all add: up_job_def)
  show ?thesis using assms no w Cons by (cases h) (auto simp: covered_def p up_job_def list_all_iff)
qed (use assms in simp)

lemma covered_rest:
  assumes "covered (j # rest)" "x \<in> set rest"
  shows "\<not> up_job i x"
proof -
  have p: "\<not> up_job i y" if "plain y" for y using that by (simp add: plain_def)
  then have no: "\<not> up_job i x" if "list_all plain rest" using that assms(2) by (auto simp: list_all_iff)
  have w: "\<not> up_job i (WatchNew c)" for c by (simp add: up_job_def)
  show ?thesis using assms no w by (cases j) (auto simp: covered_def p list_all_iff)
qed

lemma covered_heads:
  "covered (EmitUp info # rest) \<longleftrightarrow> ReleaseClaim (pID info) \<in> set rest \<and> list_all plain rest"
  "covered (AwaitGone f info # rest) \<longleftrightarrow> ReleaseClaim (pID info) \<in> set rest \<and> list_all plain rest"
  by (simp_all add: covered_def)

lemma covered_register:
  "ReleaseClaim (pID info) \<in> set xs \<union> set ys \<Longrightarrow> list_all plain xs \<Longrightarrow> list_all plain ys \<Longrightarrow>
   covered (Register info w # xs @ WatchNew c # ys)"
  by (simp add: covered_def) blast

lemma judge_ack_named: "snd (judge_ack me ack) = [] \<Longrightarrow> pID (fst (judge_ack me ack)) \<noteq> ''''"
  by (auto simp: judge_ack_def malformed_def info_of_def split: if_splits option.splits)

lemma dialHandshake_named: "dialHandshake k me known = ((info, []), out) \<Longrightarrow> pID info \<noteq> ''''"
  using judge_ack_named by (auto simp: dialHandshake_def timeoutOr_def case_prod_beta Let_def split: if_splits option.splits sum.splits)

lemma dial_hs_covered:
  assumes "dial_hs l a n c p = (js, p')"
  shows "covered js"
proof (cases c)
  case (Sock k)
  obtain info errs out where d: "dialHandshake k (pcSelf (plCfg p)) (Known p) = ((info, errs), out)" by (metis prod.collapse)
  show ?thesis
  proof (cases "errs = [] \<and> \<not> plClosed p")
    case True
    then have "js = [Register info True, ReleaseClaim (pID info), ReleaseDialing a, WatchNew (Some l), WaitConn l (pID info), Pause l a 0]"
      using assms d Sock dialHandshake_named by (auto simp: dial_hs_def Let_def)
    then show ?thesis
      using covered_register[of info "[ReleaseClaim (pID info), ReleaseDialing a]" "[WaitConn l (pID info), Pause l a 0]" True "Some l"] by simp
  next
    case False
    then show ?thesis using assms d Sock
      by (auto simp: dial_hs_def Let_def intro!: covered_plain split: if_splits)
  qed
qed (use assms in \<open>auto simp: dial_hs_def intro!: covered_plain\<close>)

lemma covered_append: "covered js \<Longrightarrow> list_all plain rest \<Longrightarrow> covered (js @ rest)"
proof (cases js)
  case (Cons j js')
  assume a: "covered js" "list_all plain rest"
  show ?thesis
  proof (cases j)
    case (Register info w)
    then obtain c xs ys where "js' = xs @ WatchNew c # ys" "list_all plain xs" "list_all plain ys" "ReleaseClaim (pID info) \<in> set js'"
      using a(1) Cons by (auto simp: covered_def)
    then show ?thesis using a(2) Cons Register covered_register[of info xs "ys @ rest" w c] by auto
  qed (use a Cons in \<open>auto simp: covered_def\<close>)
qed (auto intro: covered_plain)

lemma admit_ack_covered:
  assumes "admit_ack k h info p = (js, p')"
  shows "covered js"
proof -
  consider "js = [Register info False, ReleaseClaim (pID info), WatchNew None]" | "js = [ReleaseClaim (pID info)]"
    using assms by (auto simp: admit_ack_def Let_def split: if_splits)
  then show ?thesis
  proof cases
    case 1
    then show ?thesis using covered_register[of info "[ReleaseClaim (pID info)]" "[]" False None] by simp
  qed (auto intro: covered_plain)
qed

lemma do_job_covered:
  assumes "covered (j # rest)" "do_job say c j p = Some (js, p')"
  shows "covered (js @ rest)"
proof -
  have nr: "j \<noteq> Register info w" for info w using assms(2) by (auto simp: do_job_def)
  have r: "list_all plain rest" using assms(1) nr by (cases j) (auto simp: covered_def)
  show ?thesis
  proof (cases j)
    case (AwaitGone f info)
    then show ?thesis using assms by (auto simp: covered_def do_job_def split: if_splits)
  next
    case (AdmitAck h info)
    then obtain k where "admit_ack k h info p = (js, p')" using assms(2) by (auto simp: do_job_def split: choice.splits)
    then show ?thesis using covered_append[OF admit_ack_covered r] by blast
  next
    case (DialHs l a n)
    then have "dial_hs l a n c p = (js, p')" using assms(2) by (simp add: do_job_def)
    then show ?thesis using covered_append[OF dial_hs_covered r] by blast
  next
    case (SwapSend x e envs)
    then show ?thesis using assms(2) r
      by (cases envs) (auto simp: do_job_def swap_send_def intro!: covered_plain split: choice.splits if_splits)
  next
    case AdmitHello
    then show ?thesis using assms(2) r
      by (auto simp: do_job_def admit_hello_def Let_def intro!: covered_plain split: choice.splits sum.splits prod.splits if_splits)
  next
    case (ReleaseClaim i)
    then show ?thesis using assms(2) r by (auto simp: do_job_def jobs_down_def list_all_iff intro!: covered_plain)
  next
    case (ReleaseDialing a)
    then show ?thesis using assms(2) r by (auto simp: do_job_def jobs_down_def list_all_iff intro!: covered_plain)
  next
    case (Watch x e)
    then show ?thesis using assms(2) r by (auto simp: do_job_def Let_def intro!: covered_plain split: if_splits prod.splits)
  qed (use assms(2) r in \<open>auto simp: do_job_def intro!: covered_plain split: if_splits option.splits\<close>)
qed

lemma register_covered:
  assumes "covered (Register info w # rest)" "register_jobs info w raw rest p = (js, p')"
  shows "covered js"
proof -
  obtain c xs ys where rest: "rest = xs @ WatchNew c # ys" "list_all plain xs" "list_all plain ys" "ReleaseClaim (pID info) \<in> set (xs @ ys)"
    using assms(1) by (auto simp: covered_def)
  have p: "list_all (\<lambda>j. \<not> fresh_job j) zs" if "list_all plain zs" for zs using that by (auto simp: list_all_iff plain_def)
  note wj = watch_jobs_split[OF p[OF rest(2)] p[OF rest(3)], where c = c, folded rest(1)]
  show ?thesis
    using assms(2) rest(2-4)
    by (auto simp: register_jobs_def wj Let_def covered_heads covered_plain split: prod.splits option.splits if_splits)
qed

section \<open>Every move keeps the account\<close>

definition jobs_of :: "job list list \<Rightarrow> job multiset" where
  "jobs_of ths = mset (concat ths)"

definition system_ok :: "system \<Rightarrow> bool" where
  "system_ok s \<longleftrightarrow> inv (core_of (fst s)) (jobs_of (snd s)) \<and> list_all covered (snd s)"

lemma jobs_of_split:
  assumes "k < length ths"
  shows "jobs_of (ths[k := js]) = mset js + jobs_of (ths[k := []])"
  using assms unfolding jobs_of_def
  by (simp add: upd_conv_take_nth_drop)

lemma jobs_of_at: "k < length ths \<Longrightarrow> jobs_of ths = mset (ths ! k) + jobs_of (ths[k := []])"
  using jobs_of_split[of k ths "ths ! k"] by simp

lemma covered_update: "list_all covered ths \<Longrightarrow> covered js \<Longrightarrow> list_all covered (ths[k := js])"
  using set_update_subset_insert[of ths k js] by (auto simp: list_all_iff)

lemma claim_in: "ReleaseClaim i \<in> set th \<Longrightarrow> th \<in> set ths \<Longrightarrow> 0 < num (claim_job i) (jobs_of ths)"
  unfolding num_pos jobs_of_def by (auto simp: claim_job_def intro!: bexI[of _ "ReleaseClaim i"])

lemma guarded_rest:
  assumes "list_all covered ths" "k < length ths" "ths ! k = j # rest"
  shows "guarded (mset rest + jobs_of (ths[k := []]))"
  unfolding guarded_def
proof (intro allI impI)
  fix i
  assume "0 < num (up_job i) (mset rest + jobs_of (ths[k := []]))"
  then obtain u where u: "u \<in># mset rest + jobs_of (ths[k := []])" "up_job i u" by (auto simp: num_pos)
  have "covered (j # rest)" using assms by (metis list_all_iff nth_mem)
  then have "u \<in># jobs_of (ths[k := []])" using u covered_rest by auto
  then obtain th where th: "th \<in> set (ths[k := []])" "u \<in> set th" by (auto simp: jobs_of_def)
  have "covered th" using covered_update[OF assms(1), of "[]" k] th(1) by (auto simp: list_all_iff covered_def)
  from covered_up[OF this th(2) u(2)] claim_in th(1)
  show "0 < num (claim_job i) (mset rest + jobs_of (ths[k := []]))" by fastforce
qed

lemma perform_ok:
  assumes "system_ok (p, ths)" "k < length ths" "ths ! k = j # rest" "perform say c j rest p = Some (js, p')" "\<not> plCtxDone p"
  shows "system_ok (p', ths[k := js])"
proof -
  let ?R = "jobs_of (ths[k := []])"
  have cov: "list_all covered ths" "covered (j # rest)" using assms(1-3) by (auto simp: system_ok_def list_all_iff) (metis nth_mem)
  have i: "inv (core_of p) (add_mset j (mset rest + ?R))"
    using assms(1-3) jobs_of_at[OF assms(2)] by (simp add: system_ok_def)
  have "inv (core_of p') (mset js + ?R) \<and> covered js"
  proof (cases "\<exists>info w. j = Register info w")
    case True
    then obtain info w where j: "j = Register info w" by blast
    have "\<exists>m. register_jobs info w m rest p = (js, p')"
      using assms(4) unfolding j by (auto simp: perform_def split: choice.splits)
    then obtain m where m: "register_jobs info w m rest p = (js, p')" by blast
    obtain x xs ys where r: "rest = xs @ WatchNew x # ys" "list_all plain xs" "list_all plain ys"
      using cov(2) j by (auto simp: covered_def)
    have "list_all (\<lambda>j. \<not> fresh_job j) zs" if "list_all plain zs" for zs using that by (auto simp: list_all_iff plain_def)
    with register_jobs_ok[OF _ m r(1)] register_covered[OF _ m] i cov(2) j r show ?thesis by auto
  next
    case False
    then obtain js' where js: "js = js' @ rest" "do_job say c j p = Some (js', p')"
      using assms(4) by (cases j) (auto simp: perform_def)
    then show ?thesis
      using do_job_ok[OF i guarded_rest[OF cov(1) assms(2,3)] assms(5) js(2)] do_job_covered[OF cov(2) js(2)]
      by (simp add: add.assoc)
  qed
  then show ?thesis using jobs_of_split[OF assms(2), of js] covered_update[OF cov(1)] by (simp add: system_ok_def)
qed

lemma move_ok:
  assumes "system_ok (p, ths)" "pool_move say m (p, ths) = Some (p', ths')" "\<not> plCtxDone p"
  shows "system_ok (p', ths')"
proof (cases m)
  case (Run k c)
  then obtain j rest js where r: "k < length ths" "ths ! k = j # rest" "perform say c j rest p = Some (js, p')" "ths' = ths[k := js]"
    using assms(2) by (auto simp: pool_move_def split: if_splits list.splits)
  then show ?thesis using perform_ok[OF assms(1) r(1-3) assms(3)] by simp
next
  case (Connect a)
  then show ?thesis using assms(1,2)
    by (auto simp: pool_move_def Pool_Connect_def system_ok_def jobs_of_def Let_def intro!: covered_plain split: if_splits)
next
  case (Forget a)
  then show ?thesis using assms(1,2)
    by (auto simp: pool_move_def Pool_Forget_def system_ok_def Let_def split: option.split)
next
  case Admit
  then show ?thesis using assms(1,2)
    by (auto simp: pool_move_def Pool_Admit_def system_ok_def jobs_of_def intro!: covered_plain split: if_splits)
next
  case ClosePool
  then show ?thesis using assms(1,2)
    by (auto simp: pool_move_def Pool_Close_def system_ok_def jobs_of_def intro!: covered_plain split: if_splits)
next
  case (Link e st)
  then show ?thesis using assms(1,2) by (auto simp: pool_move_def system_ok_def split: if_splits)
qed

section \<open>The context of the pool\<close>

lemma ctx_simps [simp]:
  "plCtxDone (set_conn e c p) = plCtxDone p" "plCtxDone (retire e p) = plCtxDone p" "plCtxDone (learnAddr a p) = plCtxDone p"
  "plCtxDone (fold learnAddr as p) = plCtxDone p"
proof -
  show l: "plCtxDone (learnAddr a p) = plCtxDone p" for a p by (simp add: learnAddr_def)
  show "plCtxDone (fold learnAddr as p) = plCtxDone p" by (induction as arbitrary: p) (simp_all add: l)
qed (simp_all add: set_conn_def retire_def set_entry_def)

lemma ctx_settle: "plCtxDone (fst (settle_down i pe)) = plCtxDone (fst pe)"
  by (auto simp: settle_down_def split: prod.splits option.splits)

lemma ctx_settles: "plCtxDone (fst (fold settle_down ks pe)) = plCtxDone (fst pe)"
  by (induction ks arbitrary: pe) (simp_all add: ctx_settle)

lemma ctx_closing: "plCtxDone (foldl (\<lambda>p e. set_conn e (Conn_Close (peConn (entry p e))) p) q es) = plCtxDone q"
  by (induction es arbitrary: q) simp_all

lemma ctx_register: "plCtxDone (snd (register info raw w p)) = plCtxDone p"
  by (auto simp: register_def Let_def split: option.splits)

lemma ctx_do_job: "do_job say c j p = Some (js, p') \<Longrightarrow> plCtxDone p \<Longrightarrow> plCtxDone p'"
  by (cases j)
    (auto simp: do_job_def admit_hello_def admitPolicy_def admit_ack_def dial_hs_def swap_send_def jobs_down_def releaseClaim_def
      releaseDialing_def ctx_settle ctx_settles ctx_closing watch_def emit_up_def emit_down_def down_done_def Let_def
      split: choice.splits sum.splits prod.splits if_splits option.splits list.splits)

lemma ctx_move:
  assumes "pool_move say m (p, ths) = Some (p', ths')" "plCtxDone p"
  shows "plCtxDone p'"
proof (cases m)
  case (Run k c)
  then obtain j rest js where r: "perform say c j rest p = Some (js, p')"
    using assms(1) by (auto simp: pool_move_def split: if_splits list.splits)
  show ?thesis
  proof (cases "\<exists>info w. j = Register info w")
    case True
    then show ?thesis using r assms(2) ctx_register
      by (auto simp: perform_def register_jobs_def case_prod_beta split: choice.splits option.splits)
  next
    case False
    then show ?thesis using r assms(2) ctx_do_job by (cases j) (auto simp: perform_def)
  qed
qed (use assms in \<open>auto simp: pool_move_def Pool_Connect_def Pool_Forget_def Pool_Admit_def Pool_Close_def Let_def
    split: if_splits option.splits\<close>)

lemma pool_run_ok:
  "pool_run say ms (p, ths) = Some (p', ths') \<Longrightarrow> system_ok (p, ths) \<Longrightarrow> \<not> plCtxDone p' \<Longrightarrow> system_ok (p', ths') \<and> \<not> plCtxDone p"
proof (induction ms arbitrary: p ths)
  case (Cons m ms)
  then obtain p1 ths1 where m: "pool_move say m (p, ths) = Some (p1, ths1)" "pool_run say ms (p1, ths1) = Some (p', ths')"
    by (auto split: bind_splits)
  have "\<not> plCtxDone p" 
  proof
    assume "plCtxDone p"
    have "plCtxDone p'" using m(2) ctx_move[OF m(1) \<open>plCtxDone p\<close>]
    proof (induction ms arbitrary: p1 ths1)
      case (Cons m ms)
      then show ?case by (auto split: bind_splits) (metis ctx_move surj_pair)
    qed simp
    then show False using Cons.prems(3) by simp
  qed
  then show ?case using Cons.IH[OF m(2)] move_ok[OF Cons.prems(2) m(1)] Cons.prems(3) by blast
qed simp

lemma system_ok_New: "system_ok (NewPool cfg, [])"
  unfolding system_ok_def inv_def
  by (simp add: core_of_def NewPool_def jobs_of_def linked_def up_now_def history_def fm_get_def)

section \<open>Simultaneous dials\<close>

text \<open>The link registered for a peer, told apart by what its socket brings.\<close>

definition kept :: "pool \<Rightarrow> NodeID \<Rightarrow> stream option" where
  "kept p i = map_option (\<lambda>e. cnIn (peConn (entry p e))) (fmlookup (plPeers p) i)"

lemma learnAddr_keeps [simp]: "plPeers (learnAddr a p) = plPeers p" "plEntries (learnAddr a p) = plEntries p"
  "plCfg (learnAddr a p) = plCfg p" "plClosed (learnAddr a p) = plClosed p"
  by (simp_all add: learnAddr_def)

lemma learnAddrs_keep [simp]: "plPeers (fold learnAddr as p) = plPeers p" "plEntries (fold learnAddr as p) = plEntries p"
  "plCfg (fold learnAddr as p) = plCfg p" "plClosed (fold learnAddr as p) = plClosed p"
  by (induction as arbitrary: p) simp_all

lemma retire_keeps [simp]: "plPeers (retire d p) = plPeers p" "plCfg (retire d p) = plCfg p" "plClosed (retire d p) = plClosed p"
  "length (plEntries (retire d p)) = length (plEntries p)"
  by (simp_all add: retire_def set_entry_def)

lemma register_kept:
  assumes "\<not> plClosed p" and "\<forall>x. fmlookup (plPeers p) (pID info) = Some x \<longrightarrow> preferred (pcSelf (plCfg p)) info (peInfo (entry p x)) w"
  shows "kept (snd (register info raw w p)) (pID info) = Some raw"
    and "fmlookup (plPeers (snd (register info raw w p))) (pID info) = Some (length (plEntries p))"
    and "peInfo (entry (snd (register info raw w p)) (length (plEntries p))) = info"
    and "plCfg (snd (register info raw w p)) = plCfg p" "\<not> plClosed (snd (register info raw w p))"
  using assms by (auto simp: register_def Let_def kept_def entry_def NewConn_def nth_append split: option.splits)

lemma register_refused:
  assumes "fmlookup (plPeers p) (pID info) = Some x" "\<not> preferred (pcSelf (plCfg p)) info (peInfo (entry p x)) w"
  shows "snd (register info raw w p) = p"
  using assms by (simp add: register_def Let_def)

text \<open>C31: Two nodes that dial each other at the same time agree on one link. In whatever order a node registers the link it dialled
  and the link its peer dialled, it ends with the one dialled by the smaller identifier, and since the peer does the same,
  both keep the same link.\<close>

theorem duel_keeps_smaller_dialer:
  assumes "\<not> plClosed p" "fmlookup (plPeers p) (pID info) = None" "pID info \<noteq> idID (pcSelf (plCfg p))"
    and "mine = (idID (pcSelf (plCfg p)) < pID info)"
  shows "kept (snd (register info theirs False (snd (register info ours True p)))) (pID info) = Some (if mine then ours else theirs) \<and>
    kept (snd (register info ours True (snd (register info theirs False p)))) (pID info) = Some (if mine then ours else theirs)"
proof -
  have r: "kept (snd (register info b (\<not> w) (snd (register info a w p)))) (pID info) = Some (if w = mine then a else b)" for a b w
  proof -
    note first = register_kept[OF assms(1), of info w a]
    let ?p = "snd (register info a w p)"
    have p: "kept ?p (pID info) = Some a" "fmlookup (plPeers ?p) (pID info) = Some (length (plEntries p))"
      "peInfo (entry ?p (length (plEntries p))) = info" "plCfg ?p = plCfg p" "\<not> plClosed ?p" using first assms(2) by simp_all
    have "preferred (pcSelf (plCfg p)) info info (\<not> w) = (w \<noteq> mine)"
      using assms(3,4) by (auto simp: preferred_def)
    then show ?thesis
      using register_kept(1)[OF p(5), of info "\<not> w" b] register_refused[OF p(2), of "\<not> w" b] p by (cases "w = mine") auto
  qed
  from r[of theirs True ours] r[of ours False theirs] show ?thesis by auto
qed

section \<open>Properties\<close>

text \<open>A goroutine that is about to tell the consumer something of peer \<open>i\<close>.\<close>

definition emitting :: "pool \<Rightarrow> NodeID \<Rightarrow> job \<Rightarrow> bool" where
  "emitting p i j = (case j of AwaitGone f info \<Rightarrow> pID info = i | EmitUp info \<Rightarrow> pID info = i | EmitDown e \<Rightarrow> eid_of p e = i | _ \<Rightarrow> False)"

lemma run_inv:
  assumes "pool_run say ms (NewPool cfg, []) = Some (p, ths)" "\<not> plCtxDone p"
  shows "inv (core_of p) (jobs_of ths)"
  using pool_run_ok[OF assms(1) system_ok_New assms(2)] by (simp add: system_ok_def)

lemma core_of_fields [simp]:
  "cPeers (core_of p) = plPeers p" "cDeferred (core_of p) = plDeferred p" "cEvents (core_of p) = plEvents p"
  "e < length (plEntries p) \<Longrightarrow> cIds (core_of p) ! e = eid_of p e" "length (cIds (core_of p)) = length (plEntries p)"
  by (simp_all add: core_of_def entry_def)

lemma settled_truth:
  assumes "inv (core_of p) (jobs_of ths)" "list_all (list_all (\<lambda>j. \<not> emitting p i j)) ths" "i \<noteq> ''''"
  shows "up_now (plEvents p) i = isConnected i p"
proof -
  have in_th: "\<exists>th\<in>set ths. j \<in> set th" if "j \<in># jobs_of ths" for j using that by (auto simp: jobs_of_def)
  have "num (up_job i) (jobs_of ths) = 0"
    unfolding num_0 using in_th assms(2) by (fastforce simp: list_all_iff emitting_def up_job_def split: job.splits)
  moreover have "cIds (core_of p) ! e \<noteq> i" if "EmitDown e \<in># jobs_of ths" for e
  proof -
    have "e < length (plEntries p)" using invD(11)[OF assms(1) that] by simp
    then show ?thesis using in_th[OF that] assms(2) by (fastforce simp: list_all_iff emitting_def)
  qed
  then have "num (down_job (cIds (core_of p)) i) (jobs_of ths) = 0" by (simp add: down_count)
  ultimately show ?thesis
    using invD(2)[OF assms(1), of i] assms(3) by (cases "linked (core_of p) i"; cases "up_now (plEvents p) i") (auto simp: linked_def isConnected_def)
qed

text \<open>C29: However dials, handshakes, registrations, swaps, closes and emissions of the pool's goroutines interleave, the events the
  consumer receives about a peer alternate and begin with a PeerUp, as long as the pool has not been closed (after which
  events may be dropped).\<close>

theorem peer_events_alternate:
  assumes "pool_run say ms (NewPool cfg, []) = Some (p, ths)" "\<not> plCtxDone p"
  shows "alternating True (history (plEvents p) i)"
  using invD(13)[OF run_inv[OF assms], of i] by simp

text \<open>C30: The events tell the truth. Whenever no goroutine of an open pool is about to emit an event about a peer, the consumer
  considers that peer up exactly if the pool has a registered link to it or a lost link whose report is deferred while a
  replacement is under way; in particular every lost link that is not replaced has been reported.\<close>

theorem peer_events_truthful:
  assumes "pool_run say ms (NewPool cfg, []) = Some (p, ths)" "\<not> plCtxDone p"
    and "list_all (list_all (\<lambda>j. \<not> emitting p i j)) ths" "i \<noteq> ''''"
  shows "up_now (plEvents p) i = isConnected i p"
  by (rule settled_truth[OF run_inv[OF assms(1,2)] assms(3,4)])

section \<open>A run\<close>

definition ex_cfg :: PoolConfig where
  "ex_cfg = \<lparr>pcSelf = ex_ident ''b'', pcConn = \<lparr>ccIdleTimeout = 0, ccWriteTimeout = 0, ccCtrlDepth = 0, ccDataDepth = 0, ccCtrlSendTimeout = 0\<rparr>,
     pcHandshakeTimeout = 0, pcMaxRedials = 0, pcMaxPending = 0, pcEventBuffer = 0\<rparr>"

abbreviation ex_info :: PeerInfo where "ex_info \<equiv> info_of ''a'' ''a'' 1 []"

text \<open>An inbound peer is admitted, its link closes cleanly, and both events are delivered.\<close>

definition ex_moves :: "move list" where
  "ex_moves = [Admit, Run 0 (Sock (ex_sock (frame_of ex_hello))), Run 0 (Sock (ex_sock [])), Run 0 (Sock (ex_sock [])), Run 0 Go,
     Run 0 Go, Link 0 (Reading Arrives), Link 0 (Reading Arrives), Run 0 Go, Run 0 Go]"

lemma ex_hello_read: "read_hello say (ex_sock (frame_of ex_hello)) (ex_ident ''b'') = Inr (ex_hello, ex_info)"
  using read_hello_honest[of "ex_sock (frame_of ex_hello)" "ex_sock []" "ex_ident ''a''" "[]" say "ex_ident ''b''"] ex_fits(1)
  by (simp add: ex_ident_def int64_ok_def)

lemma ex_ack: "write_ack (ex_sock []) (ex_ident ''b'') [] ex_hello ex_info = ((ex_info, []), frame_of (ack_of (ex_sock []) (ex_ident ''b'') [] ex_hello))"
  using put_fits[OF ex_sock_simps(1) ex_fits(2)] by (simp add: write_ack_def ack_of_def ex_sock_def)

definition ex_pool :: "conn list \<Rightarrow> (NodeID, eid) fmap \<Rightarrow> (NodeID, int) fmap \<Rightarrow> (NodeID, eid) fmap \<Rightarrow> int \<Rightarrow> PeerEvent list \<Rightarrow> pool" where
  "ex_pool cs peers claims down n evs = (NewPool ex_cfg)\<lparr>plEntries := map (\<lambda>c. \<lparr>peInfo = ex_info, peConn = c, peGone = False\<rparr>) cs,
     plPeers := peers, plClaims := claims, plDownInFlight := down, plAdmitting := n, plKnown := (if cs = [] then {||} else {|''a''|}), plEvents := evs\<rparr>"

definition ex_conn :: "reader \<Rightarrow> bool \<Rightarrow> conn" where
  "ex_conn r done = (NewConn ''a'' \<lparr>sBytes = [], sEnd = CleanEnd\<rparr> (pcConn ex_cfg))\<lparr>cnReader := r, cnDone := done,
     cnDisposition := (if done then DispositionCleanClose else DispositionOther), cnErr := (if done then Some (Codec EOF) else None)\<rparr>"

lemmas ex_step = pool_move_def perform_def do_job_def Let_def ex_pool_def NewPool_def PoolConfig_withDefaults_def ex_cfg_def pos_or_def

lemma ex_facts [simp]: "pID ex_info = ''a''" "fmdrop k (fmupd k v fmempty) = fmempty" "sorted_list_of_fset {||} = ([] :: NodeAddress list)"
  by (auto simp: info_of_def sorted_list_of_fset.rep_eq intro: fmap_ext)

lemma ex_admit:
  "pool_move say Admit (NewPool ex_cfg, []) = Some (ex_pool [] fmempty fmempty fmempty 1 [], [[AdmitHello]])"
  "pool_move say (Run 0 (Sock (ex_sock (frame_of ex_hello)))) (ex_pool [] fmempty fmempty fmempty 1 [], [[AdmitHello]]) =
     Some (ex_pool [] fmempty (fmupd ''a'' 1 fmempty) fmempty 1 [], [[AdmitAck ex_hello ex_info]])"
  "pool_move say (Run 0 (Sock (ex_sock []))) (ex_pool [] fmempty (fmupd ''a'' 1 fmempty) fmempty 1 [], [[AdmitAck ex_hello ex_info]]) =
     Some (ex_pool [] fmempty (fmupd ''a'' 1 fmempty) fmempty 0 [], [[Register ex_info False, ReleaseClaim ''a'', WatchNew None]])"
  by (simp_all add: ex_step Pool_Admit_def admit_hello_def ex_hello_read admitPolicy_def bump_def fm_get_def admit_ack_def Known_def ex_ack)

lemma ex_register:
  "pool_move say (Run 0 (Sock (ex_sock []))) (ex_pool [] fmempty (fmupd ''a'' 1 fmempty) fmempty 0 [], [[Register ex_info False, ReleaseClaim ''a'', WatchNew None]]) =
     Some (ex_pool [ex_conn RCheck False] (fmupd ''a'' 0 fmempty) (fmupd ''a'' 1 fmempty) fmempty 0 [], [[EmitUp ex_info, ReleaseClaim ''a'', Watch None 0]])"
  by (simp add: ex_step register_jobs_def register_def watch_jobs_def learnAddr_def info_of_def ex_conn_def NewConn_def ex_ident_def)

lemma ex_up:
  "pool_move say (Run 0 Go) (ex_pool [c] peers claims fmempty 0 [], [[EmitUp ex_info, ReleaseClaim ''a'', w]]) =
     Some (ex_pool [c] peers claims fmempty 0 [PeerUp ex_info], [[ReleaseClaim ''a'', w]])"
  "pool_move say (Run 0 Go) (ex_pool [c] peers (fmupd ''a'' 1 fmempty) fmempty 0 evs, [[ReleaseClaim ''a'', w]]) =
     Some (ex_pool [c] peers fmempty fmempty 0 evs, [[w]])"
  by (simp_all add: ex_step emit_up_def releaseClaim_def settle_down_def jobs_down_def unbump_def fm_get_def)

lemma ex_link:
  "pool_move say (Link 0 (Reading Arrives)) (ex_pool [ex_conn RCheck False] peers fmempty fmempty 0 evs, ths) =
     Some (ex_pool [ex_conn RRead False] peers fmempty fmempty 0 evs, ths)"
  "pool_move say (Link 0 (Reading Arrives)) (ex_pool [ex_conn RRead False] peers fmempty fmempty 0 evs, ths) =
     Some (ex_pool [ex_conn RExited True] peers fmempty fmempty 0 evs, ths)"
  by (simp_all add: ex_step entry_def set_conn_def set_entry_def conn_perform_def read_step_def ex_conn_def NewConn_def ReadFrame_def ReadFull_def headerSize_def
      closeWith_def Classify_def)

lemma ex_down:
  "pool_move say (Run 0 Go) (ex_pool [ex_conn RExited True] (fmupd ''a'' 0 fmempty) fmempty fmempty 0 evs, [[Watch None 0]]) =
     Some (ex_pool [ex_conn RExited True] fmempty fmempty (fmupd ''a'' 0 fmempty) 0 evs, [[EmitDown 0]])"
  "pool_move say (Run 0 Go) (ex_pool [ex_conn RExited True] fmempty fmempty (fmupd ''a'' 0 fmempty) 0 evs, [[EmitDown 0]]) =
     Some (ex_pool [ex_conn RExited True] fmempty fmempty (fmupd ''a'' 0 fmempty) 0 (evs @ [PeerDown ex_info DispositionCleanClose]), [[DownDone 0]])"
  by (simp_all add: ex_step entry_def ex_conn_def NewConn_def watch_def claimed_def fm_get_def info_of_def emit_down_def Conn_Disposition_def)

lemma ex_run:
  "pool_run say ex_moves (NewPool ex_cfg, []) =
     Some (ex_pool [ex_conn RExited True] fmempty fmempty (fmupd ''a'' 0 fmempty) 0 [PeerUp ex_info, PeerDown ex_info DispositionCleanClose], [[DownDone 0]])"
  by (simp add: ex_moves_def ex_admit ex_register ex_up ex_link ex_down)

lemma ex_open: "\<not> plCtxDone (ex_pool cs peers claims down n evs)" "plEvents (ex_pool cs peers claims down n evs) = evs"
  by (simp_all add: ex_pool_def NewPool_def)

theorem peer_events_alternate_witness:
  "history [PeerUp ex_info, PeerDown ex_info DispositionCleanClose] ''a'' = [PeerUp ex_info, PeerDown ex_info DispositionCleanClose] \<and>
   alternating True (history [PeerUp ex_info, PeerDown ex_info DispositionCleanClose] ''a'')"
  using peer_events_alternate[OF ex_run[of "\<lambda>_. ''no''"] ex_open(1), of "''a''"] by (simp add: ex_open history_def info_of_def event_peer_def)

theorem peer_events_truthful_witness:
  "\<not> up_now [PeerUp ex_info, PeerDown ex_info DispositionCleanClose] ''a''"
  using peer_events_truthful[OF ex_run[of "\<lambda>_. ''no''"] ex_open(1), of "''a''"]
  by (simp add: ex_open emitting_def isConnected_def) (simp add: ex_pool_def NewPool_def)

theorem duel_keeps_smaller_dialer_witness:
  "kept (snd (register ex_info (skIn (ex_sock [1])) False (snd (register ex_info (skIn (ex_sock [0])) True (NewPool ex_cfg))))) ''a'' =
     Some (skIn (ex_sock [1]))"
  using conjunct1[OF duel_keeps_smaller_dialer, of "NewPool ex_cfg" ex_info False "skIn (ex_sock [1])" "skIn (ex_sock [0])"]
  by (simp add: NewPool_def PoolConfig_withDefaults_def ex_cfg_def ex_ident_def)

end
