(* ===== verification/Backoff.thy ===== *)
theory Backoff
  imports Pool
begin

text \<open>
  The pause before a redial, \<open>defaultBackoff\<close> in \<open>pkg/network/dial.go\<close>: exponential in the number of failed attempts,
  capped, with a jitter computed in binary64. The random source is an argument.
\<close>

text \<open>Conversion of a float to an integer type, on the finite values the source converts.\<close>

definition trunc_int :: "f64 \<Rightarrow> int" where
  "trunc_int a = (case a of Fin x \<Rightarrow> if 0 \<le> x then \<lfloor>x\<rfloor> else \<lceil>x\<rceil> | _ \<Rightarrow> 0)"

definition nominal :: "int \<Rightarrow> duration" where
  "nominal attempt =
     (let a1 = (if attempt < 0 then 0 else attempt);
          a2 = (if 6 < a1 then 6 else a1);
          d = 200 * Millisecond * 2 ^ nat a2
      in if 10 * Second < d then 10 * Second else d)"

definition defaultBackoff :: "f64 \<Rightarrow> int \<Rightarrow> duration" where
  "defaultBackoff random attempt =
     (let factor = Fin 1 + (random * Fin 2 - Fin 1) * Fin (1 / 4)
      in trunc_int (f64_of_int (nominal attempt) * factor))"

section \<open>Bounds\<close>

lemma f64_of_rat_between:
  assumes "f64_of_rat a = Fin a" "f64_of_rat b = Fin b" "a \<le> y" "y \<le> b"
  obtains z where "f64_of_rat y = Fin z" "a \<le> z" "z \<le> b"
  using f64_of_rat_mono[OF assms(3)] f64_of_rat_mono[OF assms(4)] assms(1,2) by (cases "f64_of_rat y") auto

lemma f64_quarters:
  "f64_of_rat 0 = Fin 0" "f64_of_rat 1 = Fin 1" "f64_of_rat 2 = Fin 2" "f64_of_rat (- 1) = Fin (- 1)"
  "f64_of_rat (1 / 4) = Fin (1 / 4)" "f64_of_rat (- (1 / 4)) = Fin (- (1 / 4))" "f64_of_rat (3 / 4) = Fin (3 / 4)" "f64_of_rat (5 / 4) = Fin (5 / 4)"
  by code_simp+

lemma factor_between:
  assumes "0 \<le> x" "x \<le> 1"
  obtains z where "Fin 1 + (Fin x * Fin 2 - Fin 1) * Fin (1 / 4) = Fin z" "3 / 4 \<le> z" "z \<le> 5 / 4"
proof -
  obtain a where a: "f64_of_rat (x * 2) = Fin a" "0 \<le> a" "a \<le> 2"
    by (rule f64_of_rat_between[OF f64_quarters(1,3), of "x * 2"]) (use assms in auto)
  obtain b where b: "f64_of_rat (a + - 1) = Fin b" "- 1 \<le> b" "b \<le> 1"
    by (rule f64_of_rat_between[OF f64_quarters(4,2), of "a + - 1"]) (use a in auto)
  obtain c where c: "f64_of_rat (b * (1 / 4)) = Fin c" "- (1 / 4) \<le> c" "c \<le> 1 / 4"
    by (rule f64_of_rat_between[OF f64_quarters(6,5), of "b * (1 / 4)"]) (use b in auto)
  obtain d where d: "f64_of_rat (1 + c) = Fin d" "3 / 4 \<le> d" "d \<le> 5 / 4"
    by (rule f64_of_rat_between[OF f64_quarters(7,8), of "1 + c"]) (use c in auto)
  show ?thesis using that[of d] a(1) b(1) c(1) d by (simp add: minus_f64_def)
qed

lemma nominal_cases:
  obtains "attempt \<le> 0" "nominal attempt = 200000000" | "attempt = 1" "nominal attempt = 400000000"
    | "attempt = 2" "nominal attempt = 800000000" | "attempt = 3" "nominal attempt = 1600000000"
    | "attempt = 4" "nominal attempt = 3200000000" | "attempt = 5" "nominal attempt = 6400000000"
    | "5 < attempt" "nominal attempt = 10000000000"
proof -
  consider "attempt \<le> 0" | "attempt = 1" | "attempt = 2" | "attempt = 3" | "attempt = 4" | "attempt = 5" | "5 < attempt" by linarith
  moreover have "nominal attempt = 10000000000" if "5 < attempt"
    using that by (cases "attempt = 6") (simp_all add: nominal_def Millisecond_def Second_def Let_def)
  ultimately show ?thesis by cases (use that in \<open>simp_all add: nominal_def Millisecond_def Second_def Let_def\<close>)
qed

lemma nominal_between: "200000000 \<le> nominal attempt \<and> nominal attempt \<le> 10000000000 \<and> 4 dvd nominal attempt"
  by (cases attempt rule: nominal_cases) simp_all

lemma nominal_formula:
  "nominal attempt = (if attempt \<le> 0 then 200 * Millisecond else if attempt \<le> 5 then 200 * Millisecond * 2 ^ nat attempt else 10 * Second)"
  by (cases attempt rule: nominal_cases) (simp_all add: Millisecond_def Second_def)

text \<open>C33: The pause before a redial is within a quarter of its nominal length, which doubles from 200 ms with each failed
  attempt and stays at 10 s from the sixth on: for any number in the unit interval the random source returns, no pause is
  shorter than 150 ms or longer than 12.5 s.\<close>

theorem backoff_bounded:
  assumes "0 \<le> x" "x \<le> 1"
  shows "3 * nominal attempt \<le> 4 * defaultBackoff (Fin x) attempt \<and> 4 * defaultBackoff (Fin x) attempt \<le> 5 * nominal attempt \<and>
    (nominal attempt = (if attempt \<le> 0 then 200 * Millisecond else if attempt \<le> 5 then 200 * Millisecond * 2 ^ nat attempt else 10 * Second)) \<and>
    150 * Millisecond \<le> defaultBackoff (Fin x) attempt \<and> defaultBackoff (Fin x) attempt \<le> 12500 * Millisecond"
proof -
  let ?d = "nominal attempt"
  have d: "200000000 \<le> ?d" "?d \<le> 10000000000" "4 dvd ?d" using nominal_between[of attempt] by auto
  then obtain q where q: "?d = 4 * q" by blast
  obtain z where z: "Fin 1 + (Fin x * Fin 2 - Fin 1) * Fin (1 / 4) = Fin z" "3 / 4 \<le> z" "z \<le> 5 / 4"
    by (rule factor_between[OF assms])
  have e: "f64_of_rat (of_int n) = Fin (of_int n)" if "n = 3 * q \<or> n = 5 * q" for n
    using f64_of_int_exact[of n] that q d unfolding f64_of_int_def by fastforce
  have "of_int ?d * (3 / 4) \<le> of_int ?d * z" "of_int ?d * z \<le> of_int ?d * (5 / 4 :: rat)"
    using d z by (auto intro: mult_left_mono)
  then have b: "of_int (3 * q) \<le> of_int ?d * z" "of_int ?d * z \<le> (of_int (5 * q) :: rat)" by (simp_all add: q)
  obtain y where y: "f64_of_rat (of_int ?d * z) = Fin y" "of_int (3 * q) \<le> y" "y \<le> of_int (5 * q)"
    by (rule f64_of_rat_between[OF e e b]) auto
  have "3 * q \<le> \<lfloor>y\<rfloor>" "\<lfloor>y\<rfloor> \<le> 5 * q" "0 \<le> y" using y d q by linarith+
  then have r: "3 * q \<le> defaultBackoff (Fin x) attempt" "defaultBackoff (Fin x) attempt \<le> 5 * q"
    using y(1) z(1) f64_of_int_exact[of ?d] d by (auto simp: defaultBackoff_def trunc_int_def Let_def)
  show ?thesis using r d q nominal_formula[of attempt] by (intro conjI; (assumption | simp add: Millisecond_def))
qed

theorem backoff_bounded_witness: "defaultBackoff (Fin (3 / 4)) 9 = 11250000000 \<and> 4 * defaultBackoff (Fin (3 / 4)) 9 \<le> 50000000000"
proof
  show "defaultBackoff (Fin (3 / 4)) 9 = 11250000000" by code_simp
  show "4 * defaultBackoff (Fin (3 / 4)) 9 \<le> 50000000000"
    using backoff_bounded[of "3 / 4" 9] by (simp add: nominal_formula Second_def Millisecond_def)
qed

end
