(* ===== verification/MavCodec.thy ===== *)
theory MavCodec
  imports Prelude "HOL-Library.Word"
begin

unbundle bit_operations_syntax

text \<open>
  The layout of MAVLink messages, \<open>pkg/mavlink\<close>: a message definition with the offsets its generated codec
  (\<open>dialect.go\<close>) reads and writes, the codec itself, and the checksum of \<open>frame.go\<close>. A value of any primitive type is its
  bits: signed integers are reinterpreted by the generated code, floats go through \<open>Float32bits\<close> and back.
\<close>

section \<open>Definitions of messages\<close>

datatype mav_type = TChar | TUInt8 | TInt8 | TUInt16 | TInt16 | TUInt32 | TInt32 | TUInt64 | TInt64 | TFloat | TDouble

fun type_size :: "mav_type \<Rightarrow> nat" where
  "type_size TChar = 1" | "type_size TUInt8 = 1" | "type_size TInt8 = 1"
| "type_size TUInt16 = 2" | "type_size TInt16 = 2"
| "type_size TUInt32 = 4" | "type_size TInt32 = 4" | "type_size TFloat = 4"
| "type_size TUInt64 = 8" | "type_size TInt64 = 8" | "type_size TDouble = 8"

text \<open>A field: its MAVLink name, type, array length (0 for a scalar) and offset on the wire.\<close>

record field =
  fdName :: string
  fdType :: mav_type
  fdLen :: nat
  fdOff :: nat

definition fd :: "nat \<Rightarrow> string \<Rightarrow> mav_type \<Rightarrow> nat \<Rightarrow> field" where
  "fd off name ty n = \<lparr>fdName = name, fdType = ty, fdLen = n, fdOff = off\<rparr>"

definition elems :: "field \<Rightarrow> nat" where
  "elems f = (if 0 < fdLen f then fdLen f else 1)"

definition wireLen :: "field \<Rightarrow> nat" where
  "wireLen f = (if 0 < fdLen f then fdLen f * type_size (fdType f) else type_size (fdType f))"

record msgdef =
  mdID :: nat
  mdName :: string
  mdCRC :: byte
  mdLen :: nat
  mdBase :: "field list"
  mdExt :: "field list"

definition md :: "nat \<Rightarrow> string \<Rightarrow> byte \<Rightarrow> nat \<Rightarrow> field list \<Rightarrow> field list \<Rightarrow> msgdef" where
  "md i name crc len base ext = \<lparr>mdID = i, mdName = name, mdCRC = crc, mdLen = len, mdBase = base, mdExt = ext\<rparr>"

definition md_fields :: "msgdef \<Rightarrow> field list" where
  "md_fields d = mdBase d @ mdExt d"

section \<open>The generated codec\<close>

fun put_le :: "nat \<Rightarrow> uint64 \<Rightarrow> byte list" where
  "put_le 0 x = []"
| "put_le (Suc k) x = ucast x # put_le k (drop_bit 8 x)"

fun get_le :: "byte list \<Rightarrow> uint64" where
  "get_le [] = 0"
| "get_le (b # bs) = ucast b OR push_bit 8 (get_le bs)"

text \<open>What a message holds: for every field its elements, a single one for a scalar.\<close>

type_synonym vals = "uint64 list list"

definition enc_field :: "field \<Rightarrow> uint64 list \<Rightarrow> byte list" where
  "enc_field f v = concat (map (put_le (type_size (fdType f))) v)"

definition write_at :: "nat \<Rightarrow> byte list \<Rightarrow> byte list \<Rightarrow> byte list" where
  "write_at off bs buf = take off buf @ bs @ drop (off + length bs) buf"

definition Marshal :: "msgdef \<Rightarrow> vals \<Rightarrow> byte list" where
  "Marshal d vs = fold (\<lambda>(f, v). write_at (fdOff f) (enc_field f v)) (zip (md_fields d) vs) (replicate (mdLen d) 0)"

definition get_field :: "byte list \<Rightarrow> field \<Rightarrow> uint64 list" where
  "get_field p f = map (\<lambda>i. get_le (take (type_size (fdType f)) (drop (fdOff f + i * type_size (fdType f)) p))) [0..<elems f]"

definition Unmarshal :: "msgdef \<Rightarrow> byte list \<Rightarrow> vals option" where
  "Unmarshal d p = (if length p < mdLen d then None else Some (map (get_field p) (md_fields d)))"

section \<open>The checksum\<close>

definition crcInit :: "16 word" where "crcInit = 0xFFFF"

definition crcAccumulate :: "16 word \<Rightarrow> byte \<Rightarrow> 16 word" where
  "crcAccumulate crc b =
     (let tmp = b XOR ucast crc;
          tmp = tmp XOR push_bit 4 tmp
      in drop_bit 8 crc XOR push_bit 8 (ucast tmp) XOR push_bit 3 (ucast tmp) XOR drop_bit 4 (ucast tmp))"

definition frameCRC :: "byte list \<Rightarrow> byte \<Rightarrow> 16 word" where
  "frameCRC body crcExtra = crcAccumulate (fold (\<lambda>b crc. crcAccumulate crc b) body crcInit) crcExtra"

section \<open>Facts about the codec\<close>

lemma length_put_le [simp]: "length (put_le k x) = k"
  by (induction k arbitrary: x) simp_all

lemma bit_get_le: "bit (get_le bs) n \<longleftrightarrow> n < 64 \<and> n div 8 < length bs \<and> bit (bs ! (n div 8)) (n mod 8)"
proof (induction bs arbitrary: n)
  case (Cons b bs)
  show ?case
  proof (cases "n < 8")
    case True
    then show ?thesis by (auto simp: bit_simps)
  next
    case False
    then obtain m where m: "n = m + 8" by (metis add.commute le_Suc_ex not_less)
    then have "\<not> bit b n" using bit_imp_le_length[of b n] by auto
    then show ?thesis using m Cons[of m] by (auto simp: bit_simps)
  qed
qed simp

lemma nth_put_le: "i < k \<Longrightarrow> put_le k x ! i = ucast (drop_bit (8 * i) x)"
proof (induction k arbitrary: x i)
  case (Suc k)
  then show ?case by (cases i) (simp_all add: drop_bit_drop_bit add.commute)
qed simp

lemma put_get_le:
  assumes "length bs = k" "k \<le> 8"
  shows "put_le k (get_le bs) = bs"
proof (rule nth_equalityI)
  fix i assume "i < length (put_le k (get_le bs))"
  then have i: "i < k" by simp
  show "put_le k (get_le bs) ! i = bs ! i"
  proof (rule bit_word_eqI)
    fix j :: nat assume "j < LENGTH(8)"
    then have j: "j < 8" by simp
    then have "(8 * i + j) div 8 = i" "(8 * i + j) mod 8 = j" "8 * i + j < 64" using i assms(2) by auto
    then show "bit (put_le k (get_le bs) ! i) j = bit (bs ! i) j"
      using i j assms(1) by (simp add: nth_put_le bit_simps bit_get_le)
  qed
qed (simp add: assms)

lemma get_put_le: "k \<le> 8 \<Longrightarrow> get_le (put_le k x) = take_bit (8 * k) x"
proof (rule bit_word_eqI)
  fix n :: nat assume "k \<le> 8" "n < LENGTH(64)"
  moreover have "8 * (n div 8) + n mod 8 = n" "n mod 8 < 8" "n div 8 < k \<longleftrightarrow> n < 8 * k" by (auto simp: div_less_iff_less_mult mult.commute)
  ultimately show "bit (get_le (put_le k x)) n = bit (take_bit (8 * k) x) n"
    by (auto simp: bit_get_le nth_put_le bit_simps)
qed

lemma size_le_8: "0 < type_size ty \<and> type_size ty \<le> 8"
  by (cases ty) simp_all

lemma wireLen_elems: "wireLen f = elems f * type_size (fdType f)"
  by (simp add: wireLen_def elems_def)

section \<open>Well-formed layouts\<close>

text \<open>The offsets tile the payload: every byte belongs to one field.\<close>

fun tiles :: "nat \<Rightarrow> field list \<Rightarrow> nat \<Rightarrow> bool" where
  "tiles off [] len \<longleftrightarrow> off = len"
| "tiles off (f # fs) len \<longleftrightarrow> fdOff f = off \<and> tiles (off + wireLen f) fs len"

definition laid_out :: "msgdef \<Rightarrow> bool" where
  "laid_out d \<longleftrightarrow> tiles 0 (md_fields d) (mdLen d) \<and> mdLen d \<le> 255"

text \<open>The values of a field have its length and its width.\<close>

definition typed_field :: "field \<Rightarrow> uint64 list \<Rightarrow> bool" where
  "typed_field f v \<longleftrightarrow> length v = elems f \<and> list_all (\<lambda>x. take_bit (8 * type_size (fdType f)) x = x) v"

definition typed :: "msgdef \<Rightarrow> vals \<Rightarrow> bool" where
  "typed d vs \<longleftrightarrow> list_all2 typed_field (md_fields d) vs"

lemma length_concat_put_le: "length (concat (map (put_le k) v)) = length v * k"
  by (induction v) simp_all

lemma length_enc_field: "length v = elems f \<Longrightarrow> length (enc_field f v) = wireLen f"
  by (simp add: enc_field_def length_concat_put_le wireLen_elems)

lemma tiles_le: "tiles off fs len \<Longrightarrow> off \<le> len"
  by (induction fs arbitrary: off) (auto dest!: add_leD1)

text \<open>Writing the fields in order over the zeroed buffer is writing them one after the other.\<close>

lemma marshal_appends:
  assumes "tiles (length pre) fs len" "list_all2 (\<lambda>f v. length v = elems f) fs vs"
  shows "fold (\<lambda>(f, v). write_at (fdOff f) (enc_field f v)) (zip fs vs) (pre @ replicate (len - length pre) 0) =
    pre @ concat (map (\<lambda>(f, v). enc_field f v) (zip fs vs))"
  using assms
proof (induction fs arbitrary: pre vs)
  case (Cons f fs)
  then obtain v vs' where v: "vs = v # vs'" "length v = elems f" "list_all2 (\<lambda>f v. length v = elems f) fs vs'"
    by (auto simp: list_all2_Cons1)
  let ?pre = "pre @ enc_field f v"
  have l: "length ?pre = length pre + wireLen f" using length_enc_field[OF v(2)] by simp
  have t: "tiles (length ?pre) fs len" "fdOff f = length pre" using Cons.prems(1) l by simp_all
  have "write_at (fdOff f) (enc_field f v) (pre @ replicate (len - length pre) 0) = ?pre @ replicate (len - length ?pre) 0"
    using tiles_le[OF t(1)] t(2) by (simp add: write_at_def)
  then show ?case using Cons.IH[OF t(1) v(3)] v(1) by simp
qed simp

lemma typed_lengths: "list_all2 typed_field fs vs \<Longrightarrow> list_all2 (\<lambda>f v. length v = elems f) fs vs"
  by (erule list_all2_mono) (simp add: typed_field_def)

lemma Marshal_concat:
  assumes "laid_out d" "typed d vs"
  shows "Marshal d vs = concat (map (\<lambda>(f, v). enc_field f v) (zip (md_fields d) vs))"
  using marshal_appends[of "[]" "md_fields d" "mdLen d" vs] assms typed_lengths
  by (simp add: Marshal_def laid_out_def typed_def)

section \<open>Round trips\<close>

lemma take_nth_chunk: "i < length v \<Longrightarrow> take k (drop (i * k) (concat (map (put_le k) v) @ r)) = put_le k (v ! i)"
proof (induction v arbitrary: i)
  case (Cons x v)
  then show ?case by (cases i) simp_all
qed simp

lemma get_enc_field:
  assumes "typed_field f v" "fdOff f = length pre"
  shows "get_field (pre @ enc_field f v @ r) f = v"
proof (rule nth_equalityI)
  show "length (get_field (pre @ enc_field f v @ r) f) = length v" using assms(1) by (simp add: get_field_def typed_field_def)
next
  let ?k = "type_size (fdType f)"
  fix i assume "i < length (get_field (pre @ enc_field f v @ r) f)"
  then have i: "i < length v" "i < elems f" using assms(1) by (simp_all add: get_field_def typed_field_def)
  have "drop (fdOff f + i * ?k) (pre @ enc_field f v @ r) = drop (i * ?k) (enc_field f v @ r)" using assms(2) by simp
  then have "take ?k (drop (fdOff f + i * ?k) (pre @ enc_field f v @ r)) = put_le ?k (v ! i)"
    unfolding enc_field_def by (simp only: take_nth_chunk[OF i(1)])
  then have "get_field (pre @ enc_field f v @ r) f ! i = get_le (put_le ?k (v ! i))"
    unfolding get_field_def using i by (simp del: drop_append take_append)
  also have "\<dots> = v ! i" using i(1) assms(1) size_le_8[of "fdType f"] by (simp add: get_put_le typed_field_def list_all_length)
  finally show "get_field (pre @ enc_field f v @ r) f ! i = v ! i" .
qed

lemma get_enc_fields:
  assumes "tiles (length pre) fs len" "list_all2 typed_field fs vs"
  shows "map (get_field (pre @ concat (map (\<lambda>(f, v). enc_field f v) (zip fs vs)) @ r)) fs = vs"
  using assms
proof (induction fs arbitrary: pre vs)
  case (Cons f fs)
  then obtain v vs' where v: "vs = v # vs'" "typed_field f v" "list_all2 typed_field fs vs'"
    by (auto simp: list_all2_Cons1)
  have l: "length (pre @ enc_field f v) = length pre + wireLen f"
    using length_enc_field[of v f] v(2) by (simp add: typed_field_def)
  have "tiles (length (pre @ enc_field f v)) fs len" "fdOff f = length pre" using Cons.prems(1) l by simp_all
  from Cons.IH[OF this(1) v(3)] get_enc_field[OF v(2) this(2)] show ?case using v(1) by simp
qed simp

lemma length_Marshal:
  assumes "laid_out d" "typed d vs"
  shows "length (Marshal d vs) = mdLen d"
proof -
  have "length pre + length (concat (map (\<lambda>(f, v). enc_field f v) (zip fs vs))) = len"
    if "tiles (length pre) fs len" "list_all2 typed_field fs vs" for pre :: "byte list" and fs len vs
    using that
  proof (induction fs arbitrary: pre vs)
    case (Cons f fs)
    then obtain v vs' where v: "vs = v # vs'" "typed_field f v" "list_all2 typed_field fs vs'"
      by (auto simp: list_all2_Cons1)
    have l: "length (pre @ enc_field f v) = length pre + wireLen f"
      using length_enc_field[of v f] v(2) by (simp add: typed_field_def)
    then show ?case using Cons.IH[of "pre @ enc_field f v" vs'] Cons.prems(1) v by simp
  qed simp
  from this[of "[]"] show ?thesis using assms by (simp add: Marshal_concat[OF assms] laid_out_def typed_def)
qed

lemma Unmarshal_Marshal:
  assumes "laid_out d" "typed d vs"
  shows "Unmarshal d (Marshal d vs @ r) = Some vs"
  using get_enc_fields[of "[]" "md_fields d" "mdLen d" vs r] length_Marshal[OF assms] assms
  by (simp add: Unmarshal_def Marshal_concat laid_out_def typed_def)

lemma concat_chunks: "off + n * k \<le> length p \<Longrightarrow> concat (map (\<lambda>i. take k (drop (off + i * k) p)) [0..<n]) = take (n * k) (drop off p)"
proof (induction n)
  case (Suc n)
  then have "concat (map (\<lambda>i. take k (drop (off + i * k) p)) [0..<n]) = take (n * k) (drop off p)" by simp
  moreover have "take (Suc n * k) (drop off p) = take (n * k) (drop off p) @ take k (drop (off + n * k) p)"
    using take_add[of "n * k" k "drop off p"] by (simp add: add.commute)
  ultimately show ?case by simp
qed simp

lemma get_field_typed:
  assumes "fdOff f + wireLen f \<le> length p"
  shows "typed_field f (get_field p f)" "enc_field f (get_field p f) = take (wireLen f) (drop (fdOff f) p)"
proof -
  let ?k = "type_size (fdType f)"
  have chunk: "length (take ?k (drop (fdOff f + i * ?k) p)) = ?k" if "i < elems f" for i
  proof -
    have "i * ?k + ?k \<le> elems f * ?k" using that by (metis Suc_leI add.commute mult_Suc mult_le_mono1)
    then show ?thesis using assms by (simp add: wireLen_elems)
  qed
  have put: "put_le ?k (get_le (take ?k (drop (fdOff f + i * ?k) p))) = take ?k (drop (fdOff f + i * ?k) p)" if "i < elems f" for i
    by (rule put_get_le[OF chunk[OF that]]) (use size_le_8 in blast)
  have "take_bit (8 * ?k) (get_le (take ?k (drop (fdOff f + i * ?k) p))) = get_le (take ?k (drop (fdOff f + i * ?k) p))" if "i < elems f" for i
    using get_put_le[of ?k "get_le (take ?k (drop (fdOff f + i * ?k) p))"] put[OF that] size_le_8[of "fdType f"] by metis
  then show "typed_field f (get_field p f)" by (simp add: typed_field_def get_field_def list_all_iff)
  have "enc_field f (get_field p f) = concat (map (\<lambda>i. take ?k (drop (fdOff f + i * ?k) p)) [0..<elems f])"
    unfolding enc_field_def get_field_def map_map comp_def by (intro arg_cong[of _ _ concat] map_cong[OF refl]) (use put in simp)
  also have "\<dots> = take (wireLen f) (drop (fdOff f) p)"
    using concat_chunks[of "fdOff f" "elems f" ?k p] assms by (simp add: wireLen_elems)
  finally show "enc_field f (get_field p f) = take (wireLen f) (drop (fdOff f) p)" .
qed

lemma get_fields_typed:
  assumes "tiles off fs len" "len \<le> length p"
  shows "list_all2 typed_field fs (map (get_field p) fs) \<and>
    concat (map (\<lambda>(f, v). enc_field f v) (zip fs (map (get_field p) fs))) = take (len - off) (drop off p)"
  using assms(1)
proof (induction fs arbitrary: off)
  case (Cons f fs)
  then have t: "tiles (off + wireLen f) fs len" "fdOff f = off" by simp_all
  have l: "fdOff f + wireLen f \<le> length p" using tiles_le[OF t(1)] assms(2) t(2) by simp
  have "len - off = wireLen f + (len - (off + wireLen f))" using tiles_le[OF t(1)] by simp
  then have "take (len - off) (drop off p) = take (wireLen f) (drop off p) @ take (len - (off + wireLen f)) (drop (off + wireLen f) p)"
    by (metis add.commute drop_drop take_add)
  then show ?case using Cons.IH[OF t(1)] get_field_typed[OF l] t(2) by simp
qed simp

lemma Marshal_Unmarshal:
  assumes "laid_out d" "Unmarshal d p = Some vs"
  shows "typed d vs" "Marshal d vs = take (mdLen d) p"
proof -
  have v: "vs = map (get_field p) (md_fields d)" "mdLen d \<le> length p"
    using assms(2) by (auto simp: Unmarshal_def split: if_splits)
  from get_fields_typed[of 0 "md_fields d" "mdLen d" p] assms(1) v
  show t: "typed d vs" and "Marshal d vs = take (mdLen d) p"
    by (simp_all add: Marshal_concat[OF assms(1)] typed_def laid_out_def)
qed

end
