(* ===== verification/MavDialect.thy ===== *)
theory MavDialect
  imports MavCodec
begin

text \<open>
  The messages of \<open>dialect.go\<close>: identifier, name, CRC_EXTRA byte, full payload length, and the base and extension fields at
  the offsets its Marshal and Unmarshal use. The struct fields keep their MAVLink names.
\<close>

definition mav_Heartbeat :: msgdef where
  "mav_Heartbeat = md 0 ''HEARTBEAT'' 50 9
     [fd 0 ''custom_mode'' TUInt32 0, fd 4 ''type'' TUInt8 0, fd 5 ''autopilot'' TUInt8 0,
      fd 6 ''base_mode'' TUInt8 0, fd 7 ''system_status'' TUInt8 0, fd 8 ''mavlink_version'' TUInt8 0]
     []"

definition mav_SysStatus :: msgdef where
  "mav_SysStatus = md 1 ''SYS_STATUS'' 124 43
     [fd 0 ''onboard_control_sensors_present'' TUInt32 0, fd 4 ''onboard_control_sensors_enabled'' TUInt32 0, fd 8 ''onboard_control_sensors_health'' TUInt32 0,
      fd 12 ''load'' TUInt16 0, fd 14 ''voltage_battery'' TUInt16 0, fd 16 ''current_battery'' TInt16 0,
      fd 18 ''drop_rate_comm'' TUInt16 0, fd 20 ''errors_comm'' TUInt16 0, fd 22 ''errors_count1'' TUInt16 0,
      fd 24 ''errors_count2'' TUInt16 0, fd 26 ''errors_count3'' TUInt16 0, fd 28 ''errors_count4'' TUInt16 0,
      fd 30 ''battery_remaining'' TInt8 0]
     [fd 31 ''onboard_control_sensors_present_extended'' TUInt32 0, fd 35 ''onboard_control_sensors_enabled_extended'' TUInt32 0, fd 39 ''onboard_control_sensors_health_extended'' TUInt32 0]"

definition mav_ParamRequestRead :: msgdef where
  "mav_ParamRequestRead = md 20 ''PARAM_REQUEST_READ'' 214 20
     [fd 0 ''param_index'' TInt16 0, fd 2 ''target_system'' TUInt8 0, fd 3 ''target_component'' TUInt8 0,
      fd 4 ''param_id'' TChar 16]
     []"

definition mav_ParamRequestList :: msgdef where
  "mav_ParamRequestList = md 21 ''PARAM_REQUEST_LIST'' 159 2
     [fd 0 ''target_system'' TUInt8 0, fd 1 ''target_component'' TUInt8 0]
     []"

definition mav_ParamValue :: msgdef where
  "mav_ParamValue = md 22 ''PARAM_VALUE'' 220 25
     [fd 0 ''param_value'' TFloat 0, fd 4 ''param_count'' TUInt16 0, fd 6 ''param_index'' TUInt16 0,
      fd 8 ''param_id'' TChar 16, fd 24 ''param_type'' TUInt8 0]
     []"

definition mav_GPSRawInt :: msgdef where
  "mav_GPSRawInt = md 24 ''GPS_RAW_INT'' 24 52
     [fd 0 ''time_usec'' TUInt64 0, fd 8 ''lat'' TInt32 0, fd 12 ''lon'' TInt32 0,
      fd 16 ''alt'' TInt32 0, fd 20 ''eph'' TUInt16 0, fd 22 ''epv'' TUInt16 0,
      fd 24 ''vel'' TUInt16 0, fd 26 ''cog'' TUInt16 0, fd 28 ''fix_type'' TUInt8 0,
      fd 29 ''satellites_visible'' TUInt8 0]
     [fd 30 ''alt_ellipsoid'' TInt32 0, fd 34 ''h_acc'' TUInt32 0, fd 38 ''v_acc'' TUInt32 0,
      fd 42 ''vel_acc'' TUInt32 0, fd 46 ''hdg_acc'' TUInt32 0, fd 50 ''yaw'' TUInt16 0]"

definition mav_Attitude :: msgdef where
  "mav_Attitude = md 30 ''ATTITUDE'' 39 28
     [fd 0 ''time_boot_ms'' TUInt32 0, fd 4 ''roll'' TFloat 0, fd 8 ''pitch'' TFloat 0,
      fd 12 ''yaw'' TFloat 0, fd 16 ''rollspeed'' TFloat 0, fd 20 ''pitchspeed'' TFloat 0,
      fd 24 ''yawspeed'' TFloat 0]
     []"

definition mav_GlobalPositionInt :: msgdef where
  "mav_GlobalPositionInt = md 33 ''GLOBAL_POSITION_INT'' 104 28
     [fd 0 ''time_boot_ms'' TUInt32 0, fd 4 ''lat'' TInt32 0, fd 8 ''lon'' TInt32 0,
      fd 12 ''alt'' TInt32 0, fd 16 ''relative_alt'' TInt32 0, fd 20 ''vx'' TInt16 0,
      fd 22 ''vy'' TInt16 0, fd 24 ''vz'' TInt16 0, fd 26 ''hdg'' TUInt16 0]
     []"

definition mav_MissionItem :: msgdef where
  "mav_MissionItem = md 39 ''MISSION_ITEM'' 254 38
     [fd 0 ''param1'' TFloat 0, fd 4 ''param2'' TFloat 0, fd 8 ''param3'' TFloat 0,
      fd 12 ''param4'' TFloat 0, fd 16 ''x'' TFloat 0, fd 20 ''y'' TFloat 0,
      fd 24 ''z'' TFloat 0, fd 28 ''seq'' TUInt16 0, fd 30 ''command'' TUInt16 0,
      fd 32 ''target_system'' TUInt8 0, fd 33 ''target_component'' TUInt8 0, fd 34 ''frame'' TUInt8 0,
      fd 35 ''current'' TUInt8 0, fd 36 ''autocontinue'' TUInt8 0]
     [fd 37 ''mission_type'' TUInt8 0]"

definition mav_MissionRequest :: msgdef where
  "mav_MissionRequest = md 40 ''MISSION_REQUEST'' 230 5
     [fd 0 ''seq'' TUInt16 0, fd 2 ''target_system'' TUInt8 0, fd 3 ''target_component'' TUInt8 0]
     [fd 4 ''mission_type'' TUInt8 0]"

definition mav_MissionSetCurrent :: msgdef where
  "mav_MissionSetCurrent = md 41 ''MISSION_SET_CURRENT'' 28 4
     [fd 0 ''seq'' TUInt16 0, fd 2 ''target_system'' TUInt8 0, fd 3 ''target_component'' TUInt8 0]
     []"

definition mav_MissionCurrent :: msgdef where
  "mav_MissionCurrent = md 42 ''MISSION_CURRENT'' 28 18
     [fd 0 ''seq'' TUInt16 0]
     [fd 2 ''total'' TUInt16 0, fd 4 ''mission_state'' TUInt8 0, fd 5 ''mission_mode'' TUInt8 0,
      fd 6 ''mission_id'' TUInt32 0, fd 10 ''fence_id'' TUInt32 0, fd 14 ''rally_points_id'' TUInt32 0]"

definition mav_MissionRequestList :: msgdef where
  "mav_MissionRequestList = md 43 ''MISSION_REQUEST_LIST'' 132 3
     [fd 0 ''target_system'' TUInt8 0, fd 1 ''target_component'' TUInt8 0]
     [fd 2 ''mission_type'' TUInt8 0]"

definition mav_MissionCount :: msgdef where
  "mav_MissionCount = md 44 ''MISSION_COUNT'' 221 9
     [fd 0 ''count'' TUInt16 0, fd 2 ''target_system'' TUInt8 0, fd 3 ''target_component'' TUInt8 0]
     [fd 4 ''mission_type'' TUInt8 0, fd 5 ''opaque_id'' TUInt32 0]"

definition mav_MissionClearAll :: msgdef where
  "mav_MissionClearAll = md 45 ''MISSION_CLEAR_ALL'' 232 3
     [fd 0 ''target_system'' TUInt8 0, fd 1 ''target_component'' TUInt8 0]
     [fd 2 ''mission_type'' TUInt8 0]"

definition mav_MissionItemReached :: msgdef where
  "mav_MissionItemReached = md 46 ''MISSION_ITEM_REACHED'' 11 2
     [fd 0 ''seq'' TUInt16 0]
     []"

definition mav_MissionAck :: msgdef where
  "mav_MissionAck = md 47 ''MISSION_ACK'' 153 8
     [fd 0 ''target_system'' TUInt8 0, fd 1 ''target_component'' TUInt8 0, fd 2 ''type'' TUInt8 0]
     [fd 3 ''mission_type'' TUInt8 0, fd 4 ''opaque_id'' TUInt32 0]"

definition mav_GPSGlobalOrigin :: msgdef where
  "mav_GPSGlobalOrigin = md 49 ''GPS_GLOBAL_ORIGIN'' 39 20
     [fd 0 ''latitude'' TInt32 0, fd 4 ''longitude'' TInt32 0, fd 8 ''altitude'' TInt32 0]
     [fd 12 ''time_usec'' TUInt64 0]"

definition mav_MissionRequestInt :: msgdef where
  "mav_MissionRequestInt = md 51 ''MISSION_REQUEST_INT'' 196 5
     [fd 0 ''seq'' TUInt16 0, fd 2 ''target_system'' TUInt8 0, fd 3 ''target_component'' TUInt8 0]
     [fd 4 ''mission_type'' TUInt8 0]"

definition mav_MissionItemInt :: msgdef where
  "mav_MissionItemInt = md 73 ''MISSION_ITEM_INT'' 38 38
     [fd 0 ''param1'' TFloat 0, fd 4 ''param2'' TFloat 0, fd 8 ''param3'' TFloat 0,
      fd 12 ''param4'' TFloat 0, fd 16 ''x'' TInt32 0, fd 20 ''y'' TInt32 0,
      fd 24 ''z'' TFloat 0, fd 28 ''seq'' TUInt16 0, fd 30 ''command'' TUInt16 0,
      fd 32 ''target_system'' TUInt8 0, fd 33 ''target_component'' TUInt8 0, fd 34 ''frame'' TUInt8 0,
      fd 35 ''current'' TUInt8 0, fd 36 ''autocontinue'' TUInt8 0]
     [fd 37 ''mission_type'' TUInt8 0]"

definition mav_VfrHud :: msgdef where
  "mav_VfrHud = md 74 ''VFR_HUD'' 20 20
     [fd 0 ''airspeed'' TFloat 0, fd 4 ''groundspeed'' TFloat 0, fd 8 ''alt'' TFloat 0,
      fd 12 ''climb'' TFloat 0, fd 16 ''heading'' TInt16 0, fd 18 ''throttle'' TUInt16 0]
     []"

definition mav_CommandLong :: msgdef where
  "mav_CommandLong = md 76 ''COMMAND_LONG'' 152 33
     [fd 0 ''param1'' TFloat 0, fd 4 ''param2'' TFloat 0, fd 8 ''param3'' TFloat 0,
      fd 12 ''param4'' TFloat 0, fd 16 ''param5'' TFloat 0, fd 20 ''param6'' TFloat 0,
      fd 24 ''param7'' TFloat 0, fd 28 ''command'' TUInt16 0, fd 30 ''target_system'' TUInt8 0,
      fd 31 ''target_component'' TUInt8 0, fd 32 ''confirmation'' TUInt8 0]
     []"

definition mav_CommandAck :: msgdef where
  "mav_CommandAck = md 77 ''COMMAND_ACK'' 143 10
     [fd 0 ''command'' TUInt16 0, fd 2 ''result'' TUInt8 0]
     [fd 3 ''progress'' TUInt8 0, fd 4 ''result_param2'' TInt32 0, fd 8 ''target_system'' TUInt8 0,
      fd 9 ''target_component'' TUInt8 0]"

definition mav_BatteryStatus :: msgdef where
  "mav_BatteryStatus = md 147 ''BATTERY_STATUS'' 154 54
     [fd 0 ''current_consumed'' TInt32 0, fd 4 ''energy_consumed'' TInt32 0, fd 8 ''temperature'' TInt16 0,
      fd 10 ''voltages'' TUInt16 10, fd 30 ''current_battery'' TInt16 0, fd 32 ''id'' TUInt8 0,
      fd 33 ''battery_function'' TUInt8 0, fd 34 ''type'' TUInt8 0, fd 35 ''battery_remaining'' TInt8 0]
     [fd 36 ''time_remaining'' TInt32 0, fd 40 ''charge_state'' TUInt8 0, fd 41 ''voltages_ext'' TUInt16 4,
      fd 49 ''mode'' TUInt8 0, fd 50 ''fault_bitmask'' TUInt32 0]"

definition mav_AutopilotVersion :: msgdef where
  "mav_AutopilotVersion = md 148 ''AUTOPILOT_VERSION'' 178 78
     [fd 0 ''capabilities'' TUInt64 0, fd 8 ''uid'' TUInt64 0, fd 16 ''flight_sw_version'' TUInt32 0,
      fd 20 ''middleware_sw_version'' TUInt32 0, fd 24 ''os_sw_version'' TUInt32 0, fd 28 ''board_version'' TUInt32 0,
      fd 32 ''vendor_id'' TUInt16 0, fd 34 ''product_id'' TUInt16 0, fd 36 ''flight_custom_version'' TUInt8 8,
      fd 44 ''middleware_custom_version'' TUInt8 8, fd 52 ''os_custom_version'' TUInt8 8]
     [fd 60 ''uid2'' TUInt8 18]"

definition mav_HomePosition :: msgdef where
  "mav_HomePosition = md 242 ''HOME_POSITION'' 104 60
     [fd 0 ''latitude'' TInt32 0, fd 4 ''longitude'' TInt32 0, fd 8 ''altitude'' TInt32 0,
      fd 12 ''x'' TFloat 0, fd 16 ''y'' TFloat 0, fd 20 ''z'' TFloat 0,
      fd 24 ''q'' TFloat 4, fd 40 ''approach_x'' TFloat 0, fd 44 ''approach_y'' TFloat 0,
      fd 48 ''approach_z'' TFloat 0]
     [fd 52 ''time_usec'' TUInt64 0]"

definition mav_ExtendedSysState :: msgdef where
  "mav_ExtendedSysState = md 245 ''EXTENDED_SYS_STATE'' 130 2
     [fd 0 ''vtol_state'' TUInt8 0, fd 1 ''landed_state'' TUInt8 0]
     []"

definition mav_Statustext :: msgdef where
  "mav_Statustext = md 253 ''STATUSTEXT'' 83 54
     [fd 0 ''severity'' TUInt8 0, fd 1 ''text'' TChar 50]
     [fd 51 ''id'' TUInt16 0, fd 53 ''chunk_seq'' TUInt8 0]"

definition dialect :: "msgdef list" where
  "dialect = [mav_Heartbeat, mav_SysStatus, mav_ParamRequestRead, mav_ParamRequestList, mav_ParamValue, mav_GPSRawInt, mav_Attitude,
     mav_GlobalPositionInt, mav_MissionItem, mav_MissionRequest, mav_MissionSetCurrent, mav_MissionCurrent, mav_MissionRequestList, mav_MissionCount,
     mav_MissionClearAll, mav_MissionItemReached, mav_MissionAck, mav_GPSGlobalOrigin, mav_MissionRequestInt, mav_MissionItemInt, mav_VfrHud,
     mav_CommandLong, mav_CommandAck, mav_BatteryStatus, mav_AutopilotVersion, mav_HomePosition, mav_ExtendedSysState, mav_Statustext]"

lemmas dialect_defs = mav_Heartbeat_def mav_SysStatus_def mav_ParamRequestRead_def mav_ParamRequestList_def mav_ParamValue_def mav_GPSRawInt_def
  mav_Attitude_def mav_GlobalPositionInt_def mav_MissionItem_def mav_MissionRequest_def mav_MissionSetCurrent_def mav_MissionCurrent_def
  mav_MissionRequestList_def mav_MissionCount_def mav_MissionClearAll_def mav_MissionItemReached_def mav_MissionAck_def mav_GPSGlobalOrigin_def
  mav_MissionRequestInt_def mav_MissionItemInt_def mav_VfrHud_def mav_CommandLong_def mav_CommandAck_def mav_BatteryStatus_def
  mav_AutopilotVersion_def mav_HomePosition_def mav_ExtendedSysState_def mav_Statustext_def

text \<open>The factory: the definition of a message identifier, if this build knows it.\<close>

definition NewMessage :: "nat \<Rightarrow> msgdef option" where
  "NewMessage i = find (\<lambda>d. mdID d = i) dialect"

definition Known :: "nat \<Rightarrow> bool" where
  "Known i = (NewMessage i \<noteq> None)"

section \<open>The layouts\<close>

lemma dialect_laid_out: "list_all laid_out dialect"
  by (simp add: dialect_def dialect_defs laid_out_def md_fields_def md_def fd_def wireLen_def)

lemma dialect_distinct: "distinct (map mdID dialect)"
  by (simp add: dialect_def dialect_defs md_def)

lemma dialect_small: "list_all (\<lambda>d. mdID d < 2 ^ 24) dialect"
  by (simp add: dialect_def dialect_defs md_def)

lemma NewMessage_Some: "NewMessage i = Some d \<longleftrightarrow> d \<in> set dialect \<and> mdID d = i"
proof
  assume "NewMessage i = Some d"
  then show "d \<in> set dialect \<and> mdID d = i" by (auto simp: NewMessage_def find_Some_iff in_set_conv_nth)
next
  assume d: "d \<in> set dialect \<and> mdID d = i"
  then obtain e where "NewMessage i = Some e" unfolding NewMessage_def by (cases "find (\<lambda>d. mdID d = i) dialect") (auto simp: find_None_iff)
  moreover from this have "e \<in> set dialect" "mdID e = i" by (auto simp: NewMessage_def find_Some_iff in_set_conv_nth)
  ultimately show "NewMessage i = Some d" using d dialect_distinct by (auto simp: distinct_map inj_on_def)
qed

text \<open>C39: The generated codec loses nothing. For every message of the dialect, marshalling well-typed field values writes exactly the
  payload length and unmarshalling them (even with bytes of a newer peer behind them) gives the same values back; and whatever
  payload is long enough unmarshals to well-typed values that marshal to the payload's bytes again.\<close>

theorem messages_roundtrip:
  assumes "NewMessage i = Some d"
  shows "(typed d vs \<longrightarrow> length (Marshal d vs) = mdLen d \<and> Unmarshal d (Marshal d vs @ excess) = Some vs) \<and>
    (mdLen d \<le> length p \<longrightarrow> (\<exists>us. Unmarshal d p = Some us \<and> typed d us \<and> Marshal d us = take (mdLen d) p))"
proof -
  have d: "laid_out d" using assms dialect_laid_out by (auto simp: NewMessage_Some list_all_iff)
  have "\<exists>us. Unmarshal d p = Some us \<and> typed d us \<and> Marshal d us = take (mdLen d) p" if "mdLen d \<le> length p"
    using Marshal_Unmarshal[OF d, of p] that by (simp add: Unmarshal_def)
  then show ?thesis using length_Marshal[OF d] Unmarshal_Marshal[OF d] by blast
qed

theorem messages_roundtrip_witness:
  "\<exists>d. NewMessage 77 = Some d \<and> Unmarshal d (Marshal d [[400], [3], [7], [0xFFFFFFFF], [255], [190]]) =
     Some [[400], [3], [7], [0xFFFFFFFF], [255], [190]]"
proof -
  have n: "NewMessage 77 = Some mav_CommandAck" by (simp add: NewMessage_def dialect_def dialect_defs md_def)
  have "typed mav_CommandAck [[400], [3], [7], [0xFFFFFFFF], [255], [190]]"
    by (simp add: typed_def md_fields_def mav_CommandAck_def md_def fd_def typed_field_def elems_def take_bit_word_eq_self)
  then show ?thesis
    using messages_roundtrip[OF n, of "[[400], [3], [7], [0xFFFFFFFF], [255], [190]]" "[]" "[]"] n by auto
qed

end
