(* ===== verification/MavCrc.thy ===== *)
theory MavCrc
  imports MavCodec
begin

definition char_byte :: "char \<Rightarrow> byte" where
  "char_byte c = word_of_nat (of_char c)"

definition crcString :: "16 word \<Rightarrow> string \<Rightarrow> 16 word" where
  "crcString crc s = fold (\<lambda>c crc. crcAccumulate crc (char_byte c)) s crc"

definition bits16 :: "bool list \<Rightarrow> 16 word" where
  "bits16 bs = horner_sum of_bool 2 bs"

definition bits8 :: "bool list \<Rightarrow> byte" where
  "bits8 bs = horner_sum of_bool 2 bs"

lemma char_byte_Char: "char_byte (Char b0 b1 b2 b3 b4 b5 b6 b7) = bits8 [b0, b1, b2, b3, b4, b5, b6, b7]"
  by (simp add: char_byte_def bits8_def of_char_Char of_bool_def)

lemma bit_bits: "bit (bits16 bs) n \<longleftrightarrow> n < 16 \<and> n < length bs \<and> bs ! n" "bit (bits8 bs) n \<longleftrightarrow> n < 8 \<and> n < length bs \<and> bs ! n"
  by (auto simp: bits16_def bits8_def bit_horner_sum_bit_word_iff)

definition crc_step :: "bool list \<Rightarrow> bool list \<Rightarrow> bool list" where
  "crc_step c b =
     (let x = map2 (\<noteq>) b (take 8 c); t = take 4 x @ map2 (\<noteq>) (drop 4 x) (take 4 x);
          u = drop 8 c @ t; v = [False, False, False] @ t @ [False, False, False, False, False]; w = drop 4 t @ [False, False, False, False, False, False, False, False, False, False, False, False]
      in map2 (\<noteq>) (map2 (\<noteq>) u v) w)"

definition crc_x :: "16 word \<Rightarrow> byte \<Rightarrow> nat \<Rightarrow> bool" where
  "crc_x crc b m \<longleftrightarrow> m < 8 \<and> bit b m \<noteq> bit crc m"

definition crc_t :: "16 word \<Rightarrow> byte \<Rightarrow> nat \<Rightarrow> bool" where
  "crc_t crc b m \<longleftrightarrow> crc_x crc b m \<noteq> (4 \<le> m \<and> m < 8 \<and> crc_x crc b (m - 4))"

lemma bit_crcAccumulate:
  "bit (crcAccumulate crc b) n \<longleftrightarrow> n < 16 \<and>
     (((bit crc (8 + n) \<noteq> (8 \<le> n \<and> crc_t crc b (n - 8))) \<noteq> (3 \<le> n \<and> crc_t crc b (n - 3))) \<noteq> crc_t crc b (4 + n))"
proof -
  define tmp where "tmp = (b XOR ucast crc) XOR push_bit 4 (b XOR ucast crc)"
  have x: "bit (b XOR ucast crc) m = crc_x crc b m" for m
    using bit_imp_le_length[of b m] by (cases "m < 8") (auto simp: crc_x_def bit_simps)
  have t: "bit tmp m = crc_t crc b m" for m
    unfolding tmp_def crc_t_def bit_xor_iff x[symmetric] bit_push_bit_iff using bit_imp_le_length[of "b XOR ucast crc" m] by auto
  have "crcAccumulate crc b = drop_bit 8 crc XOR push_bit 8 (ucast tmp) XOR push_bit 3 (ucast tmp) XOR drop_bit 4 (ucast tmp)"
    by (simp add: crcAccumulate_def tmp_def Let_def)
  moreover have "\<not> crc_t crc b m" if "8 \<le> m" for m using that by (auto simp: crc_t_def crc_x_def)
  ultimately show ?thesis using bit_imp_le_length[of crc "8 + n"] by (auto simp: bit_simps t)
qed

lemmas crc_bit_defs = crc_t_def crc_x_def

lemma crcAccumulate_bits:
  "crcAccumulate (bits16 [c0, c1, c2, c3, c4, c5, c6, c7, c8, c9, c10, c11, c12, c13, c14, c15]) (bits8 [b0, b1, b2, b3, b4, b5, b6, b7]) = bits16 (crc_step [c0, c1, c2, c3, c4, c5, c6, c7, c8, c9, c10, c11, c12, c13, c14, c15] [b0, b1, b2, b3, b4, b5, b6, b7])"
proof (rule bit_word_eqI)
  fix n :: nat assume "n < LENGTH(16)"
  then have "n < 16" by simp
  then consider "n = 0" | "n = 1" | "n = 2" | "n = 3" | "n = 4" | "n = 5" | "n = 6" | "n = 7" | "n = 8" | "n = 9" | "n = 10"
    | "n = 11" | "n = 12" | "n = 13" | "n = 14" | "n = 15"
    by (fastforce simp: numeral_eq_Suc less_Suc_eq)
  then show "bit (crcAccumulate (bits16 [c0, c1, c2, c3, c4, c5, c6, c7, c8, c9, c10, c11, c12, c13, c14, c15]) (bits8 [b0, b1, b2, b3, b4, b5, b6, b7])) n = bit (bits16 (crc_step [c0, c1, c2, c3, c4, c5, c6, c7, c8, c9, c10, c11, c12, c13, c14, c15] [b0, b1, b2, b3, b4, b5, b6, b7])) n"
    by cases (simp_all add: bit_crcAccumulate crc_bit_defs crc_step_def Let_def bit_bits)
qed

section \<open>One corrupted byte\<close>

text \<open>A step of the checksum loses neither the byte nor the checksum before it.\<close>

lemma crcAccumulate_inj:
  assumes "crcAccumulate c b = crcAccumulate c' b'"
  shows "crc_x c b m = crc_x c' b' m" and "8 \<le> n \<Longrightarrow> bit c n = bit c' n"
proof -
  note out = arg_cong[OF assms, of "\<lambda>w. bit w n" for n, unfolded bit_crcAccumulate]
  have top: "\<not> bit (w :: 16 word) k" if "16 \<le> k" for w k using bit_imp_le_length[of w k] that by auto
  have t7: "crc_t c b 7 = crc_t c' b' 7" using out[of 15] top by (simp add: crc_t_def crc_x_def)
  have t6: "crc_t c b 6 = crc_t c' b' 6" using out[of 14] top by (simp add: crc_t_def crc_x_def)
  have t5: "crc_t c b 5 = crc_t c' b' 5" using out[of 13] top by (simp add: crc_t_def crc_x_def)
  have t4: "crc_t c b 4 = crc_t c' b' 4" using out[of 12] top by (simp add: crc_t_def crc_x_def)
  have t3: "crc_t c b 3 = crc_t c' b' 3" using out[of 11] top by (simp add: crc_t_def crc_x_def)
  have big: "\<not> crc_t w v k" if "8 \<le> k" for w v k using that by (simp add: crc_t_def crc_x_def)
  have t2: "crc_t c b 2 = crc_t c' b' 2" using out[of 10] top t7 big by auto
  have t1: "crc_t c b 1 = crc_t c' b' 1" using out[of 9] top t6 big by auto
  have t0: "crc_t c b 0 = crc_t c' b' 0" using out[of 8] top t5 big by auto
  have small: "k = 0 \<or> k = 1 \<or> k = 2 \<or> k = 3 \<or> k = 4 \<or> k = 5 \<or> k = 6 \<or> k = 7" if "k < 8" for k :: nat
    using that by (auto simp: numeral_eq_Suc less_Suc_eq)
  have t: "crc_t c b k = crc_t c' b' k" for k
    using small[of k] t0 t1 t2 t3 t4 t5 t6 t7 big[of k] by (cases "k < 8") auto
  have x0: "crc_x c b k = crc_x c' b' k" if "k < 4" for k using t[of k] that by (simp add: crc_t_def)
  have x4: "crc_x c b k = crc_x c' b' k" if "4 \<le> k" "k < 8" for k
    using t[of k] x0[of "k - 4"] that by (auto simp: crc_t_def)
  show "crc_x c b m = crc_x c' b' m" 
  proof (cases "m < 8")
    case True then show ?thesis using x0[of m] x4[of m] by (cases "m < 4") simp_all
  qed (simp add: crc_x_def)
  show "bit c n = bit c' n" if "8 \<le> n"
  proof (cases "n < 16")
    case True
    define k where "k = n - 8"
    then have k: "n = 8 + k" using that by simp
    have xor: "A = B" if "(K \<and> ((A \<noteq> p) \<noteq> q) \<noteq> r) = (K \<and> ((B \<noteq> p) \<noteq> q) \<noteq> r)" K for A B K p q r :: bool
      using that by argo
    have "k < 16" using k True by simp
    then show ?thesis unfolding k by (rule xor[OF out[of k, unfolded t]])
  qed (simp add: top)
qed

lemma crcAccumulate_byte: "crcAccumulate c b = crcAccumulate c b' \<longleftrightarrow> b = b'"
proof
  assume "crcAccumulate c b = crcAccumulate c b'"
  note x = crcAccumulate_inj(1)[OF this]
  show "b = b'" by (rule bit_word_eqI) (use x in \<open>auto simp: crc_x_def\<close>)
qed simp

lemma crcAccumulate_crc: "crcAccumulate c b = crcAccumulate c' b \<longleftrightarrow> c = c'"
proof
  assume e: "crcAccumulate c b = crcAccumulate c' b"
  show "c = c'"
  proof (rule bit_word_eqI)
    fix n show "bit c n = bit c' n"
      using crcAccumulate_inj[OF e, of n] by (cases "n < 8") (auto simp: crc_x_def)
  qed
qed simp

lemma crc_fold_start: "fold (\<lambda>b crc. crcAccumulate crc b) xs c = fold (\<lambda>b crc. crcAccumulate crc b) xs c' \<longleftrightarrow> c = c'"
  by (induction xs arbitrary: c c') (simp_all add: crcAccumulate_crc)

lemma frameCRC_corrupted:
  assumes "k < length xs" "v \<noteq> xs ! k"
  shows "frameCRC (xs[k := v]) e \<noteq> frameCRC xs e"
proof -
  define g where "g = fold (\<lambda>b crc. crcAccumulate crc b)"
  have "g xs crcInit = g (drop (Suc k) xs) (crcAccumulate (g (take k xs) crcInit) (xs ! k))"
    using id_take_nth_drop[OF assms(1)] unfolding g_def by (metis fold_Cons fold_append o_apply)
  moreover have "g (xs[k := v]) crcInit = g (drop (Suc k) xs) (crcAccumulate (g (take k xs) crcInit) v)"
    unfolding upd_conv_take_nth_drop[OF assms(1)] by (simp add: g_def)
  ultimately show ?thesis
    using assms(2) by (simp add: frameCRC_def crcAccumulate_crc crc_fold_start crcAccumulate_byte g_def)
qed

end
