(* ===== verification/MavGen.thy ===== *)
theory MavGen
  imports MavDialect MavCrc
begin

text \<open>
  The dialect generator, \<open>pkg/mavlink/gen/main.go\<close>: from a message element of the vendored XML to its wire order, offsets,
  payload length and CRC_EXTRA byte. Reading the XML, the documentation and the Go text that is printed are not modelled;
  an element is given by its children in document order.
\<close>

section \<open>Fields\<close>

datatype xmlChild = XField string string | XExtensions | XOther

record xmlMessage =
  xmID :: nat
  xmName :: string
  xmChildren :: "xmlChild list"

datatype gen_error = MalformedArray | BadArrayLength | UnknownType | PayloadTooLong

definition types :: "(string \<times> mav_type) list" where
  "types = [(''char'', TChar), (''uint8_t'', TUInt8), (''int8_t'', TInt8), (''uint16_t'', TUInt16), (''int16_t'', TInt16),
     (''uint32_t'', TUInt32), (''int32_t'', TInt32), (''uint64_t'', TUInt64), (''int64_t'', TInt64), (''float'', TFloat),
     (''double'', TDouble)]"

text \<open>The canonical name, which the generator keeps beside the type.\<close>

definition type_name :: "mav_type \<Rightarrow> string" where
  "type_name ty = (case find (\<lambda>p. snd p = ty) types of Some p \<Rightarrow> fst p | None \<Rightarrow> '''')"

definition is_space :: "char \<Rightarrow> bool" where
  "is_space c \<longleftrightarrow> c \<in> {CHR 0x09, CHR 0x0A, CHR 0x0B, CHR 0x0C, CHR 0x0D, CHR '' ''}"

definition TrimSpace :: "string \<Rightarrow> string" where
  "TrimSpace s = rev (dropWhile is_space (rev (dropWhile is_space s)))"

text \<open>\<open>strconv.Atoi\<close>.\<close>

definition atoi_digit :: "char \<Rightarrow> bool" where
  "atoi_digit c \<longleftrightarrow> 48 \<le> (of_char c :: nat) \<and> (of_char c :: nat) \<le> 57"

definition digits_value :: "string \<Rightarrow> int" where
  "digits_value s = foldl (\<lambda>n c. 10 * n + (int (of_char c) - 48)) 0 s"

definition Atoi :: "string \<Rightarrow> int option" where
  "Atoi s =
     (let (neg, ds) = (case s of [] \<Rightarrow> (False, s)
                       | c # r \<Rightarrow> if c = CHR ''-'' then (True, r) else if c = CHR ''+'' then (False, r) else (False, s));
          n = (if neg then - digits_value ds else digits_value ds)
      in if ds = [] \<or> \<not> list_all atoi_digit ds \<or> n < - (2 ^ 63) \<or> 2 ^ 63 \<le> n then None else Some n)"

definition parseField :: "string \<Rightarrow> string \<Rightarrow> gen_error + field" where
  "parseField ty name =
     (let t0 = TrimSpace ty;
          t = (if t0 = ''uint8_t_mavlink_version'' then ''uint8_t'' else t0);
          elem = takeWhile (\<lambda>c. c \<noteq> CHR ''['') t;
          primitive = (\<lambda>t n. case map_of types t of None \<Rightarrow> Inl UnknownType | Some m \<Rightarrow> Inr (fd 0 (TrimSpace name) m n))
      in if elem = t then primitive t 0
         else if last t \<noteq> CHR '']'' then Inl MalformedArray
         else (case Atoi (butlast (drop (length elem + 1) t)) of
                 None \<Rightarrow> Inl BadArrayLength
               | Some n \<Rightarrow> if n \<le> 0 then Inl BadArrayLength else primitive elem (nat n)))"

section \<open>Messages\<close>

text \<open>The fields before and after the extensions marker, in document order; the first field that does not parse fails.\<close>

fun split_fields :: "bool \<Rightarrow> xmlChild list \<Rightarrow> gen_error + field list \<times> field list" where
  "split_fields inExt [] = Inr ([], [])"
| "split_fields inExt (XExtensions # cs) = split_fields True cs"
| "split_fields inExt (XOther # cs) = split_fields inExt cs"
| "split_fields inExt (XField ty name # cs) =
     (case parseField ty name of
        Inl e \<Rightarrow> Inl e
      | Inr f \<Rightarrow> (case split_fields inExt cs of
                    Inl e \<Rightarrow> Inl e
                  | Inr (base, ext) \<Rightarrow> Inr (if inExt then (base, f # ext) else (f # base, ext))))"

fun set_offsets :: "nat \<Rightarrow> field list \<Rightarrow> field list" where
  "set_offsets off [] = []"
| "set_offsets off (f # fs) = f\<lparr>fdOff := off\<rparr> # set_offsets (off + wireLen f) fs"

definition total_len :: "field list \<Rightarrow> nat" where
  "total_len fs = sum_list (map wireLen fs)"

definition crc_field :: "field \<Rightarrow> 16 word \<Rightarrow> 16 word" where
  "crc_field f crc =
     (let c = crcString (crcString crc (type_name (fdType f) @ '' '')) (fdName f @ '' '')
      in if 0 < fdLen f then crcAccumulate c (word_of_nat (fdLen f)) else c)"

definition crc_fold :: "16 word \<Rightarrow> byte" where
  "crc_fold crc = ucast (crc AND 0xFF) XOR ucast (drop_bit 8 crc)"

definition crcExtra :: "string \<Rightarrow> field list \<Rightarrow> byte" where
  "crcExtra name base =
     crc_fold (fold crc_field base (crcString 0xFFFF (name @ '' '')))"

definition wider :: "field \<Rightarrow> field \<Rightarrow> bool" where
  "wider f g \<longleftrightarrow> type_size (fdType g) < type_size (fdType f)"

definition buildMessage :: "xmlMessage \<Rightarrow> gen_error + msgdef" where
  "buildMessage m =
     (case split_fields False (xmChildren m) of
        Inl e \<Rightarrow> Inl e
      | Inr (base0, ext) \<Rightarrow>
          let base = sort_by wider base0;
              fs = set_offsets 0 (base @ ext);
              payload = total_len (base @ ext);
              d = md (xmID m) (xmName m) (crcExtra (xmName m) base) payload (take (length base) fs) (drop (length base) fs)
          in if 255 < payload then Inl PayloadTooLong else Inr d)"

section \<open>The vendored messages\<close>

definition xm :: "nat \<Rightarrow> string \<Rightarrow> xmlChild list \<Rightarrow> xmlMessage" where
  "xm i name cs = \<lparr>xmID = i, xmName = name, xmChildren = cs\<rparr>"

definition xml_Heartbeat :: xmlMessage where
  "xml_Heartbeat = xm 0 ''HEARTBEAT''
     [XOther, XField ''uint8_t'' ''type'', XField ''uint8_t'' ''autopilot'', XField ''uint8_t'' ''base_mode'',
      XField ''uint32_t'' ''custom_mode'', XField ''uint8_t'' ''system_status'', XField ''uint8_t_mavlink_version'' ''mavlink_version'']"

definition xml_SysStatus :: xmlMessage where
  "xml_SysStatus = xm 1 ''SYS_STATUS''
     [XOther, XField ''uint32_t'' ''onboard_control_sensors_present'', XField ''uint32_t'' ''onboard_control_sensors_enabled'', XField ''uint32_t'' ''onboard_control_sensors_health'',
      XField ''uint16_t'' ''load'', XField ''uint16_t'' ''voltage_battery'', XField ''int16_t'' ''current_battery'', XField ''int8_t'' ''battery_remaining'',
      XField ''uint16_t'' ''drop_rate_comm'', XField ''uint16_t'' ''errors_comm'', XField ''uint16_t'' ''errors_count1'', XField ''uint16_t'' ''errors_count2'',
      XField ''uint16_t'' ''errors_count3'', XField ''uint16_t'' ''errors_count4'', XExtensions, XField ''uint32_t'' ''onboard_control_sensors_present_extended'',
      XField ''uint32_t'' ''onboard_control_sensors_enabled_extended'', XField ''uint32_t'' ''onboard_control_sensors_health_extended'']"

definition xml_ParamRequestRead :: xmlMessage where
  "xml_ParamRequestRead = xm 20 ''PARAM_REQUEST_READ''
     [XOther, XField ''uint8_t'' ''target_system'', XField ''uint8_t'' ''target_component'', XField ''char[16]'' ''param_id'',
      XField ''int16_t'' ''param_index'']"

definition xml_ParamRequestList :: xmlMessage where
  "xml_ParamRequestList = xm 21 ''PARAM_REQUEST_LIST''
     [XOther, XField ''uint8_t'' ''target_system'', XField ''uint8_t'' ''target_component'']"

definition xml_ParamValue :: xmlMessage where
  "xml_ParamValue = xm 22 ''PARAM_VALUE''
     [XOther, XField ''char[16]'' ''param_id'', XField ''float'' ''param_value'', XField ''uint8_t'' ''param_type'',
      XField ''uint16_t'' ''param_count'', XField ''uint16_t'' ''param_index'']"

definition xml_GPSRawInt :: xmlMessage where
  "xml_GPSRawInt = xm 24 ''GPS_RAW_INT''
     [XOther, XField ''uint64_t'' ''time_usec'', XField ''uint8_t'' ''fix_type'', XField ''int32_t'' ''lat'',
      XField ''int32_t'' ''lon'', XField ''int32_t'' ''alt'', XField ''uint16_t'' ''eph'', XField ''uint16_t'' ''epv'',
      XField ''uint16_t'' ''vel'', XField ''uint16_t'' ''cog'', XField ''uint8_t'' ''satellites_visible'', XExtensions,
      XField ''int32_t'' ''alt_ellipsoid'', XField ''uint32_t'' ''h_acc'', XField ''uint32_t'' ''v_acc'', XField ''uint32_t'' ''vel_acc'',
      XField ''uint32_t'' ''hdg_acc'', XField ''uint16_t'' ''yaw'']"

definition xml_Attitude :: xmlMessage where
  "xml_Attitude = xm 30 ''ATTITUDE''
     [XOther, XField ''uint32_t'' ''time_boot_ms'', XField ''float'' ''roll'', XField ''float'' ''pitch'',
      XField ''float'' ''yaw'', XField ''float'' ''rollspeed'', XField ''float'' ''pitchspeed'', XField ''float'' ''yawspeed'']"

definition xml_GlobalPositionInt :: xmlMessage where
  "xml_GlobalPositionInt = xm 33 ''GLOBAL_POSITION_INT''
     [XOther, XField ''uint32_t'' ''time_boot_ms'', XField ''int32_t'' ''lat'', XField ''int32_t'' ''lon'',
      XField ''int32_t'' ''alt'', XField ''int32_t'' ''relative_alt'', XField ''int16_t'' ''vx'', XField ''int16_t'' ''vy'',
      XField ''int16_t'' ''vz'', XField ''uint16_t'' ''hdg'']"

definition xml_MissionItem :: xmlMessage where
  "xml_MissionItem = xm 39 ''MISSION_ITEM''
     [XOther, XOther, XField ''uint8_t'' ''target_system'', XField ''uint8_t'' ''target_component'',
      XField ''uint16_t'' ''seq'', XField ''uint8_t'' ''frame'', XField ''uint16_t'' ''command'', XField ''uint8_t'' ''current'',
      XField ''uint8_t'' ''autocontinue'', XField ''float'' ''param1'', XField ''float'' ''param2'', XField ''float'' ''param3'',
      XField ''float'' ''param4'', XField ''float'' ''x'', XField ''float'' ''y'', XField ''float'' ''z'',
      XExtensions, XField ''uint8_t'' ''mission_type'']"

definition xml_MissionRequest :: xmlMessage where
  "xml_MissionRequest = xm 40 ''MISSION_REQUEST''
     [XOther, XOther, XField ''uint8_t'' ''target_system'', XField ''uint8_t'' ''target_component'',
      XField ''uint16_t'' ''seq'', XExtensions, XField ''uint8_t'' ''mission_type'']"

definition xml_MissionSetCurrent :: xmlMessage where
  "xml_MissionSetCurrent = xm 41 ''MISSION_SET_CURRENT''
     [XOther, XOther, XField ''uint8_t'' ''target_system'', XField ''uint8_t'' ''target_component'',
      XField ''uint16_t'' ''seq'']"

definition xml_MissionCurrent :: xmlMessage where
  "xml_MissionCurrent = xm 42 ''MISSION_CURRENT''
     [XOther, XField ''uint16_t'' ''seq'', XExtensions, XField ''uint16_t'' ''total'',
      XField ''uint8_t'' ''mission_state'', XField ''uint8_t'' ''mission_mode'', XField ''uint32_t'' ''mission_id'', XField ''uint32_t'' ''fence_id'',
      XField ''uint32_t'' ''rally_points_id'']"

definition xml_MissionRequestList :: xmlMessage where
  "xml_MissionRequestList = xm 43 ''MISSION_REQUEST_LIST''
     [XOther, XField ''uint8_t'' ''target_system'', XField ''uint8_t'' ''target_component'', XExtensions,
      XField ''uint8_t'' ''mission_type'']"

definition xml_MissionCount :: xmlMessage where
  "xml_MissionCount = xm 44 ''MISSION_COUNT''
     [XOther, XField ''uint8_t'' ''target_system'', XField ''uint8_t'' ''target_component'', XField ''uint16_t'' ''count'',
      XExtensions, XField ''uint8_t'' ''mission_type'', XField ''uint32_t'' ''opaque_id'']"

definition xml_MissionClearAll :: xmlMessage where
  "xml_MissionClearAll = xm 45 ''MISSION_CLEAR_ALL''
     [XOther, XField ''uint8_t'' ''target_system'', XField ''uint8_t'' ''target_component'', XExtensions,
      XField ''uint8_t'' ''mission_type'']"

definition xml_MissionItemReached :: xmlMessage where
  "xml_MissionItemReached = xm 46 ''MISSION_ITEM_REACHED''
     [XOther, XField ''uint16_t'' ''seq'']"

definition xml_MissionAck :: xmlMessage where
  "xml_MissionAck = xm 47 ''MISSION_ACK''
     [XOther, XField ''uint8_t'' ''target_system'', XField ''uint8_t'' ''target_component'', XField ''uint8_t'' ''type'',
      XExtensions, XField ''uint8_t'' ''mission_type'', XField ''uint32_t'' ''opaque_id'']"

definition xml_GPSGlobalOrigin :: xmlMessage where
  "xml_GPSGlobalOrigin = xm 49 ''GPS_GLOBAL_ORIGIN''
     [XOther, XField ''int32_t'' ''latitude'', XField ''int32_t'' ''longitude'', XField ''int32_t'' ''altitude'',
      XExtensions, XField ''uint64_t'' ''time_usec'']"

definition xml_MissionRequestInt :: xmlMessage where
  "xml_MissionRequestInt = xm 51 ''MISSION_REQUEST_INT''
     [XOther, XField ''uint8_t'' ''target_system'', XField ''uint8_t'' ''target_component'', XField ''uint16_t'' ''seq'',
      XExtensions, XField ''uint8_t'' ''mission_type'']"

definition xml_MissionItemInt :: xmlMessage where
  "xml_MissionItemInt = xm 73 ''MISSION_ITEM_INT''
     [XOther, XField ''uint8_t'' ''target_system'', XField ''uint8_t'' ''target_component'', XField ''uint16_t'' ''seq'',
      XField ''uint8_t'' ''frame'', XField ''uint16_t'' ''command'', XField ''uint8_t'' ''current'', XField ''uint8_t'' ''autocontinue'',
      XField ''float'' ''param1'', XField ''float'' ''param2'', XField ''float'' ''param3'', XField ''float'' ''param4'',
      XField ''int32_t'' ''x'', XField ''int32_t'' ''y'', XField ''float'' ''z'', XExtensions,
      XField ''uint8_t'' ''mission_type'']"

definition xml_VfrHud :: xmlMessage where
  "xml_VfrHud = xm 74 ''VFR_HUD''
     [XOther, XField ''float'' ''airspeed'', XField ''float'' ''groundspeed'', XField ''int16_t'' ''heading'',
      XField ''uint16_t'' ''throttle'', XField ''float'' ''alt'', XField ''float'' ''climb'']"

definition xml_CommandLong :: xmlMessage where
  "xml_CommandLong = xm 76 ''COMMAND_LONG''
     [XOther, XField ''uint8_t'' ''target_system'', XField ''uint8_t'' ''target_component'', XField ''uint16_t'' ''command'',
      XField ''uint8_t'' ''confirmation'', XField ''float'' ''param1'', XField ''float'' ''param2'', XField ''float'' ''param3'',
      XField ''float'' ''param4'', XField ''float'' ''param5'', XField ''float'' ''param6'', XField ''float'' ''param7'']"

definition xml_CommandAck :: xmlMessage where
  "xml_CommandAck = xm 77 ''COMMAND_ACK''
     [XOther, XField ''uint16_t'' ''command'', XField ''uint8_t'' ''result'', XExtensions,
      XField ''uint8_t'' ''progress'', XField ''int32_t'' ''result_param2'', XField ''uint8_t'' ''target_system'', XField ''uint8_t'' ''target_component'']"

definition xml_BatteryStatus :: xmlMessage where
  "xml_BatteryStatus = xm 147 ''BATTERY_STATUS''
     [XOther, XField ''uint8_t'' ''id'', XField ''uint8_t'' ''battery_function'', XField ''uint8_t'' ''type'',
      XField ''int16_t'' ''temperature'', XField ''uint16_t[10]'' ''voltages'', XField ''int16_t'' ''current_battery'', XField ''int32_t'' ''current_consumed'',
      XField ''int32_t'' ''energy_consumed'', XField ''int8_t'' ''battery_remaining'', XExtensions, XField ''int32_t'' ''time_remaining'',
      XField ''uint8_t'' ''charge_state'', XField ''uint16_t[4]'' ''voltages_ext'', XField ''uint8_t'' ''mode'', XField ''uint32_t'' ''fault_bitmask'']"

definition xml_AutopilotVersion :: xmlMessage where
  "xml_AutopilotVersion = xm 148 ''AUTOPILOT_VERSION''
     [XOther, XField ''uint64_t'' ''capabilities'', XField ''uint32_t'' ''flight_sw_version'', XField ''uint32_t'' ''middleware_sw_version'',
      XField ''uint32_t'' ''os_sw_version'', XField ''uint32_t'' ''board_version'', XField ''uint8_t[8]'' ''flight_custom_version'', XField ''uint8_t[8]'' ''middleware_custom_version'',
      XField ''uint8_t[8]'' ''os_custom_version'', XField ''uint16_t'' ''vendor_id'', XField ''uint16_t'' ''product_id'', XField ''uint64_t'' ''uid'',
      XExtensions, XField ''uint8_t[18]'' ''uid2'']"

definition xml_HomePosition :: xmlMessage where
  "xml_HomePosition = xm 242 ''HOME_POSITION''
     [XOther, XField ''int32_t'' ''latitude'', XField ''int32_t'' ''longitude'', XField ''int32_t'' ''altitude'',
      XField ''float'' ''x'', XField ''float'' ''y'', XField ''float'' ''z'', XField ''float[4]'' ''q'',
      XField ''float'' ''approach_x'', XField ''float'' ''approach_y'', XField ''float'' ''approach_z'', XExtensions,
      XField ''uint64_t'' ''time_usec'']"

definition xml_ExtendedSysState :: xmlMessage where
  "xml_ExtendedSysState = xm 245 ''EXTENDED_SYS_STATE''
     [XOther, XField ''uint8_t'' ''vtol_state'', XField ''uint8_t'' ''landed_state'']"

definition xml_Statustext :: xmlMessage where
  "xml_Statustext = xm 253 ''STATUSTEXT''
     [XOther, XField ''uint8_t'' ''severity'', XField ''char[50]'' ''text'', XExtensions,
      XField ''uint16_t'' ''id'', XField ''uint8_t'' ''chunk_seq'']"

definition vendored :: "xmlMessage list" where
  "vendored = [xml_Heartbeat, xml_SysStatus, xml_ParamRequestRead, xml_ParamRequestList, xml_ParamValue, xml_GPSRawInt, xml_Attitude,
     xml_GlobalPositionInt, xml_MissionItem, xml_MissionRequest, xml_MissionSetCurrent, xml_MissionCurrent, xml_MissionRequestList, xml_MissionCount,
     xml_MissionClearAll, xml_MissionItemReached, xml_MissionAck, xml_GPSGlobalOrigin, xml_MissionRequestInt, xml_MissionItemInt, xml_VfrHud,
     xml_CommandLong, xml_CommandAck, xml_BatteryStatus, xml_AutopilotVersion, xml_HomePosition, xml_ExtendedSysState, xml_Statustext]"

section \<open>Evaluation\<close>

text \<open>The checksum one byte at a time, on its bits.\<close>

lemma crcAccumulate_eval:
  "crcAccumulate (bits16 [c0, c1, c2, c3, c4, c5, c6, c7, c8, c9, c10, c11, c12, c13, c14, c15]) (bits8 [b0, b1, b2, b3, b4, b5, b6, b7]) =
     bits16 [(c8 \<noteq> ((b4 \<noteq> c4) \<noteq> (b0 \<noteq> c0))), (c9 \<noteq> ((b5 \<noteq> c5) \<noteq> (b1 \<noteq> c1))), (c10 \<noteq> ((b6 \<noteq> c6) \<noteq> (b2 \<noteq> c2))), ((c11 \<noteq> (b0 \<noteq> c0)) \<noteq> ((b7 \<noteq> c7) \<noteq> (b3 \<noteq> c3))),
       (c12 \<noteq> (b1 \<noteq> c1)), (c13 \<noteq> (b2 \<noteq> c2)), (c14 \<noteq> (b3 \<noteq> c3)), (c15 \<noteq> ((b4 \<noteq> c4) \<noteq> (b0 \<noteq> c0))),
       ((b0 \<noteq> c0) \<noteq> ((b5 \<noteq> c5) \<noteq> (b1 \<noteq> c1))), ((b1 \<noteq> c1) \<noteq> ((b6 \<noteq> c6) \<noteq> (b2 \<noteq> c2))), ((b2 \<noteq> c2) \<noteq> ((b7 \<noteq> c7) \<noteq> (b3 \<noteq> c3))), (b3 \<noteq> c3),
       ((b4 \<noteq> c4) \<noteq> (b0 \<noteq> c0)), ((b5 \<noteq> c5) \<noteq> (b1 \<noteq> c1)), ((b6 \<noteq> c6) \<noteq> (b2 \<noteq> c2)), ((b7 \<noteq> c7) \<noteq> (b3 \<noteq> c3))]"
  unfolding crcAccumulate_bits by (simp add: crc_step_def Let_def)

lemma crcString_eval:
  "crcString crc [] = crc"
  "crcString (bits16 [c0, c1, c2, c3, c4, c5, c6, c7, c8, c9, c10, c11, c12, c13, c14, c15]) (Char b0 b1 b2 b3 b4 b5 b6 b7 # s) =
     crcString (bits16 [(c8 \<noteq> ((b4 \<noteq> c4) \<noteq> (b0 \<noteq> c0))), (c9 \<noteq> ((b5 \<noteq> c5) \<noteq> (b1 \<noteq> c1))), (c10 \<noteq> ((b6 \<noteq> c6) \<noteq> (b2 \<noteq> c2))), ((c11 \<noteq> (b0 \<noteq> c0)) \<noteq> ((b7 \<noteq> c7) \<noteq> (b3 \<noteq> c3))),
       (c12 \<noteq> (b1 \<noteq> c1)), (c13 \<noteq> (b2 \<noteq> c2)), (c14 \<noteq> (b3 \<noteq> c3)), (c15 \<noteq> ((b4 \<noteq> c4) \<noteq> (b0 \<noteq> c0))),
       ((b0 \<noteq> c0) \<noteq> ((b5 \<noteq> c5) \<noteq> (b1 \<noteq> c1))), ((b1 \<noteq> c1) \<noteq> ((b6 \<noteq> c6) \<noteq> (b2 \<noteq> c2))), ((b2 \<noteq> c2) \<noteq> ((b7 \<noteq> c7) \<noteq> (b3 \<noteq> c3))), (b3 \<noteq> c3),
       ((b4 \<noteq> c4) \<noteq> (b0 \<noteq> c0)), ((b5 \<noteq> c5) \<noteq> (b1 \<noteq> c1)), ((b6 \<noteq> c6) \<noteq> (b2 \<noteq> c2)), ((b7 \<noteq> c7) \<noteq> (b3 \<noteq> c3))]) s"
  by (simp_all add: crcString_def char_byte_Char crcAccumulate_eval)

lemma lens_bits:
  "(4 :: byte) = bits8 [False, False, True, False, False, False, False, False]"
  "(8 :: byte) = bits8 [False, False, False, True, False, False, False, False]"
  "(10 :: byte) = bits8 [False, True, False, True, False, False, False, False]"
  "(16 :: byte) = bits8 [False, False, False, False, True, False, False, False]"
  "(50 :: byte) = bits8 [False, True, False, False, True, True, False, False]"
  by (simp_all add: bits8_def)

lemma crc_init_bits: "(0xFFFF :: 16 word) = bits16 [True, True, True, True, True, True, True, True, True, True, True, True, True, True, True, True]"
  by (simp add: bits16_def)

lemma bit_crc_fold: "bit (crc_fold crc) n \<longleftrightarrow> n < 8 \<and> bit crc n \<noteq> bit crc (8 + n)"
proof -
  have "(0xFF :: 16 word) = mask 8" by (simp add: mask_eq_exp_minus_1)
  then have "bit (0xFF :: 16 word) m \<longleftrightarrow> m < 8" for m by (simp only: bit_mask_iff) auto
  then show ?thesis by (auto simp: crc_fold_def bit_simps)
qed

lemma crc_fold_eval:
  "crc_fold (bits16 [c0, c1, c2, c3, c4, c5, c6, c7, c8, c9, c10, c11, c12, c13, c14, c15]) = bits8 [(c0 \<noteq> c8), (c1 \<noteq> c9), (c2 \<noteq> c10), (c3 \<noteq> c11), (c4 \<noteq> c12), (c5 \<noteq> c13), (c6 \<noteq> c14), (c7 \<noteq> c15)]"
proof (rule bit_word_eqI)
  fix n :: nat assume "n < LENGTH(8)"
  then have "n < 8" by simp
  then consider "n = 0" | "n = 1" | "n = 2" | "n = 3" | "n = 4" | "n = 5" | "n = 6" | "n = 7"
    by (fastforce simp: numeral_eq_Suc less_Suc_eq)
  then show "bit (crc_fold (bits16 [c0, c1, c2, c3, c4, c5, c6, c7, c8, c9, c10, c11, c12, c13, c14, c15])) n = bit (bits8 [(c0 \<noteq> c8), (c1 \<noteq> c9), (c2 \<noteq> c10), (c3 \<noteq> c11), (c4 \<noteq> c12), (c5 \<noteq> c13), (c6 \<noteq> c14), (c7 \<noteq> c15)]) n"
    by cases (simp_all add: bit_crc_fold bit_bits)
qed

lemma crcExtra_eval: "crcExtra name base = crc_fold (fold crc_field base (crcString (bits16 [True, True, True, True, True, True, True, True, True, True, True, True, True, True, True, True]) (name @ '' '')))"
  by (simp only: crcExtra_def crc_init_bits)

lemma crcAccumulate_len:
  "crcAccumulate (bits16 [c0, c1, c2, c3, c4, c5, c6, c7, c8, c9, c10, c11, c12, c13, c14, c15]) 8 =
     bits16 [(c8 \<noteq> (c4 \<noteq> c0)), (c9 \<noteq> (c5 \<noteq> c1)), (c10 \<noteq> (c6 \<noteq> c2)), ((c11 \<noteq> c0) \<noteq> (c7 \<noteq> (\<not> c3))),
       (c12 \<noteq> c1), (c13 \<noteq> c2), (c14 \<noteq> (\<not> c3)), (c15 \<noteq> (c4 \<noteq> c0)),
       (c0 \<noteq> (c5 \<noteq> c1)), (c1 \<noteq> (c6 \<noteq> c2)), (c2 \<noteq> (c7 \<noteq> (\<not> c3))), (\<not> c3),
       (c4 \<noteq> c0), (c5 \<noteq> c1), (c6 \<noteq> c2), (c7 \<noteq> (\<not> c3))]"
  "crcAccumulate (bits16 [c0, c1, c2, c3, c4, c5, c6, c7, c8, c9, c10, c11, c12, c13, c14, c15]) 4 =
     bits16 [(c8 \<noteq> (c4 \<noteq> c0)), (c9 \<noteq> (c5 \<noteq> c1)), (c10 \<noteq> (c6 \<noteq> (\<not> c2))), ((c11 \<noteq> c0) \<noteq> (c7 \<noteq> c3)),
       (c12 \<noteq> c1), (c13 \<noteq> (\<not> c2)), (c14 \<noteq> c3), (c15 \<noteq> (c4 \<noteq> c0)),
       (c0 \<noteq> (c5 \<noteq> c1)), (c1 \<noteq> (c6 \<noteq> (\<not> c2))), ((\<not> c2) \<noteq> (c7 \<noteq> c3)), c3,
       (c4 \<noteq> c0), (c5 \<noteq> c1), (c6 \<noteq> (\<not> c2)), (c7 \<noteq> c3)]"
  "crcAccumulate (bits16 [c0, c1, c2, c3, c4, c5, c6, c7, c8, c9, c10, c11, c12, c13, c14, c15]) 10 =
     bits16 [(c8 \<noteq> (c4 \<noteq> c0)), (c9 \<noteq> (c5 \<noteq> (\<not> c1))), (c10 \<noteq> (c6 \<noteq> c2)), ((c11 \<noteq> c0) \<noteq> (c7 \<noteq> (\<not> c3))),
       (c12 \<noteq> (\<not> c1)), (c13 \<noteq> c2), (c14 \<noteq> (\<not> c3)), (c15 \<noteq> (c4 \<noteq> c0)),
       (c0 \<noteq> (c5 \<noteq> (\<not> c1))), ((\<not> c1) \<noteq> (c6 \<noteq> c2)), (c2 \<noteq> (c7 \<noteq> (\<not> c3))), (\<not> c3),
       (c4 \<noteq> c0), (c5 \<noteq> (\<not> c1)), (c6 \<noteq> c2), (c7 \<noteq> (\<not> c3))]"
  "crcAccumulate (bits16 [c0, c1, c2, c3, c4, c5, c6, c7, c8, c9, c10, c11, c12, c13, c14, c15]) 16 =
     bits16 [(c8 \<noteq> ((\<not> c4) \<noteq> c0)), (c9 \<noteq> (c5 \<noteq> c1)), (c10 \<noteq> (c6 \<noteq> c2)), ((c11 \<noteq> c0) \<noteq> (c7 \<noteq> c3)),
       (c12 \<noteq> c1), (c13 \<noteq> c2), (c14 \<noteq> c3), (c15 \<noteq> ((\<not> c4) \<noteq> c0)),
       (c0 \<noteq> (c5 \<noteq> c1)), (c1 \<noteq> (c6 \<noteq> c2)), (c2 \<noteq> (c7 \<noteq> c3)), c3,
       ((\<not> c4) \<noteq> c0), (c5 \<noteq> c1), (c6 \<noteq> c2), (c7 \<noteq> c3)]"
  "crcAccumulate (bits16 [c0, c1, c2, c3, c4, c5, c6, c7, c8, c9, c10, c11, c12, c13, c14, c15]) 50 =
     bits16 [(c8 \<noteq> ((\<not> c4) \<noteq> c0)), (c9 \<noteq> ((\<not> c5) \<noteq> (\<not> c1))), (c10 \<noteq> (c6 \<noteq> c2)), ((c11 \<noteq> c0) \<noteq> (c7 \<noteq> c3)),
       (c12 \<noteq> (\<not> c1)), (c13 \<noteq> c2), (c14 \<noteq> c3), (c15 \<noteq> ((\<not> c4) \<noteq> c0)),
       (c0 \<noteq> ((\<not> c5) \<noteq> (\<not> c1))), ((\<not> c1) \<noteq> (c6 \<noteq> c2)), (c2 \<noteq> (c7 \<noteq> c3)), c3,
       ((\<not> c4) \<noteq> c0), ((\<not> c5) \<noteq> (\<not> c1)), (c6 \<noteq> c2), (c7 \<noteq> c3)]"
  by (simp_all only: lens_bits crcAccumulate_eval) simp_all

lemma bits8_eval:
  "bits8 [b0, b1, b2, b3, b4, b5, b6, b7] =
     of_bool b0 + 2 * (of_bool b1 + 2 * (of_bool b2 + 2 * (of_bool b3 + 2 * (of_bool b4 + 2 * (of_bool b5 + 2 * (of_bool b6 + 2 * of_bool b7))))))"
  by (simp add: bits8_def)

lemmas crc_eval = crcExtra_eval crc_fold_eval crcString_eval crcAccumulate_len bits8_eval

lemma parse_types:
  "parseField ''uint8_t'' name = Inr (fd 0 (TrimSpace name) TUInt8 0)"
  "parseField ''uint8_t_mavlink_version'' name = Inr (fd 0 (TrimSpace name) TUInt8 0)"
  "parseField ''int8_t'' name = Inr (fd 0 (TrimSpace name) TInt8 0)"
  "parseField ''uint16_t'' name = Inr (fd 0 (TrimSpace name) TUInt16 0)"
  "parseField ''int16_t'' name = Inr (fd 0 (TrimSpace name) TInt16 0)"
  "parseField ''uint32_t'' name = Inr (fd 0 (TrimSpace name) TUInt32 0)"
  "parseField ''int32_t'' name = Inr (fd 0 (TrimSpace name) TInt32 0)"
  "parseField ''uint64_t'' name = Inr (fd 0 (TrimSpace name) TUInt64 0)"
  "parseField ''float'' name = Inr (fd 0 (TrimSpace name) TFloat 0)"
  "parseField ''uint8_t[8]'' name = Inr (fd 0 (TrimSpace name) TUInt8 8)"
  "parseField ''uint8_t[18]'' name = Inr (fd 0 (TrimSpace name) TUInt8 18)"
  "parseField ''char[16]'' name = Inr (fd 0 (TrimSpace name) TChar 16)"
  "parseField ''char[50]'' name = Inr (fd 0 (TrimSpace name) TChar 50)"
  "parseField ''float[4]'' name = Inr (fd 0 (TrimSpace name) TFloat 4)"
  "parseField ''uint16_t[10]'' name = Inr (fd 0 (TrimSpace name) TUInt16 10)"
  "parseField ''uint16_t[4]'' name = Inr (fd 0 (TrimSpace name) TUInt16 4)"
  by (simp_all add: parseField_def TrimSpace_def is_space_def types_def Let_def Atoi_def atoi_digit_def digits_value_def of_char_Char)

lemma TrimSpace_none: "list_all (\<lambda>c. \<not> is_space c) s \<Longrightarrow> TrimSpace s = s"
proof -
  have d: "dropWhile is_space s = s" if "list_all (\<lambda>c. \<not> is_space c) s" for s using that by (cases s) auto
  assume "list_all (\<lambda>c. \<not> is_space c) s"
  then show ?thesis unfolding TrimSpace_def using d[of s] d[of "rev s"] by simp
qed

lemmas gen_eval = buildMessage_def xm_def split_fields.simps parse_types TrimSpace_none is_space_def sort_by_def wider_def fd_def md_def
  total_len_def wireLen_def crc_field_def type_name_def types_def Let_def

lemma generated_1:
  "buildMessage xml_Heartbeat = Inr mav_Heartbeat"
  "buildMessage xml_SysStatus = Inr mav_SysStatus"
  "buildMessage xml_ParamRequestRead = Inr mav_ParamRequestRead"
  "buildMessage xml_ParamRequestList = Inr mav_ParamRequestList"
  by (simp_all add: gen_eval xml_Heartbeat_def xml_SysStatus_def xml_ParamRequestRead_def xml_ParamRequestList_def
      mav_Heartbeat_def mav_SysStatus_def mav_ParamRequestRead_def mav_ParamRequestList_def crc_eval)

lemma generated_2:
  "buildMessage xml_ParamValue = Inr mav_ParamValue"
  "buildMessage xml_GPSRawInt = Inr mav_GPSRawInt"
  "buildMessage xml_Attitude = Inr mav_Attitude"
  "buildMessage xml_GlobalPositionInt = Inr mav_GlobalPositionInt"
  by (simp_all add: gen_eval xml_ParamValue_def xml_GPSRawInt_def xml_Attitude_def xml_GlobalPositionInt_def
      mav_ParamValue_def mav_GPSRawInt_def mav_Attitude_def mav_GlobalPositionInt_def crc_eval)

lemma generated_3:
  "buildMessage xml_MissionItem = Inr mav_MissionItem"
  "buildMessage xml_MissionRequest = Inr mav_MissionRequest"
  "buildMessage xml_MissionSetCurrent = Inr mav_MissionSetCurrent"
  "buildMessage xml_MissionCurrent = Inr mav_MissionCurrent"
  by (simp_all add: gen_eval xml_MissionItem_def xml_MissionRequest_def xml_MissionSetCurrent_def xml_MissionCurrent_def
      mav_MissionItem_def mav_MissionRequest_def mav_MissionSetCurrent_def mav_MissionCurrent_def crc_eval)

lemma generated_4:
  "buildMessage xml_MissionRequestList = Inr mav_MissionRequestList"
  "buildMessage xml_MissionCount = Inr mav_MissionCount"
  "buildMessage xml_MissionClearAll = Inr mav_MissionClearAll"
  "buildMessage xml_MissionItemReached = Inr mav_MissionItemReached"
  by (simp_all add: gen_eval xml_MissionRequestList_def xml_MissionCount_def xml_MissionClearAll_def xml_MissionItemReached_def
      mav_MissionRequestList_def mav_MissionCount_def mav_MissionClearAll_def mav_MissionItemReached_def crc_eval)

lemma generated_5:
  "buildMessage xml_MissionAck = Inr mav_MissionAck"
  "buildMessage xml_GPSGlobalOrigin = Inr mav_GPSGlobalOrigin"
  "buildMessage xml_MissionRequestInt = Inr mav_MissionRequestInt"
  "buildMessage xml_MissionItemInt = Inr mav_MissionItemInt"
  by (simp_all add: gen_eval xml_MissionAck_def xml_GPSGlobalOrigin_def xml_MissionRequestInt_def xml_MissionItemInt_def
      mav_MissionAck_def mav_GPSGlobalOrigin_def mav_MissionRequestInt_def mav_MissionItemInt_def crc_eval)

lemma generated_6:
  "buildMessage xml_VfrHud = Inr mav_VfrHud"
  "buildMessage xml_CommandLong = Inr mav_CommandLong"
  "buildMessage xml_CommandAck = Inr mav_CommandAck"
  "buildMessage xml_BatteryStatus = Inr mav_BatteryStatus"
  by (simp_all add: gen_eval xml_VfrHud_def xml_CommandLong_def xml_CommandAck_def xml_BatteryStatus_def
      mav_VfrHud_def mav_CommandLong_def mav_CommandAck_def mav_BatteryStatus_def crc_eval)

lemma generated_7:
  "buildMessage xml_AutopilotVersion = Inr mav_AutopilotVersion"
  "buildMessage xml_HomePosition = Inr mav_HomePosition"
  "buildMessage xml_ExtendedSysState = Inr mav_ExtendedSysState"
  "buildMessage xml_Statustext = Inr mav_Statustext"
  by (simp_all add: gen_eval xml_AutopilotVersion_def xml_HomePosition_def xml_ExtendedSysState_def xml_Statustext_def
      mav_AutopilotVersion_def mav_HomePosition_def mav_ExtendedSysState_def mav_Statustext_def crc_eval)


end
