(* ===== verification/MavFrame.thy ===== *)
theory MavFrame
  imports MavDialect MavCrc "HOL-Library.Finite_Map"
begin

text \<open>
  MAVLink framing, \<open>pkg/mavlink/frame.go\<close> and the error classes of \<open>message.go\<close>: encoding with payload truncation, the
  per-sender sequence numbers and decoding. A message is its definition and
  the values of its fields.
\<close>

type_synonym message = "msgdef \<times> vals"

datatype mav_error = ErrShortPayload | ErrUnknownMsgID | ErrBadCRC | ErrBadMagic | ErrTruncated | ErrUnsupportedIncompatFlags | ErrNeedMore

definition IsMalformed :: "mav_error \<Rightarrow> bool" where
  "IsMalformed e \<longleftrightarrow> e = ErrBadCRC \<or> e = ErrBadMagic \<or> e = ErrTruncated \<or> e = ErrUnknownMsgID \<or> e = ErrUnsupportedIncompatFlags \<or>
     e = ErrShortPayload"

abbreviation MagicV2 :: byte where "MagicV2 \<equiv> 0xFD"
abbreviation MagicV1 :: byte where "MagicV1 \<equiv> 0xFE"
abbreviation headerLenV2 :: nat where "headerLenV2 \<equiv> 10"
abbreviation headerLenV1 :: nat where "headerLenV1 \<equiv> 6"
abbreviation crcLen :: nat where "crcLen \<equiv> 2"
abbreviation signatureLen :: nat where "signatureLen \<equiv> 13"
abbreviation flagSigned :: byte where "flagSigned \<equiv> 1"

definition MaxFrameLen :: nat where
  "MaxFrameLen = headerLenV2 + 255 + crcLen + signatureLen"

record frame =
  frVersion :: byte
  frIncompatFlags :: byte
  frCompatFlags :: byte
  frSeq :: byte
  frSysID :: byte
  frCompID :: byte
  frID :: nat
  frPayload :: "byte list"
  frMsg :: "message option"
  frSigned :: bool

section \<open>Encoding\<close>

definition put16 :: "16 word \<Rightarrow> byte list" where
  "put16 x = [ucast x, ucast (drop_bit 8 x)]"

definition get16 :: "byte list \<Rightarrow> 16 word" where
  "get16 p = ucast (p ! 0) OR push_bit 8 (ucast (p ! 1))"

definition trim_zeros :: "byte list \<Rightarrow> byte list" where
  "trim_zeros p = rev (dropWhile (\<lambda>b. b = 0) (rev p))"

definition header :: "nat \<Rightarrow> byte \<Rightarrow> byte \<Rightarrow> byte \<Rightarrow> nat \<Rightarrow> byte list" where
  "header n seq sysID compID i =
     (let id = (word_of_nat i :: 32 word)
      in [MagicV2, word_of_nat n, 0, 0, seq, sysID, compID, ucast id, ucast (drop_bit 8 id), ucast (drop_bit 16 id)])"

definition Encode :: "byte list \<Rightarrow> byte \<Rightarrow> byte \<Rightarrow> byte \<Rightarrow> message \<Rightarrow> byte list" where
  "Encode dst seq sysID compID m =
     (let (d, vs) = m;
          pay = trim_zeros (Marshal d vs);
          f = header (length pay) seq sysID compID (mdID d) @ pay
      in dst @ f @ put16 (frameCRC (drop 1 f) (mdCRC d)))"

text \<open>The next sequence number of a sender; it wraps at 255.\<close>

type_synonym sequencer = "(16 word, byte) fmap"

definition Sequencer_Next :: "byte \<Rightarrow> byte \<Rightarrow> sequencer \<Rightarrow> byte \<times> sequencer" where
  "Sequencer_Next sysID compID s =
     (let key = push_bit 8 (ucast sysID) OR ucast compID;
          seq = (case fmlookup s key of None \<Rightarrow> 0 | Some n \<Rightarrow> n)
      in (seq, fmupd key (seq + 1) s))"

section \<open>Decoding\<close>

text \<open>The header of either version: its length and the frame so far.\<close>

definition read_header :: "byte list \<Rightarrow> (mav_error \<times> nat) + (nat \<times> frame)" where
  "read_header b =
     (if b ! 0 = MagicV2
      then if length b < headerLenV2 then Inl (ErrTruncated, 0)
        else Inr (headerLenV2, \<lparr>frVersion = 2, frIncompatFlags = b ! 2, frCompatFlags = b ! 3, frSeq = b ! 4, frSysID = b ! 5,
               frCompID = b ! 6, frID = unat ((ucast (b ! 7) OR push_bit 8 (ucast (b ! 8)) OR push_bit 16 (ucast (b ! 9))) :: 32 word),
               frPayload = [], frMsg = None, frSigned = (b ! 2 AND flagSigned \<noteq> 0)\<rparr>)
      else if b ! 0 = MagicV1
      then if length b < headerLenV1 then Inl (ErrTruncated, 0)
        else Inr (headerLenV1, \<lparr>frVersion = 1, frIncompatFlags = 0, frCompatFlags = 0, frSeq = b ! 2, frSysID = b ! 3,
               frCompID = b ! 4, frID = unat (b ! 5), frPayload = [], frMsg = None, frSigned = False\<rparr>)
      else Inl (ErrBadMagic, 1))"

text \<open>The frame at the start of \<open>b\<close>, which begins with a magic byte, and how much of \<open>b\<close> it takes even if it is refused.\<close>

definition decodeFrame :: "byte list \<Rightarrow> (mav_error + frame) \<times> nat" where
  "decodeFrame b =
     (case read_header b of
        Inl (e, n) \<Rightarrow> (Inl e, n)
      | Inr (hdrLen, f) \<Rightarrow>
          let payLen = unat (b ! 1);
              total = hdrLen + payLen + crcLen + (if frSigned f then signatureLen else 0)
          in if length b < total then (Inl ErrTruncated, 0)
          else case NewMessage (frID f) of
            None \<Rightarrow> (Inl ErrUnknownMsgID, hdrLen)
          | Some d \<Rightarrow>
              let crcAt = hdrLen + payLen in
              if frameCRC (take (crcAt - 1) (drop 1 b)) (mdCRC d) \<noteq> get16 (drop crcAt b) then (Inl ErrBadCRC, 1)
              else if frIncompatFlags f AND NOT flagSigned \<noteq> 0 then (Inl ErrUnsupportedIncompatFlags, total)
              else let full = max payLen (mdLen d);
                       pay = take payLen (drop hdrLen b)
                in case Unmarshal d (pay @ replicate (full - payLen) 0) of
                  None \<Rightarrow> (Inl ErrShortPayload, total)
                | Some vs \<Rightarrow> (Inr (f\<lparr>frPayload := pay, frMsg := Some (d, vs)\<rparr>), total))"

definition DecodeDatagram :: "byte list \<Rightarrow> mav_error + frame" where
  "DecodeDatagram b =
     (if b = [] then Inl ErrTruncated
      else if b ! 0 \<noteq> MagicV2 \<and> b ! 0 \<noteq> MagicV1 then Inl ErrBadMagic
      else fst (decodeFrame b))"

section \<open>Headers and trailers\<close>

lemma trim_zeros_pad: "trim_zeros p @ replicate (length p - length (trim_zeros p)) 0 = p"
proof -
  let ?z = "takeWhile (\<lambda>b. b = 0) (rev p)"
  have "?z = replicate (length ?z) 0" by (metis (full_types) replicate_length_same set_takeWhileD)
  then have "rev ?z = replicate (length ?z) 0" by (metis rev_replicate)
  moreover have "p = trim_zeros p @ rev ?z" by (metis rev_append rev_rev_ident takeWhile_dropWhile_id trim_zeros_def)
  moreover from this have "length ?z = length p - length (trim_zeros p)" by (metis add_diff_cancel_left' length_append length_rev)
  ultimately show ?thesis by metis
qed

lemma length_trim_zeros: "length (trim_zeros p) \<le> length p"
  using length_dropWhile_le[of "\<lambda>b. b = 0" "rev p"] by (simp add: trim_zeros_def)

lemma get_put16: "get16 (put16 x @ r) = x"
proof -
  have "(ucast (ucast x :: byte) OR push_bit 8 (ucast (ucast (drop_bit 8 x) :: byte)) :: 16 word) = x"
  proof (rule bit_word_eqI)
    fix n :: nat assume "n < LENGTH(16)"
    then show "bit (ucast (ucast x :: byte) OR push_bit 8 (ucast (ucast (drop_bit 8 x) :: byte)) :: 16 word) n = bit x n"
      by (cases "n < 8") (auto simp: bit_simps)
  qed
  then show ?thesis by (simp add: get16_def put16_def)
qed

lemma length_put16 [simp]: "length (put16 x) = 2"
  by (simp add: put16_def)

lemma id_bytes:
  assumes "i < 2 ^ 24"
  defines "w \<equiv> (word_of_nat i :: 32 word)"
  shows "unat ((ucast (ucast w :: byte) OR push_bit 8 (ucast (ucast (drop_bit 8 w) :: byte)) OR
    push_bit 16 (ucast (ucast (drop_bit 16 w) :: byte))) :: 32 word) = i"
proof -
  have "take_bit 24 i = i" using assms(1) by (rule take_bit_nat_eq_self)
  then have "w = take_bit 24 w" unfolding w_def by (metis take_bit_of_nat)
  then have top: "\<not> bit w n" if "24 \<le> n" for n using that by (metis bit_take_bit_iff not_less)
  have "(ucast (ucast w :: byte) OR push_bit 8 (ucast (ucast (drop_bit 8 w) :: byte)) OR push_bit 16 (ucast (ucast (drop_bit 16 w) :: byte))) = w"
  proof (rule bit_word_eqI)
    fix n :: nat assume "n < LENGTH(32)"
    then have "n < 8 \<or> 8 \<le> n \<and> n < 16 \<or> 16 \<le> n \<and> n < 24 \<or> 24 \<le> n" by auto
    then show "bit (ucast (ucast w :: byte) OR push_bit 8 (ucast (ucast (drop_bit 8 w) :: byte)) OR
        push_bit 16 (ucast (ucast (drop_bit 16 w) :: byte)) :: 32 word) n = bit w n"
      using top \<open>n < LENGTH(32)\<close> by (elim disjE) (auto simp: bit_simps)
  qed
  then show ?thesis using assms(1) by (simp add: w_def unat_of_nat)
qed

lemma length_header [simp]: "length (header n seq s c i) = 10"
  by (simp add: header_def Let_def)

lemma read_header_header:
  assumes "i < 2 ^ 24"
  shows "read_header (header n seq s c i @ r) = Inr (headerLenV2, \<lparr>frVersion = 2, frIncompatFlags = 0, frCompatFlags = 0, frSeq = seq,
    frSysID = s, frCompID = c, frID = i, frPayload = [], frMsg = None, frSigned = False\<rparr>)"
  using id_bytes[OF assms] by (simp add: read_header_def header_def Let_def)

section \<open>Whole frames\<close>

text \<open>What \<open>decodeFrame\<close> says of a version 2 frame with a given header, payload and checksum.\<close>

definition frame_of_parts :: "byte \<Rightarrow> byte \<Rightarrow> byte \<Rightarrow> msgdef \<Rightarrow> byte list \<Rightarrow> byte list" where
  "frame_of_parts seq s c d pay =
     (let f = header (length pay) seq s c (mdID d) @ pay in f @ put16 (frameCRC (drop 1 f) (mdCRC d)))"

lemma Encode_parts: "Encode dst seq s c (d, vs) = dst @ frame_of_parts seq s c d (trim_zeros (Marshal d vs))"
  by (simp add: Encode_def frame_of_parts_def Let_def)

lemma length_parts [simp]: "length (frame_of_parts seq s c d pay) = 12 + length pay"
  by (simp add: frame_of_parts_def Let_def)

lemma dialect_ids: "NewMessage i = Some d \<Longrightarrow> mdID d = i \<and> i < 2 ^ 24 \<and> laid_out d"
  using dialect_laid_out dialect_small by (auto simp: NewMessage_Some list_all_iff)

text \<open>Any version 2 frame: the header bytes, the payload and two more bytes.\<close>

lemma decodeFrame_v2:
  assumes "NewMessage i = Some d" "length pay < 256" "length t = 2"
  shows "decodeFrame (header (length pay) seq s c i @ pay @ t @ r) =
    (if frameCRC (drop 1 (header (length pay) seq s c i @ pay)) (mdCRC d) \<noteq> get16 t then (Inl ErrBadCRC, 1)
     else let full = max (length pay) (mdLen d) in
       case Unmarshal d (pay @ replicate (full - length pay) 0) of
         None \<Rightarrow> (Inl ErrShortPayload, 12 + length pay)
       | Some vs \<Rightarrow> (Inr \<lparr>frVersion = 2, frIncompatFlags = 0, frCompatFlags = 0, frSeq = seq, frSysID = s, frCompID = c,
           frID = i, frPayload = pay, frMsg = Some (d, vs), frSigned = False\<rparr>, 12 + length pay))"
proof -
  let ?h = "header (length pay) seq s c i"
  have h: "read_header (?h @ pay @ t @ r) = Inr (headerLenV2, \<lparr>frVersion = 2, frIncompatFlags = 0, frCompatFlags = 0, frSeq = seq,
      frSysID = s, frCompID = c, frID = i, frPayload = [], frMsg = None, frSigned = False\<rparr>)"
    using read_header_header dialect_ids[OF assms(1)] by blast
  have n: "unat ((?h @ pay @ t @ r) ! 1) = length pay"
    using assms(2) by (simp add: header_def Let_def unat_of_nat)
  have b: "take (10 + length pay - 1) (drop 1 (?h @ pay @ t @ r)) = drop 1 (?h @ pay)" by simp
  have g: "get16 (drop (10 + length pay) (?h @ pay @ t @ r)) = get16 t"
    using assms(3) by (simp add: get16_def nth_append)
  have p: "take (length pay) (drop 10 (?h @ pay @ t @ r)) = pay" by simp
  show ?thesis
    unfolding decodeFrame_def h sum.case prod.case Let_def n frame.simps b g p assms(1) option.case
    using assms(3) by (simp split: option.split)
qed

text \<open>A frame this package encodes decodes to what was encoded.\<close>

lemma decodeFrame_Encode:
  assumes "NewMessage i = Some d" "typed d vs"
  shows "decodeFrame (Encode [] seq s c (d, vs) @ r) =
    (Inr \<lparr>frVersion = 2, frIncompatFlags = 0, frCompatFlags = 0, frSeq = seq, frSysID = s, frCompID = c, frID = i,
       frPayload = trim_zeros (Marshal d vs), frMsg = Some (d, vs), frSigned = False\<rparr>, length (Encode [] seq s c (d, vs)))"
proof -
  note d = dialect_ids[OF assms(1)]
  let ?pay = "trim_zeros (Marshal d vs)"
  have l: "length (Marshal d vs) = mdLen d" "length ?pay \<le> mdLen d"
    using length_Marshal[of d vs] length_trim_zeros[of "Marshal d vs"] d assms(2) by auto
  have u: "Unmarshal d (?pay @ replicate (max (length ?pay) (mdLen d) - length ?pay) 0) = Some vs"
    using trim_zeros_pad[of "Marshal d vs"] Unmarshal_Marshal[of d vs "[]"] d assms(2) l by (simp add: max_absorb2)
  have len: "length ?pay < 256" using l d by (simp add: laid_out_def)
  show ?thesis
    using decodeFrame_v2[OF assms(1) len length_put16, of seq s c] u d get_put16[of _ "[]"]
    by (simp add: Encode_parts frame_of_parts_def Let_def)
qed

definition is_magic :: "byte \<Rightarrow> bool" where
  "is_magic c \<longleftrightarrow> c = MagicV2 \<or> c = MagicV1"

section \<open>How much a frame takes\<close>

text \<open>Nothing is taken from a truncated frame only, and then the frame is still short of the longest one.\<close>

lemma decodeFrame_takes:
  assumes "is_magic (b ! 0)" "decodeFrame b = (r, n)"
  shows "n \<le> length b" "n = 0 \<longleftrightarrow> r = Inl ErrTruncated" "n = 0 \<Longrightarrow> length b < MaxFrameLen" "r \<noteq> Inl ErrNeedMore"
proof -
  have "unat (b ! 1) < 2 ^ LENGTH(8)" by (rule unsigned_less)
  then have "unat (b ! 1) \<le> 255" by simp
  then show "n \<le> length b" "n = 0 \<longleftrightarrow> r = Inl ErrTruncated" "n = 0 \<Longrightarrow> length b < MaxFrameLen" "r \<noteq> Inl ErrNeedMore"
    using assms
    by (auto simp: decodeFrame_def read_header_def is_magic_def Let_def MaxFrameLen_def split: if_splits option.splits)
qed

text \<open>Bytes behind a frame do not matter to it.\<close>

lemma decodeFrame_prefix:
  assumes "b \<noteq> []" "snd (decodeFrame b) \<noteq> 0"
  shows "decodeFrame (b @ x) = decodeFrame b"
proof -
  have nth: "(b @ x) ! k = b ! k" if "k < length b" for k using that by (simp add: nth_append)
  have h: "read_header (b @ x) = read_header b"
    using assms nth[of 0] nth[of 1] nth[of 2] nth[of 3] nth[of 4] nth[of 5] nth[of 6] nth[of 7] nth[of 8] nth[of 9]
    by (auto simp: read_header_def decodeFrame_def split: if_splits)
  show ?thesis
  proof (cases "read_header b")
    case (Inl e)
    then show ?thesis by (simp add: decodeFrame_def h split: prod.splits)
  next
    case (Inr hf)
    obtain hl f where hf: "read_header b = Inr (hl, f)" using Inr by (cases hf) auto
    have hl: "6 \<le> hl" using hf by (auto simp: read_header_def split: if_splits)
    define total where "total = hl + unat (b ! 1) + crcLen + (if frSigned f then signatureLen else 0)"
    have t: "total \<le> length b" using assms(2) by (auto simp: decodeFrame_def hf Let_def total_def split: if_splits)
    then have one: "(b @ x) ! 1 = b ! 1" by (intro nth) (simp add: total_def)
    have g: "get16 (drop (hl + unat (b ! 1)) (b @ x)) = get16 (drop (hl + unat (b ! 1)) b)"
      using t by (simp add: get16_def total_def nth_append)
    have k: "take (hl + unat (b ! 1) - 1) (drop 1 (b @ x)) = take (hl + unat (b ! 1) - 1) (drop 1 b)"
      "take (unat (b ! 1)) (drop hl (b @ x)) = take (unat (b ! 1)) (drop hl b)"
      using t hl by (simp_all add: total_def)
    show ?thesis
      unfolding decodeFrame_def h hf sum.case prod.case Let_def one g k
      using t by (simp add: total_def)
  qed
qed

section \<open>One corrupted byte\<close>

lemma get16_inj: "get16 [a, b] = get16 [a', b'] \<Longrightarrow> a = a' \<and> b = b'"
proof -
  assume e: "get16 [a, b] = get16 [a', b']"
  have low: "bit (get16 [p, q]) n = bit p n" "bit (get16 [p, q]) (8 + n) = bit q n" if "n < 8" for p q :: byte and n
    using that by (auto simp: get16_def bit_simps dest: bit_imp_le_length)
  have "a = a'"
  proof (rule bit_word_eqI)
    fix n :: nat assume "n < LENGTH(8)"
    then show "bit a n = bit a' n" using low(1)[of n a b] low(1)[of n a' b'] e by simp
  qed
  moreover have "b = b'"
  proof (rule bit_word_eqI)
    fix n :: nat assume "n < LENGTH(8)"
    then show "bit b n = bit b' n" using low(2)[of n a b] low(2)[of n a' b'] e by simp
  qed
  ultimately show ?thesis ..
qed

lemma header_update:
  "(header n seq s c i)[4 := v] = header n v s c i" "(header n seq s c i)[5 := v] = header n seq v c i" "(header n seq s c i)[6 := v] = header n seq s v i"
  by (simp_all add: header_def Let_def)

lemma corrupt_body:
  assumes "NewMessage i = Some d" "length pay < 256" "4 \<le> k" "k \<notin> {7, 8, 9}" "k < 10 + length pay"
    and f: "f = header (length pay) seq s c i @ pay" and v: "v \<noteq> f ! k"
  shows "decodeFrame (f[k := v] @ put16 (frameCRC (drop 1 f) (mdCRC d)) @ r) = (Inl ErrBadCRC, 1)"
proof -
  have "\<exists>seq' s' c' pay'. f[k := v] = header (length pay') seq' s' c' i @ pay' \<and> length pay' = length pay"
  proof (cases "k < 10")
    case True
    then have "k = 4 \<or> k = 5 \<or> k = 6" using assms(3,4) by auto
    then have "\<exists>seq' s' c'. f[k := v] = header (length pay) seq' s' c' i @ pay"
      unfolding f by (elim disjE; simp add: list_update_append header_update; blast)
    then show ?thesis by blast
  next
    case False
    then show ?thesis unfolding f by (intro exI[of _ seq] exI[of _ s] exI[of _ c] exI[of _ "pay[k - 10 := v]"]) (simp add: list_update_append)
  qed
  then obtain seq' s' c' pay' where p: "f[k := v] = header (length pay') seq' s' c' i @ pay'" "length pay' = length pay" by blast
  have "drop 1 (f[k := v]) = (drop 1 f)[k - 1 := v]" using assms(3) by (simp add: drop_update_swap)
  moreover have "length f = 10 + length pay" by (simp add: f)
  then have "k - 1 < length (drop 1 f)" "v \<noteq> drop 1 f ! (k - 1)" using assms(3,5) v by auto
  ultimately have "frameCRC (drop 1 (f[k := v])) (mdCRC d) \<noteq> frameCRC (drop 1 f) (mdCRC d)"
    using frameCRC_corrupted by metis
  then show ?thesis
    using decodeFrame_v2[OF assms(1) _ length_put16, of pay' seq' s' c'] p assms(2) get_put16[of _ "[]"] by simp
qed

lemma corrupt_trailer:
  assumes "NewMessage i = Some d" "length pay < 256" "k < 2" "v \<noteq> t ! k" "t = put16 (frameCRC (drop 1 (header (length pay) seq s c i @ pay)) (mdCRC d))"
  shows "decodeFrame (header (length pay) seq s c i @ pay @ t[k := v] @ r) = (Inl ErrBadCRC, 1)"
proof -
  obtain a b where t: "t = [a, b]" using assms(5) by (simp add: put16_def)
  have "get16 (t[k := v]) \<noteq> get16 t"
    using assms(3,4) get16_inj[of v b a b] get16_inj[of a v a b] by (auto simp: t less_2_cases_iff)
  then have "frameCRC (drop 1 (header (length pay) seq s c i @ pay)) (mdCRC d) \<noteq> get16 (t[k := v])"
    using get_put16[of _ "[]"] assms(5) by simp
  moreover have "length (t[k := v]) = 2" unfolding length_list_update by (simp add: t)
  ultimately show ?thesis using decodeFrame_v2[OF assms(1,2)] by presburger
qed

lemma decodeFrame_accepts:
  assumes "decodeFrame b = (Inr f, n)"
  shows "(\<exists>d vs. NewMessage (frID f) = Some d \<and> frMsg f = Some (d, vs) \<and> typed d vs) \<and>
    length (frPayload f) = unat (b ! 1) \<and> frIncompatFlags f AND NOT flagSigned = 0 \<and> length (frPayload f) < n \<and> n \<le> length b"
proof -
  obtain hl f0 where h: "read_header b = Inr (hl, f0)" using assms by (cases "read_header b") (auto simp: decodeFrame_def)
  then have hl: "0 < hl" by (auto simp: read_header_def split: if_splits)
  obtain d vs where v: "NewMessage (frID f0) = Some d" "f = f0\<lparr>frPayload := take (unat (b ! 1)) (drop hl b), frMsg := Some (d, vs)\<rparr>"
    "frIncompatFlags f0 AND NOT flagSigned = 0"
    "Unmarshal d (take (unat (b ! 1)) (drop hl b) @ replicate (max (unat (b ! 1)) (mdLen d) - unat (b ! 1)) 0) = Some vs"
    and n: "n = hl + unat (b ! 1) + crcLen + (if frSigned f0 then signatureLen else 0)" "n \<le> length b"
    using assms h by (auto simp: decodeFrame_def Let_def split: if_splits option.splits)
  have "typed d vs" using Marshal_Unmarshal(1) dialect_ids[OF v(1)] v(4) by blast
  then show ?thesis using v n hl by simp
qed

section \<open>Properties\<close>

text \<open>C36: A frame this package sends is read back as what was sent. Encoding any well-typed message of the dialect, trailing zeros
  trimmed, and decoding the datagram gives the sender, the sequence number and the same field values, whatever follows in the datagram.\<close>

theorem frame_roundtrip:
  assumes "NewMessage i = Some d" "typed d vs"
  shows "DecodeDatagram (Encode [] seq s c (d, vs) @ r) =
    Inr \<lparr>frVersion = 2, frIncompatFlags = 0, frCompatFlags = 0, frSeq = seq, frSysID = s, frCompID = c, frID = i,
      frPayload = trim_zeros (Marshal d vs), frMsg = Some (d, vs), frSigned = False\<rparr> \<and> length (Encode [] seq s c (d, vs)) \<le> MaxFrameLen"
proof -
  note d = dialect_ids[OF assms(1)]
  have l: "length (trim_zeros (Marshal d vs)) \<le> 255"
    using length_Marshal[of d vs] length_trim_zeros[of "Marshal d vs"] d assms(2) by (simp add: laid_out_def)
  have "Encode [] seq s c (d, vs) @ r \<noteq> [] \<and> (Encode [] seq s c (d, vs) @ r) ! 0 = MagicV2"
    by (simp add: Encode_parts frame_of_parts_def header_def Let_def)
  then show ?thesis using decodeFrame_Encode[OF assms, of seq s c r] l by (simp add: DecodeDatagram_def Encode_parts MaxFrameLen_def)
qed

text \<open>C5: The checksum finds every corrupted byte. A frame of which any one byte behind the flags has been changed (the message
  identifier apart, which selects the definition the checksum is computed with) is never accepted: sequence number, sender, payload
  or checksum, the decoder reports a bad checksum and gives up one byte only, so that it can look for the next frame.\<close>

theorem corruption_detected:
  assumes "NewMessage i = Some d" "typed d vs" "f = Encode [] seq s c (d, vs)"
    and "4 \<le> k" "k \<notin> {7, 8, 9}" "k < length f" "v \<noteq> f ! k"
  shows "decodeFrame (f[k := v] @ r) = (Inl ErrBadCRC, 1)"
proof -
  note d = dialect_ids[OF assms(1)]
  define pay where "pay = trim_zeros (Marshal d vs)"
  define g where "g = header (length pay) seq s c i @ pay"
  define t where "t = put16 (frameCRC (drop 1 g) (mdCRC d))"
  have len: "length pay < 256" "length g = 10 + length pay" "length t = 2"
    using length_Marshal[of d vs] length_trim_zeros[of "Marshal d vs"] d assms(2) by (simp_all add: laid_out_def pay_def g_def t_def)
  have f: "f = g @ t" using assms(3) d by (simp add: Encode_parts frame_of_parts_def Let_def g_def t_def pay_def)
  show ?thesis
  proof (cases "k < length g")
    case True
    then have "f[k := v] @ r = g[k := v] @ t @ r" "v \<noteq> g ! k" using assms(7) by (simp_all add: f list_update_append1 nth_append)
    then show ?thesis using corrupt_body[OF assms(1) len(1) assms(4,5) _ g_def] True len(2) unfolding t_def by simp
  next
    case False
    then have "f[k := v] @ r = g @ t[k - length g := v] @ r" "v \<noteq> t ! (k - length g)" "k - length g < 2"
      using assms(6,7) len(3) by (simp_all add: f list_update_append nth_append)
    then show ?thesis using corrupt_trailer[OF assms(1) len(1) _ _ t_def[unfolded g_def]] unfolding g_def by simp
  qed
qed

text \<open>C38: Whatever the decoder accepts is a well-typed message of the dialect. The definition is the one the header's identifier names, every
  field of the result has its declared number of elements within the declared width, the payload is the declared one, no unknown
  incompatibility flag is set, and no more bytes are taken than there are.\<close>

theorem decoded_well_typed:
  assumes "decodeFrame b = (Inr f, n)"
  shows "(\<exists>d vs. NewMessage (frID f) = Some d \<and> frMsg f = Some (d, vs) \<and> typed d vs) \<and>
    length (frPayload f) = unat (b ! 1) \<and> frIncompatFlags f AND NOT flagSigned = 0 \<and> length (frPayload f) < n \<and> n \<le> length b"
  using decodeFrame_accepts[OF assms] .

section \<open>Examples\<close>

abbreviation ex_ack_vals :: vals where "ex_ack_vals \<equiv> [[400], [3], [7], [0], [0], [0]]"

lemma ex_ack_msg: "NewMessage 77 = Some mav_CommandAck" "typed mav_CommandAck ex_ack_vals"
  by (simp_all add: NewMessage_def dialect_def dialect_defs md_def typed_def md_fields_def fd_def typed_field_def elems_def
      take_bit_word_eq_self)

theorem frame_roundtrip_witness:
  "\<exists>f. DecodeDatagram (Encode [] 9 1 1 (mav_CommandAck, ex_ack_vals) @ [0]) = Inr f \<and> frSeq f = 9 \<and> frMsg f = Some (mav_CommandAck, ex_ack_vals)"
  using frame_roundtrip[OF ex_ack_msg, of 9 1 1 "[0]"] by simp

theorem corruption_detected_witness:
  "decodeFrame ((Encode [] 9 1 1 (mav_CommandAck, ex_ack_vals))[4 := 8]) = (Inl ErrBadCRC, 1)"
  using corruption_detected[OF ex_ack_msg refl, of 4 9 1 1 8 "[]"] by (simp add: Encode_parts frame_of_parts_def header_def Let_def)

theorem decoded_well_typed_witness:
  "\<exists>f n d vs. decodeFrame (Encode [] 9 1 1 (mav_CommandAck, ex_ack_vals)) = (Inr f, n) \<and> frMsg f = Some (d, vs) \<and> typed d vs"
proof -
  obtain f n where f: "decodeFrame (Encode [] 9 1 1 (mav_CommandAck, ex_ack_vals)) = (Inr f, n)"
    using decodeFrame_Encode[OF ex_ack_msg, of 9 1 1 "[]"] by simp
  then show ?thesis using decoded_well_typed[OF f] by blast
qed

end
