(* ===== verification/MavParser.thy ===== *)
theory MavParser
  imports MavFrame
begin

text \<open>
  The stream parser of \<open>pkg/mavlink/frame.go\<close>: how frames are found again in a damaged stream, and that it does
  not matter how the stream is cut into reads.
\<close>

section \<open>The stream parser\<close>

record Stats =
  stFrames :: uint64
  stGarbageBytes :: uint64
  stBadCRC :: uint64
  stUnknown :: uint64

record parser =
  paBuf :: "byte list"
  paOff :: nat
  paStats :: Stats

definition new_parser :: parser where
  "new_parser = \<lparr>paBuf = [], paOff = 0, paStats = \<lparr>stFrames = 0, stGarbageBytes = 0, stBadCRC = 0, stUnknown = 0\<rparr>\<rparr>"

definition Feed :: "byte list \<Rightarrow> parser \<Rightarrow> parser" where
  "Feed b p =
     (let p1 = (if 0 < paOff p then p\<lparr>paBuf := drop (paOff p) (paBuf p), paOff := 0\<rparr> else p)
      in p1\<lparr>paBuf := paBuf p1 @ b\<rparr>)"

definition Buffered :: "parser \<Rightarrow> nat" where
  "Buffered p = length (paBuf p) - paOff p"

definition Parser_Reset :: "parser \<Rightarrow> parser" where
  "Parser_Reset p = p\<lparr>paBuf := [], paOff := 0\<rparr>"

definition garbage :: "nat \<Rightarrow> Stats \<Rightarrow> Stats" where
  "garbage n st = st\<lparr>stGarbageBytes := stGarbageBytes st + word_of_nat n\<rparr>"

definition count_error :: "mav_error \<Rightarrow> Stats \<Rightarrow> Stats" where
  "count_error e st = (if e = ErrBadCRC then st\<lparr>stBadCRC := stBadCRC st + 1\<rparr> else st\<lparr>stUnknown := stUnknown st + 1\<rparr>)"

text \<open>Every branch of the source's loop returns, so it is one step.\<close>

definition Next :: "parser \<Rightarrow> (mav_error + frame) \<times> parser" where
  "Next p =
     (let b0 = drop (paOff p) (paBuf p) in
      case index_func is_magic b0 of
        None \<Rightarrow> (Inl ErrNeedMore, p\<lparr>paStats := garbage (length b0) (paStats p), paOff := length (paBuf p)\<rparr>)
      | Some i \<Rightarrow>
          let p1 = (if 0 < i then p\<lparr>paStats := garbage i (paStats p), paOff := paOff p + i\<rparr> else p) in
          (case decodeFrame (drop i b0) of
             (Inr f, n) \<Rightarrow> (Inr f, p1\<lparr>paOff := paOff p1 + n, paStats := (paStats p1)\<lparr>stFrames := stFrames (paStats p1) + 1\<rparr>\<rparr>)
           | (Inl e, n) \<Rightarrow>
               if n = 0 then (Inl ErrNeedMore, p1)
               else (Inl e, p1\<lparr>paOff := paOff p1 + n, paStats := count_error e (paStats p1)\<rparr>)))"


section \<open>One call of \<open>Next\<close>\<close>

lemma index_func_nth: "index_func P xs = Some i \<Longrightarrow> drop i xs \<noteq> [] \<and> P (drop i xs ! 0)"
  using index_func_Some[of P xs i] by simp

lemma Next_progress:
  assumes "Next p = (r, p')" "r \<noteq> Inl ErrNeedMore"
  shows "Buffered p' < Buffered p"
proof -
  let ?b = "drop (paOff p) (paBuf p)"
  obtain i where i: "index_func is_magic ?b = Some i"
    using assms by (cases "index_func is_magic ?b") (auto simp: Next_def Let_def)
  obtain r0 n where d: "decodeFrame (drop i ?b) = (r0, n)" by fastforce
  note t = decodeFrame_takes[OF conjunct2[OF index_func_nth[OF i]] d]
  have n: "0 < n" "paOff p' = paOff p + i + n" "paBuf p' = paBuf p"
    using assms t(2) i d by (auto simp: Next_def Let_def split: sum.splits if_splits)
  have "i < length ?b" using index_func_Some[OF i] by simp
  then show ?thesis using n t(1) by (auto simp: Buffered_def)
qed

text \<open>The loop of the parser's user: call \<open>Next\<close> until it asks for more.\<close>

function drain :: "parser \<Rightarrow> (mav_error + frame) list \<times> parser" where
  "drain p =
     (case Next p of (r, p1) \<Rightarrow>
        if r = Inl ErrNeedMore then ([], p1) else let (rs, p2) = drain p1 in (r # rs, p2))"
  by pat_completeness auto

termination
  by (relation "measure Buffered") (auto dest: Next_progress[OF sym])

declare drain.simps [simp del]

fun feed_all :: "byte list list \<Rightarrow> parser \<Rightarrow> (mav_error + frame) list \<times> parser" where
  "feed_all [] p = ([], p)"
| "feed_all (c # cs) p = (let (rs, p1) = drain (Feed c p); (rs', p2) = feed_all cs p1 in (rs @ rs', p2))"

section \<open>The parser as a function of the bytes not yet consumed\<close>

definition unread :: "parser \<Rightarrow> byte list" where
  "unread p = drop (paOff p) (paBuf p)"

function scan :: "byte list \<Rightarrow> Stats \<Rightarrow> (mav_error + frame) list \<times> byte list \<times> Stats" where
  "scan b st =
     (case index_func is_magic b of
        None \<Rightarrow> ([], [], garbage (length b) st)
      | Some i \<Rightarrow>
          (case decodeFrame (drop i b) of (r, n) \<Rightarrow>
             if n = 0 then ([], drop i b, garbage i st)
             else let st1 = (case r of Inr f \<Rightarrow> (garbage i st)\<lparr>stFrames := stFrames st + 1\<rparr> | Inl e \<Rightarrow> count_error e (garbage i st));
                      (rs, rest, st2) = scan (drop n (drop i b)) st1
                  in (r # rs, rest, st2)))"
  by pat_completeness auto

termination
  by (relation "measure (length \<circ> fst)") (auto dest!: index_func_nth)

declare scan.simps [simp del]

lemma garbage_simps [simp]:
  "garbage 0 st = st" "garbage i (garbage j st) = garbage (j + i) st" "stFrames (garbage i st) = stFrames st"
  by (simp_all add: garbage_def add.assoc)

lemma unread_moved:
  "unread (p\<lparr>paOff := paOff p + m, paStats := st\<rparr>) = drop m (unread p)" "unread (p\<lparr>paStats := st\<rparr>) = unread p"
  "unread (p\<lparr>paStats := st, paOff := length (paBuf p)\<rparr>) = []" "unread (p\<lparr>paStats := st, paOff := m\<rparr>) = drop m (paBuf p)"
  "unread (p\<lparr>paOff := paOff p + m\<rparr>) = drop m (unread p)"
  by (simp_all add: unread_def add.commute)

lemma drop_unread: "drop (paOff p + m) (paBuf p) = drop m (unread p)"
  by (simp add: unread_def add.commute)

lemma Next_unread:
  assumes "Next p = (r, p1)"
  shows "case index_func is_magic (unread p) of
      None \<Rightarrow> r = Inl ErrNeedMore \<and> unread p1 = [] \<and> paStats p1 = garbage (length (unread p)) (paStats p)
    | Some i \<Rightarrow> (case decodeFrame (drop i (unread p)) of (r0, n) \<Rightarrow>
        if n = 0 then r = Inl ErrNeedMore \<and> unread p1 = drop i (unread p) \<and> paStats p1 = garbage i (paStats p)
        else r = r0 \<and> r \<noteq> Inl ErrNeedMore \<and> unread p1 = drop n (drop i (unread p)) \<and>
          paStats p1 = (case r of Inr f \<Rightarrow> (garbage i (paStats p))\<lparr>stFrames := stFrames (paStats p) + 1\<rparr> | Inl e \<Rightarrow> count_error e (garbage i (paStats p))))"
proof (cases "index_func is_magic (unread p)")
  case None
  then show ?thesis using assms by (auto simp: Next_def unread_def[symmetric] unread_moved Let_def simp del: index_func_None)
next
  case (Some i)
  obtain r0 n where d: "decodeFrame (drop i (unread p)) = (r0, n)" by fastforce
  note t = decodeFrame_takes[OF conjunct2[OF index_func_nth[OF Some]] d]
  show ?thesis
    using assms Some d t(2,4)
    by (cases r0; cases "i = 0")
      (auto simp: Next_def unread_def[symmetric] unread_moved drop_unread add.assoc add.commute[of n i] Let_def split: if_splits)
qed

lemma drain_scan: "drain p = (rs, p') \<Longrightarrow> scan (unread p) (paStats p) = (rs, unread p', paStats p')"
proof (induction p arbitrary: rs p' rule: drain.induct)
  case (1 p)
  obtain r p1 where n: "Next p = (r, p1)" by fastforce
  note u = Next_unread[OF n]
  show ?case
  proof (cases "r = Inl ErrNeedMore")
    case True
    then have "rs = []" "p' = p1" using "1.prems" n by (simp_all add: drain.simps[of p])
    then show ?thesis using u True by (auto simp: scan.simps[of "unread p"] simp del: index_func_None split: option.splits prod.splits if_splits)
  next
    case False
    obtain rs1 p2 where d: "drain p1 = (rs1, p2)" by fastforce
    then have "rs = r # rs1" "p' = p2" using "1.prems" n False by (simp_all add: drain.simps[of p])
    then show ?thesis using u False "1.IH"[OF n[symmetric] False d]
      by (auto simp: scan.simps[of "unread p"] Let_def simp del: index_func_None split: option.splits prod.splits if_splits)
  qed
qed

lemma unread_Feed [simp]: "unread (Feed b p) = unread p @ b" "paStats (Feed b p) = paStats p"
  by (auto simp: unread_def Feed_def Let_def)

section \<open>Cutting the stream\<close>

lemma index_func_append:
  "index_func P (a @ b) = (case index_func P a of Some i \<Rightarrow> Some i | None \<Rightarrow> map_option ((+) (length a)) (index_func P b))"
proof (induction a)
  case Nil
  then show ?case by (cases "index_func P b") (simp_all del: index_func_None)
next
  case (Cons x a)
  then show ?case by (cases "index_func P a"; cases "index_func P b") (simp_all del: index_func_None)
qed

text \<open>Bytes that cannot begin a frame are counted and forgotten.\<close>

lemma scan_noise:
  assumes "index_func is_magic a = None"
  shows "scan (a @ b) st = scan b (garbage (length a) st)"
proof (cases "index_func is_magic b")
  case None
  then show ?thesis using assms by (simp add: scan.simps[of "a @ b"] scan.simps[of b] index_func_append del: index_func_None)
next
  case (Some i)
  obtain r n where "decodeFrame (drop i b) = (r, n)" by fastforce
  then show ?thesis using assms Some
    by (cases r; cases "n = 0") (simp_all add: scan.simps[of "a @ b"] scan.simps[of b] index_func_append del: index_func_None)
qed

lemma scan_skip:
  assumes "index_func is_magic a = Some i"
  shows "scan (a @ b) st = scan (drop i a @ b) (garbage i st)"
proof -
  have "\<forall>c\<in>set (take i a). \<not> is_magic c" using index_func_Some[OF assms] by (auto simp: in_set_conv_nth)
  then have "scan (take i a @ drop i a @ b) st = scan (drop i a @ b) (garbage (length (take i a)) st)"
    by (intro scan_noise) simp
  moreover have "length (take i a) = i" using index_func_Some[OF assms] by simp
  ultimately show ?thesis by (metis append.assoc append_take_drop_id)
qed

text \<open>Reading a stream in two parts is reading it at once: nothing is lost or found by the cut.\<close>

lemma scan_append:
  "scan (a @ b) st = (let (r1, rest, st1) = scan a st; (r2, rest2, st2) = scan (rest @ b) st1 in (r1 @ r2, rest2, st2))"
proof (induction a st rule: scan.induct)
  case (1 a st)
  show ?case
  proof (cases "index_func is_magic a")
    case None
    then show ?thesis using scan_noise[OF None, of b st]
      by (simp add: scan.simps[of a] Let_def del: index_func_None split: prod.split)
  next
    case (Some i)
    obtain r n where d: "decodeFrame (drop i a) = (r, n)" by fastforce
    show ?thesis
    proof (cases "n = 0")
      case True
      then show ?thesis using scan_skip[OF Some, of b st] Some d by (simp add: scan.simps[of a] Let_def split: prod.split)
    next
      case False
      note t = decodeFrame_takes[OF conjunct2[OF index_func_nth[OF Some]] d]
      have p: "decodeFrame (drop i (a @ b)) = (r, n)"
        using decodeFrame_prefix[of "drop i a" b] index_func_nth[OF Some] index_func_Some[OF Some] d False by simp
      have e: "drop n (drop i (a @ b)) = drop n (drop i a) @ b" using t(1) index_func_Some[OF Some] by simp
      have s: "index_func is_magic (a @ b) = Some i" using Some by (simp add: index_func_append)
      show ?thesis
        unfolding scan.simps[of "a @ b"] s option.case p prod.case if_not_P[OF False] e
          scan.simps[of a st] Some d
        using "1.IH"[OF Some d[symmetric] False refl] by (auto simp: Let_def split: prod.splits)
    qed
  qed
qed

lemma scan_again: "scan a st = (rs, rest, st1) \<Longrightarrow> scan rest st1 = ([], rest, st1)"
  using scan_append[of a "[]" st] by (auto split: prod.splits)

lemma scan_rest: "scan a st = (rs, rest, st1) \<Longrightarrow> length rest < MaxFrameLen"
proof (induction a st arbitrary: rs rule: scan.induct)
  case (1 a st)
  show ?case
  proof (cases "index_func is_magic a")
    case None
    then show ?thesis using "1.prems" by (simp add: scan.simps[of a] MaxFrameLen_def del: index_func_None)
  next
    case (Some i)
    obtain r n where d: "decodeFrame (drop i a) = (r, n)" by fastforce
    show ?thesis
    proof (cases "n = 0")
      case True
      then show ?thesis
        using "1.prems" Some d decodeFrame_takes(3)[OF conjunct2[OF index_func_nth[OF Some]] d] by (simp add: scan.simps[of a])
    next
      case False
      then show ?thesis using "1.prems" Some d "1.IH"[OF Some d[symmetric] False refl]
        by (auto simp: scan.simps[of a] Let_def split: prod.splits)
    qed
  qed
qed

text \<open>What the user of the parser sees of a stream, however it arrives.\<close>

lemma feed_all_scan:
  assumes "scan (unread p) (paStats p) = ([], unread p, paStats p)" "feed_all cs p = (rs, p')"
  shows "scan (unread p @ concat cs) (paStats p) = (rs, unread p', paStats p')"
  using assms
proof (induction cs arbitrary: p rs)
  case Nil
  then show ?case by simp
next
  case (Cons c cs)
  obtain r1 p1 where d: "drain (Feed c p) = (r1, p1)" by fastforce
  obtain r2 where f: "feed_all cs p1 = (r2, p')" "rs = r1 @ r2" using Cons.prems(2) d by (auto split: prod.splits)
  have s: "scan (unread p @ c) (paStats p) = (r1, unread p1, paStats p1)" using drain_scan[OF d] by simp
  show ?case using scan_append[of "unread p @ c" "concat cs" "paStats p"] s Cons.IH[OF scan_again[OF s] f(1)] f(2) by simp
qed

lemma unread_new [simp]: "unread new_parser = []" by (simp add: unread_def new_parser_def)

lemma scan_Nil [simp]: "scan [] st = ([], [], st)" by (simp add: scan.simps)

lemma feed_all_new: "feed_all cs new_parser = (rs, p) \<Longrightarrow> scan (concat cs) (paStats new_parser) = (rs, unread p, paStats p)"
  using feed_all_scan[of new_parser cs rs p] by simp

lemma drain_new: "drain (Feed b new_parser) = (rs, p) \<Longrightarrow> scan b (paStats new_parser) = (rs, unread p, paStats p)"
  using drain_scan[of "Feed b new_parser" rs p] by simp

lemma Buffered_unread: "Buffered p = length (unread p)" by (simp add: Buffered_def unread_def)

section \<open>Streams of frames\<close>

text \<open>A frame as its sender made it, and what the receiver makes of it.\<close>

type_synonym sent = "byte list \<times> byte \<times> byte \<times> byte \<times> message"

definition on_the_wire :: "sent \<Rightarrow> byte list" where
  "on_the_wire x = (case x of (noise, seq, s, c, m) \<Rightarrow> noise @ Encode [] seq s c m)"

definition msg_sendable :: "sent \<Rightarrow> bool" where
  "msg_sendable x = (case x of (noise, seq, s, c, d, vs) \<Rightarrow>
     (\<forall>b\<in>set noise. \<not> is_magic b) \<and> NewMessage (mdID d) = Some d \<and> typed d vs)"

definition received :: "sent \<Rightarrow> frame" where
  "received x = (case x of (noise, seq, s, c, d, vs) \<Rightarrow>
     \<lparr>frVersion = 2, frIncompatFlags = 0, frCompatFlags = 0, frSeq = seq, frSysID = s, frCompID = c, frID = mdID d,
       frPayload = trim_zeros (Marshal d vs), frMsg = Some (d, vs), frSigned = False\<rparr>)"

lemma scan_sent:
  assumes "msg_sendable x"
  shows "scan (on_the_wire x @ b) st =
    (case scan b ((garbage (length (fst x)) st)\<lparr>stFrames := stFrames st + 1\<rparr>) of (rs, rest, st1) \<Rightarrow> (Inr (received x) # rs, rest, st1))"
proof -
  obtain noise seq s c d vs where x: "x = (noise, seq, s, c, d, vs)" by (cases x)
  have a: "index_func is_magic noise = None" "NewMessage (mdID d) = Some d" "typed d vs" using assms by (auto simp: msg_sendable_def x)
  let ?e = "Encode [] seq s c (d, vs)"
  have "index_func is_magic (?e @ b) = Some 0"
    by (simp add: Encode_parts frame_of_parts_def header_def is_magic_def Let_def)
  moreover have "length ?e \<noteq> 0" by (simp add: Encode_parts)
  ultimately have "scan (?e @ b) st' = (case scan b (st'\<lparr>stFrames := stFrames st' + 1\<rparr>) of
      (rs, rest, st1) \<Rightarrow> (Inr (received x) # rs, rest, st1))" for st'
    using decodeFrame_Encode[OF a(2,3), of seq s c b] by (simp add: scan.simps[of "?e @ b"] received_def x Let_def)
  then show ?thesis using scan_noise[OF a(1), of "?e @ b" st] by (simp add: x on_the_wire_def)
qed

lemma scan_stream:
  assumes "list_all msg_sendable xs"
  shows "scan (concat (map on_the_wire xs)) st =
    (map (Inr \<circ> received) xs, [],
     (garbage (sum_list (map (length \<circ> fst) xs)) st)\<lparr>stFrames := stFrames st + of_nat (length xs)\<rparr>)"
  using assms by (induction xs arbitrary: st) (simp_all add: scan_sent garbage_def algebra_simps)

section \<open>Properties\<close>

text \<open>C6: How a stream is cut into reads does not matter. A user who feeds each piece and calls \<open>Next\<close> until it asks for more gets the
  same frames and the same errors, in the same order, with the same counters, as one who reads the whole stream at once, and what
  stays in the buffer is the same and shorter than the longest frame.\<close>

theorem chunking:
  "fst (feed_all cs new_parser) = fst (drain (Feed (concat cs) new_parser)) \<and>
   unread (snd (feed_all cs new_parser)) = unread (snd (drain (Feed (concat cs) new_parser))) \<and>
   paStats (snd (feed_all cs new_parser)) = paStats (snd (drain (Feed (concat cs) new_parser))) \<and>
   Buffered (snd (feed_all cs new_parser)) < MaxFrameLen"
proof -
  obtain rs p rs' p' where e: "feed_all cs new_parser = (rs, p)" "drain (Feed (concat cs) new_parser) = (rs', p')"
    by (metis surj_pair)
  have "scan (concat cs) (paStats new_parser) = (rs, unread p, paStats p)" using e(1) by (rule feed_all_new)
  moreover have "scan (concat cs) (paStats new_parser) = (rs', unread p', paStats p')" using e(2) by (rule drain_new)
  ultimately show ?thesis using e scan_rest by (auto simp: Buffered_unread)
qed

text \<open>C40: The parser delivers every frame of a stream. Frames of any well-typed messages, with noise before each that holds no start
  byte, cut into reads in any way, all come out, in order and with nothing else; the counters say how many they were and how many
  bytes of noise lay between them.\<close>

theorem stream_delivers:
  assumes "list_all msg_sendable xs" "concat cs = concat (map on_the_wire xs)" "feed_all cs new_parser = (rs, p)"
  shows "rs = map (Inr \<circ> received) xs \<and> Buffered p = 0 \<and> stFrames (paStats p) = of_nat (length xs) \<and>
    stGarbageBytes (paStats p) = of_nat (sum_list (map (length \<circ> fst) xs))"
proof -
  have "scan (concat cs) (paStats new_parser) = (rs, unread p, paStats p)" using assms(3) by (rule feed_all_new)
  then show ?thesis using scan_stream[OF assms(1), of "paStats new_parser"]
    by (auto simp: assms(2) Buffered_unread new_parser_def garbage_def)
qed

section \<open>Examples\<close>

abbreviation ex_stream :: "sent list" where
  "ex_stream \<equiv> [([1, 2], 9, 1, 1, mav_CommandAck, ex_ack_vals), ([], 10, 1, 1, mav_CommandAck, ex_ack_vals)]"

lemma ex_stream_sendable: "list_all msg_sendable ex_stream"
  using ex_ack_msg by (simp add: msg_sendable_def is_magic_def mav_CommandAck_def md_def)

theorem stream_delivers_witness:
  "stFrames (paStats (snd (feed_all (map (\<lambda>b. [b]) (concat (map on_the_wire ex_stream))) new_parser))) = 2 \<and>
   stGarbageBytes (paStats (snd (feed_all (map (\<lambda>b. [b]) (concat (map on_the_wire ex_stream))) new_parser))) = 2"
proof -
  have c: "concat (map (\<lambda>b. [b]) bs) = bs" for bs :: "byte list" by (induction bs) simp_all
  show ?thesis using stream_delivers[OF ex_stream_sendable c surjective_pairing] by simp
qed

end
