(* ===== verification/Spec2Isabelle.thy ===== *)
theory Spec2Isabelle
  imports Prelude Float64 Health Membership Election Affinity Json Wire NodeState Replication Tasks
    Detector NodeCore Handlers Evolution NodeLoop
    JsonText Framing Conn Handshake Pool PoolEvents Backoff MavCodec MavDialect MavCrc MavGen MavFrame MavParser
begin

text \<open>
  A verification development for the swarm node of this repository.
\<close>

end
